(* ===== verification/Prelude.thy ===== *)
theory Prelude
  imports Main "HOL-Library.Word"
begin

text \<open>
  The shared vocabulary of the development: the machine types of the C sources, the error
  codes of \<^verbatim>\<open>re/include/re_types.h\<close>, the byte order of the wire (\<^verbatim>\<open>htons\<close>, \<^verbatim>\<open>htonl\<close> and the
  memory image of an integer), reachability of a step relation, and the interfaces (locales)
  that several components implement: an invariant of a step relation, and a prefix code
  with its decoder.
\<close>

unbundle bit_operations_syntax

section \<open>Machine types\<close>

type_synonym byte = "8 word"
type_synonym u16 = "16 word"
type_synonym u32 = "32 word"
type_synonym u64 = "64 word"

text \<open>
  An error code is the \<^verbatim>\<open>int\<close> the functions return: 0 for success, otherwise an errno value.
  The code accumulates errors with \<^verbatim>\<open>err |= f()\<close>, so codes are numbers that can be or-ed.
  The values are Linux's; \<^verbatim>\<open>EAUTH\<close> is the fallback that \<^verbatim>\<open>re_types.h\<close> defines.
\<close>

type_synonym err = nat

abbreviation (input) OK :: err where "OK \<equiv> 0"

definition ENOENT :: err where "ENOENT = 2"
definition EAGAIN :: err where "EAGAIN = 11"
definition ENOMEM :: err where "ENOMEM = 12"
definition EINVAL :: err where "EINVAL = 22"
definition ERANGE :: err where "ERANGE = 34"
definition ENOSYS :: err where "ENOSYS = 38"
definition ENOSR :: err where "ENOSR = 63"
definition EPROTO :: err where "EPROTO = 71"
definition EBADMSG :: err where "EBADMSG = 74"
definition EOVERFLOW :: err where "EOVERFLOW = 75"
definition ENOTSUP :: err where "ENOTSUP = 95"
definition EAFNOSUPPORT :: err where "EAFNOSUPPORT = 97"
definition ETIMEDOUT :: err where "ETIMEDOUT = 110"
definition EALREADY :: err where "EALREADY = 114"
definition EAUTH :: err where "EAUTH = 217"

named_theorems errno_defs \<open>the numeric values of the error codes\<close>

lemmas errno_values [errno_defs] =
  ENOENT_def EAGAIN_def ENOMEM_def EINVAL_def ERANGE_def ENOSYS_def ENOSR_def EPROTO_def
  EBADMSG_def EOVERFLOW_def ENOTSUP_def EAFNOSUPPORT_def ETIMEDOUT_def EALREADY_def EAUTH_def

section \<open>Memory images of integers and byte order\<close>

text \<open>
  \<^verbatim>\<open>mbuf_write_u16(mb, v)\<close> copies the memory image of \<open>v\<close>; the host is little-endian, so the
  image is \<open>le16 v\<close>, and \<^verbatim>\<open>htons\<close> swaps the bytes.
\<close>

definition le16 :: "u16 \<Rightarrow> byte list" where
  "le16 v = [ucast v, ucast (drop_bit 8 v)]"

definition le32 :: "u32 \<Rightarrow> byte list" where
  "le32 v = [ucast v, ucast (drop_bit 8 v), ucast (drop_bit 16 v), ucast (drop_bit 24 v)]"

definition le64 :: "u64 \<Rightarrow> byte list" where
  "le64 v = [ucast v, ucast (drop_bit 8 v), ucast (drop_bit 16 v), ucast (drop_bit 24 v),
             ucast (drop_bit 32 v), ucast (drop_bit 40 v), ucast (drop_bit 48 v),
             ucast (drop_bit 56 v)]"

fun of_le16 :: "byte list \<Rightarrow> u16" where
  "of_le16 [a, b] = ucast a OR push_bit 8 (ucast b)"
| "of_le16 _ = 0"

fun of_le32 :: "byte list \<Rightarrow> u32" where
  "of_le32 [a, b, c, d] =
     ucast a OR push_bit 8 (ucast b) OR push_bit 16 (ucast c) OR push_bit 24 (ucast d)"
| "of_le32 _ = 0"

fun of_le64 :: "byte list \<Rightarrow> u64" where
  "of_le64 [a, b, c, d, e, f, g, h] =
     ucast a OR push_bit 8 (ucast b) OR push_bit 16 (ucast c) OR push_bit 24 (ucast d) OR
     push_bit 32 (ucast e) OR push_bit 40 (ucast f) OR push_bit 48 (ucast g) OR
     push_bit 56 (ucast h)"
| "of_le64 _ = 0"

definition htons :: "u16 \<Rightarrow> u16" where
  "htons v = of_le16 (rev (le16 v))"

definition htonl :: "u32 \<Rightarrow> u32" where
  "htonl v = of_le32 (rev (le32 v))"

abbreviation ntohs :: "u16 \<Rightarrow> u16" where "ntohs \<equiv> htons"
abbreviation ntohl :: "u32 \<Rightarrow> u32" where "ntohl \<equiv> htonl"

text \<open>The big-endian images, the form every header has on the wire.\<close>

definition be16 :: "u16 \<Rightarrow> byte list" where
  "be16 v = [ucast (drop_bit 8 v), ucast v]"

definition be32 :: "u32 \<Rightarrow> byte list" where
  "be32 v = [ucast (drop_bit 24 v), ucast (drop_bit 16 v), ucast (drop_bit 8 v), ucast v]"

lemma length_images [simp]:
  "length (le16 v) = 2" "length (le32 w) = 4" "length (le64 x) = 8"
  "length (be16 v) = 2" "length (be32 w) = 4"
  by (simp_all add: le16_def le32_def le64_def be16_def be32_def)

lemma of_le16_le16 [simp]: "of_le16 (le16 v) = v"
  by (rule bit_word_eqI, simp add: le16_def bit_simps cong: conj_cong, arith)

lemma of_le32_le32 [simp]: "of_le32 (le32 v) = v"
  by (rule bit_word_eqI, simp add: le32_def bit_simps cong: conj_cong, arith)

lemma of_le64_le64 [simp]: "of_le64 (le64 v) = v"
proof (rule bit_word_eqI)
  fix n
  assume "n < LENGTH(64)"
  then consider "n < 8" | "8 \<le> n" "n < 16" | "16 \<le> n" "n < 24" | "24 \<le> n" "n < 32"
    | "32 \<le> n" "n < 40" | "40 \<le> n" "n < 48" | "48 \<le> n" "n < 56" | "56 \<le> n" "n < 64"
    by (simp, linarith)
  then show "bit (of_le64 (le64 v)) n = bit v n"
    by cases (simp_all add: le64_def bit_simps less_diff_conv2)
qed

lemma byte_bit_high [simp]: "8 \<le> n \<Longrightarrow> \<not> bit (a :: byte) n"
  by (auto dest: bit_imp_le_length)

lemma le16_of_le16 [simp]: "le16 (of_le16 [a, b]) = [a, b]"
  by (auto simp: le16_def bit_simps intro!: bit_word_eqI)

lemma le32_of_le32 [simp]: "le32 (of_le32 [a, b, c, d]) = [a, b, c, d]"
  by (auto simp: le32_def bit_simps intro!: bit_word_eqI)

lemma le16_htons [simp]: "le16 (htons v) = be16 v"
  by (simp add: htons_def be16_def le16_def [of v] del: of_le16.simps)

lemma le32_htonl [simp]: "le32 (htonl v) = be32 v"
  by (simp add: htonl_def be32_def le32_def [of v] del: of_le32.simps)

lemma htons_htons [simp]: "htons (htons v) = v"
  by (simp add: htons_def [of "htons v"] be16_def le16_def [of v, symmetric] del: of_le16.simps)

lemma htonl_htonl [simp]: "htonl (htonl v) = v"
  by (simp add: htonl_def [of "htonl v"] be32_def le32_def [of v, symmetric] del: of_le32.simps)

lemma of_le16_be16 [simp]: "of_le16 (be16 v) = htons v"
  by (metis le16_htons of_le16_le16)

lemma of_le32_be32 [simp]: "of_le32 (be32 v) = htonl v"
  by (metis le32_htonl of_le32_le32)

section \<open>Reachable states and invariants\<close>

inductive reach :: "('s \<Rightarrow> bool) \<Rightarrow> ('s \<Rightarrow> 's \<Rightarrow> bool) \<Rightarrow> 's \<Rightarrow> bool"
  for init :: "'s \<Rightarrow> bool" and step :: "'s \<Rightarrow> 's \<Rightarrow> bool" where
  reach_init: "init s \<Longrightarrow> reach init step s"
| reach_step: "reach init step s \<Longrightarrow> step s t \<Longrightarrow> reach init step t"

text \<open>
  The contract of a component with state: an invariant that holds of every initial state and
  that every step keeps.  Its client is whoever relies on the invariant in a reachable state.
\<close>

locale invariant_system =
  fixes init :: "'s \<Rightarrow> bool"
    and step :: "'s \<Rightarrow> 's \<Rightarrow> bool"
    and inv :: "'s \<Rightarrow> bool"
  assumes inv_init: "init s \<Longrightarrow> inv s"
    and inv_step: "inv s \<Longrightarrow> step s t \<Longrightarrow> inv t"
begin

lemma reach_inv: "reach init step s \<Longrightarrow> inv s"
  by (induction rule: reach.induct) (auto intro: inv_init inv_step)

lemma steps_inv: "step\<^sup>*\<^sup>* s t \<Longrightarrow> inv s \<Longrightarrow> inv t"
  by (induction rule: rtranclp_induct) (auto intro: inv_step)

end

section \<open>List lemmas\<close>

lemma take_drop_append_drop: "i + n \<le> length xs \<Longrightarrow> take n (drop i xs) @ drop (i + n) xs = drop i xs"
  by (metis add.commute append_take_drop_id drop_drop)

text \<open>Overwriting part of a memory block, as \<^verbatim>\<open>memcpy\<close> and \<^verbatim>\<open>memset\<close> do.\<close>

definition poke :: "nat \<Rightarrow> 'a list \<Rightarrow> 'a list \<Rightarrow> 'a list" where
  "poke i ys xs = take i xs @ ys @ drop (i + length ys) xs"

lemma length_poke [simp]: "i + length ys \<le> length xs \<Longrightarrow> length (poke i ys xs) = length xs"
  by (simp add: poke_def)

lemma take_poke [simp]: "i \<le> length xs \<Longrightarrow> take i (poke i ys xs) = take i xs"
  by (simp add: poke_def)

lemma drop_poke [simp]:
  "i \<le> length xs \<Longrightarrow> drop (i + length ys) (poke i ys xs) = drop (i + length ys) xs"
  by (simp add: poke_def)

lemma take_poke_end [simp]:
  "i \<le> length xs \<Longrightarrow> take (i + length ys) (poke i ys xs) = take i xs @ ys"
  by (simp add: poke_def)

section \<open>Byte cursors\<close>

text \<open>
  \<^verbatim>\<open>err |= f(mb)\<close>: the next call runs whatever the earlier ones returned, and the error codes
  are or-ed.  \<open>or_put\<close> is a sequence of such writes.
\<close>

definition or_then :: "err \<times> 'm \<Rightarrow> ('m \<Rightarrow> err \<times> 'm) \<Rightarrow> err \<times> 'm" where
  "or_then r f = (let (e, m) = r; (e', m') = f m in (e OR e', m'))"

fun or_put :: "('m \<Rightarrow> 'b \<Rightarrow> err \<times> 'm) \<Rightarrow> 'm \<Rightarrow> 'b list \<Rightarrow> err \<times> 'm" where
  "or_put put m [] = (OK, m)"
| "or_put put m (c # cs) = (let (e, m) = put m c; (e', m') = or_put put m cs in (e OR e', m'))"

lemma or_then_pair [simp]: "or_then (e, m) f = (let (e', m') = f m in (e OR e', m'))"
  by (simp add: or_then_def)

lemma or_put_append:
  "or_put put m (cs @ ds) =
     (let (e, m) = or_put put m cs; (e', m') = or_put put m ds in (e OR e', m'))"
  by (induction cs arbitrary: m) (simp_all add: Let_def split_def or.assoc)

lemma fold_or_then:
  "fold (\<lambda>i r. or_then r (\<lambda>m. put m (f i))) is (e, m) =
     (let (e', m') = or_put put m (map f is) in (e OR e', m'))"
  by (induction "is" arbitrary: e m) (simp_all add: Let_def split_def or.assoc)

text \<open>
  The contract the codecs rely on: a cursor splits its bytes into those \<open>before\<close> and those \<open>after\<close>
  the position; writing puts bytes before it (over those that were after it), reading moves
  bytes from after to before, and a failing call changes nothing.
\<close>

locale byte_cursor =
  fixes cinv :: "'m \<Rightarrow> bool"
    and before :: "'m \<Rightarrow> byte list"
    and after :: "'m \<Rightarrow> byte list"
    and put :: "'m \<Rightarrow> byte list \<Rightarrow> err \<times> 'm"
    and get :: "'m \<Rightarrow> nat \<Rightarrow> err \<times> byte list \<times> 'm"
  assumes put_ok: "cinv m \<Longrightarrow> put m bs = (OK, m') \<Longrightarrow>
      cinv m' \<and> before m' = before m @ bs \<and> after m' = drop (length bs) (after m)"
    and put_fail: "cinv m \<Longrightarrow> put m bs = (e, m') \<Longrightarrow> e \<noteq> OK \<Longrightarrow> m' = m"
    and get_ok: "cinv m \<Longrightarrow> n \<le> length (after m) \<Longrightarrow>
      \<exists>m'. get m n = (OK, take n (after m), m') \<and> cinv m' \<and>
           before m' = before m @ take n (after m) \<and> after m' = drop n (after m)"
    and get_short: "cinv m \<Longrightarrow> length (after m) < n \<Longrightarrow> \<exists>e. e \<noteq> OK \<and> get m n = (e, [], m)"
begin

lemma put_inv: "cinv m \<Longrightarrow> put m bs = (e, m') \<Longrightarrow> cinv m'"
  by (cases "e = OK") (auto dest: put_ok put_fail)

lemma or_put_inv: "cinv m \<Longrightarrow> or_put put m cs = (e, m') \<Longrightarrow> cinv m'"
proof (induction cs arbitrary: m e)
  case (Cons c cs)
  then show ?case by (auto split: prod.splits dest: put_inv)
qed simp

lemma or_put_ok:
  "cinv m \<Longrightarrow> or_put put m cs = (OK, m') \<Longrightarrow>
     cinv m' \<and> before m' = before m @ concat cs \<and> after m' = drop (length (concat cs)) (after m)"
proof (induction cs arbitrary: m)
  case (Cons c cs)
  from Cons.prems(2) obtain m1 where
    1: "put m c = (OK, m1)" and 2: "or_put put m1 cs = (OK, m')"
    by (auto split: prod.splits simp: or_eq_0_iff)
  from put_ok [OF Cons.prems(1) 1] Cons.IH [OF _ 2] show ?case
    by (simp add: add.commute)
qed simp

lemma get_exact:
  "cinv m \<Longrightarrow> after m = bs @ r \<Longrightarrow> length bs = n \<Longrightarrow>
     \<exists>m'. get m n = (OK, bs, m') \<and> cinv m' \<and> before m' = before m @ bs \<and> after m' = r"
  using get_ok [of m n] by auto

end

end
