(* ===== verification/Mbuf.thy ===== *)
theory Mbuf
  imports Prelude
begin

text \<open>
  Memory buffers, \<^verbatim>\<open>re/src/mbuf/mbuf.c\<close> and the inline functions of \<^verbatim>\<open>re/include/re_mbuf.h\<close>:
  a resizable block of bytes with a position and an end, on which every packet of the stack is
  encoded and decoded.

  An \<open>mbuf\<close> value stands for a non-null \<^verbatim>\<open>struct mbuf *\<close> and the block it points to: the block
  is the list \<open>mb_buf\<close> (a null block is the empty list) and the fields keep the names of
  the C struct.  Sizes and positions are natural numbers: no object has \<open>2^64\<close> bytes.

  The C allocator is a parameter \<open>al\<close> of every operation that may grow the block: \<open>al n\<close> is
  \<open>None\<close> when \<^verbatim>\<open>malloc\<close>/\<^verbatim>\<open>realloc\<close> of \<open>n\<close> bytes fails, and otherwise gives the arbitrary
  contents of the fresh bytes.  One buffer only ever asks for growing sizes, so an answer
  that depends on the size only covers every sequence of successes and failures.
\<close>

section \<open>State and operations\<close>

type_synonym allocator = "nat \<Rightarrow> (nat \<Rightarrow> byte) option"

record mbuf =
  mb_buf :: "byte list"
  mb_size :: nat
  mb_pos :: nat
  mb_end :: nat

definition MBUF_DEFAULT_SIZE :: nat where "MBUF_DEFAULT_SIZE = 512"

definition mem_alloc :: "allocator \<Rightarrow> nat \<Rightarrow> byte list option" where
  "mem_alloc al n = map_option (\<lambda>junk. map junk [0..<n]) (al n)"

definition mem_realloc :: "allocator \<Rightarrow> byte list \<Rightarrow> nat \<Rightarrow> byte list option" where
  "mem_realloc al b n = map_option (\<lambda>junk. take n b @ map junk [length b..<n]) (al n)"

definition mbuf_buf :: "mbuf \<Rightarrow> byte list" where
  "mbuf_buf mb = drop (mb_pos mb) (mb_buf mb)"

definition mbuf_get_left :: "mbuf \<Rightarrow> nat" where
  "mbuf_get_left mb = (if mb_end mb > mb_pos mb then mb_end mb - mb_pos mb else 0)"

definition mbuf_get_space :: "mbuf \<Rightarrow> nat" where
  "mbuf_get_space mb = (if mb_size mb > mb_pos mb then mb_size mb - mb_pos mb else 0)"

definition mbuf_set_pos :: "mbuf \<Rightarrow> nat \<Rightarrow> mbuf" where
  "mbuf_set_pos mb p = mb\<lparr>mb_pos := p\<rparr>"

definition mbuf_set_end :: "mbuf \<Rightarrow> nat \<Rightarrow> mbuf" where
  "mbuf_set_end mb e = mb\<lparr>mb_end := e\<rparr>"

definition mbuf_advance :: "mbuf \<Rightarrow> int \<Rightarrow> mbuf" where
  "mbuf_advance mb n = mb\<lparr>mb_pos := nat ((int (mb_pos mb) + n) mod 2 ^ 64)\<rparr>"

definition mbuf_rewind :: "mbuf \<Rightarrow> mbuf" where
  "mbuf_rewind mb = mb\<lparr>mb_pos := 0, mb_end := 0\<rparr>"

definition mbuf_skip_to_end :: "mbuf \<Rightarrow> mbuf" where
  "mbuf_skip_to_end mb = mb\<lparr>mb_pos := mb_end mb\<rparr>"

definition mbuf_init :: mbuf where
  "mbuf_init = \<lparr>mb_buf = [], mb_size = 0, mb_pos = 0, mb_end = 0\<rparr>"

definition mbuf_resize :: "allocator \<Rightarrow> mbuf \<Rightarrow> nat \<Rightarrow> err \<times> mbuf" where
  "mbuf_resize al mb sz =
     (case (if mb_buf mb \<noteq> [] then mem_realloc al (mb_buf mb) sz else mem_alloc al sz) of
        None \<Rightarrow> (ENOMEM, mb)
      | Some b \<Rightarrow> (OK, mb\<lparr>mb_buf := b, mb_size := sz\<rparr>))"

definition mbuf_alloc :: "allocator \<Rightarrow> nat \<Rightarrow> mbuf option" where
  "mbuf_alloc al sz =
     (case mbuf_resize al mbuf_init (if sz \<noteq> 0 then sz else MBUF_DEFAULT_SIZE) of
        (e, mb) \<Rightarrow> if e \<noteq> OK then None else Some mb)"

definition mbuf_reset :: "mbuf \<Rightarrow> mbuf" where
  "mbuf_reset mb = mbuf_init"

definition mbuf_trim :: "allocator \<Rightarrow> mbuf \<Rightarrow> mbuf" where
  "mbuf_trim al mb =
     (if mb_end mb = 0 \<or> mb_end mb = mb_size mb then mb
      else snd (mbuf_resize al mb (mb_end mb)))"

text \<open>
  The position and the end are converted to \<^verbatim>\<open>ssize_t\<close> and added to the offset there. A value
  that does not fit and a sum that overflows have no defined result: \<open>None\<close>.
\<close>

definition mbuf_shift :: "allocator \<Rightarrow> mbuf \<Rightarrow> int \<Rightarrow> (err \<times> mbuf) option" where
  "mbuf_shift al mb shift =
     (let p = int (mb_pos mb) + shift; q = int (mb_end mb) + shift
      in if 2 ^ 63 \<le> mb_pos mb \<or> 2 ^ 63 \<le> p then None
         else if p < 0 then Some (ERANGE, mb)
         else if 2 ^ 63 \<le> mb_end mb \<or> 2 ^ 63 \<le> q then None
         else if q < 0 then Some (ERANGE, mb)
         else
           let rsize = nat q;
               (e, mb) = (if rsize > mb_size mb then mbuf_resize al mb rsize else (OK, mb))
           in if e \<noteq> OK then Some (e, mb)
              else Some (OK, mb\<lparr>mb_buf := poke (nat p) (take (mbuf_get_left mb) (mbuf_buf mb)) (mb_buf mb),
                               mb_pos := nat p, mb_end := nat q\<rparr>))"

text \<open>
  The growth step of \<^verbatim>\<open>mbuf_write_mem\<close>. Its sums are those of the code as long as they stay below
  \<open>2 ^ 64\<close>: the position lies in one object and the bytes to write in another.
\<close>

definition mbuf_grow :: "allocator \<Rightarrow> mbuf \<Rightarrow> nat \<Rightarrow> err \<times> mbuf" where
  "mbuf_grow al mb n =
     (let rsize = mb_pos mb + n in
      if rsize > mb_size mb then
        let dsize = (if mb_size mb \<noteq> 0 then mb_size mb * 2 else MBUF_DEFAULT_SIZE)
        in mbuf_resize al mb (max rsize dsize)
      else (OK, mb))"

definition mbuf_write_mem :: "allocator \<Rightarrow> mbuf \<Rightarrow> byte list \<Rightarrow> err \<times> mbuf" where
  "mbuf_write_mem al mb bs =
     (let (e, mb) = mbuf_grow al mb (length bs) in
      if e \<noteq> OK then (e, mb)
      else (OK, mb\<lparr>mb_buf := poke (mb_pos mb) bs (mb_buf mb),
                   mb_pos := mb_pos mb + length bs,
                   mb_end := max (mb_end mb) (mb_pos mb + length bs)\<rparr>))"

definition mbuf_write_u8 :: "allocator \<Rightarrow> mbuf \<Rightarrow> byte \<Rightarrow> err \<times> mbuf" where
  "mbuf_write_u8 al mb v = mbuf_write_mem al mb [v]"

definition mbuf_write_u16 :: "allocator \<Rightarrow> mbuf \<Rightarrow> u16 \<Rightarrow> err \<times> mbuf" where
  "mbuf_write_u16 al mb v = mbuf_write_mem al mb (le16 v)"

definition mbuf_write_u32 :: "allocator \<Rightarrow> mbuf \<Rightarrow> u32 \<Rightarrow> err \<times> mbuf" where
  "mbuf_write_u32 al mb v = mbuf_write_mem al mb (le32 v)"

definition mbuf_write_u64 :: "allocator \<Rightarrow> mbuf \<Rightarrow> u64 \<Rightarrow> err \<times> mbuf" where
  "mbuf_write_u64 al mb v = mbuf_write_mem al mb (le64 v)"

text \<open>
  \<^verbatim>\<open>mbuf_fill\<close> takes a number of bytes instead of an object, so its sums are written out as those of
  \<^verbatim>\<open>size_t\<close>. Setting bytes outside the block is undefined: \<open>None\<close>.
\<close>

definition mbuf_fill :: "allocator \<Rightarrow> mbuf \<Rightarrow> byte \<Rightarrow> nat \<Rightarrow> (err \<times> mbuf) option" where
  "mbuf_fill al mb c n =
     (if n = 0 then Some (EINVAL, mb)
      else
        let rsize = (mb_pos mb + n) mod 2 ^ 64;
            dsize = (if mb_size mb \<noteq> 0 then (mb_size mb * 2) mod 2 ^ 64 else MBUF_DEFAULT_SIZE);
            (e, mb) = (if rsize > mb_size mb then mbuf_resize al mb (max rsize dsize) else (OK, mb))
        in if e \<noteq> OK then Some (e, mb)
           else if length (mb_buf mb) < mb_pos mb + n then None
           else Some (OK, mb\<lparr>mb_buf := poke (mb_pos mb) (replicate n c) (mb_buf mb),
                            mb_pos := mb_pos mb + n,
                            mb_end := max (mb_end mb) (mb_pos mb + n)\<rparr>))"

definition mbuf_read_mem :: "mbuf \<Rightarrow> nat \<Rightarrow> err \<times> byte list \<times> mbuf" where
  "mbuf_read_mem mb n =
     (if n > mbuf_get_left mb then (EOVERFLOW, [], mb)
      else (OK, take n (mbuf_buf mb), mb\<lparr>mb_pos := mb_pos mb + n\<rparr>))"

definition mbuf_read_u8 :: "mbuf \<Rightarrow> byte \<times> mbuf" where
  "mbuf_read_u8 mb =
     (let (e, bs, mb) = mbuf_read_mem mb 1 in (if e = OK then hd bs else 0, mb))"

definition mbuf_read_u16 :: "mbuf \<Rightarrow> u16 \<times> mbuf" where
  "mbuf_read_u16 mb =
     (let (e, bs, mb) = mbuf_read_mem mb 2 in (if e = OK then of_le16 bs else 0, mb))"

definition mbuf_read_u32 :: "mbuf \<Rightarrow> u32 \<times> mbuf" where
  "mbuf_read_u32 mb =
     (let (e, bs, mb) = mbuf_read_mem mb 4 in (if e = OK then of_le32 bs else 0, mb))"

definition mbuf_read_u64 :: "mbuf \<Rightarrow> u64 \<times> mbuf" where
  "mbuf_read_u64 mb =
     (let (e, bs, mb) = mbuf_read_mem mb 8 in (if e = OK then of_le64 bs else 0, mb))"

text \<open>\<^verbatim>\<open>mbuf_read_str\<close>: the bytes stored at \<^verbatim>\<open>str\<close>, at most \<open>n\<close>, up to and with a zero byte.\<close>

fun mbuf_read_str :: "mbuf \<Rightarrow> nat \<Rightarrow> byte list \<times> mbuf" where
  "mbuf_read_str mb 0 = ([], mb)"
| "mbuf_read_str mb (Suc n) =
     (let (c, mb) = mbuf_read_u8 mb in
      if c = 0 then ([c], mb)
      else let (s, mb) = mbuf_read_str mb n in (c # s, mb))"

definition mbuf_strdup :: "allocator \<Rightarrow> mbuf \<Rightarrow> nat \<Rightarrow> err \<times> byte list \<times> mbuf" where
  "mbuf_strdup al mb len =
     (case mem_alloc al (len + 1) of
        None \<Rightarrow> (ENOMEM, [], mb)
      | Some _ \<Rightarrow>
          let (e, bs, mb) = mbuf_read_mem mb len
          in if e \<noteq> OK then (e, [], mb) else (OK, bs @ [0], mb))"

section \<open>Well-formedness and the cursor view\<close>

definition mbuf_ok :: "mbuf \<Rightarrow> bool" where
  "mbuf_ok mb \<longleftrightarrow> length (mb_buf mb) = mb_size mb \<and> mb_pos mb \<le> mb_end mb \<and> mb_end mb \<le> mb_size mb"

definition mb_before :: "mbuf \<Rightarrow> byte list" where
  "mb_before mb = take (mb_pos mb) (mb_buf mb)"

definition mb_after :: "mbuf \<Rightarrow> byte list" where
  "mb_after mb = take (mbuf_get_left mb) (mbuf_buf mb)"

lemmas mbuf_views = mb_before_def mb_after_def mbuf_get_left_def mbuf_buf_def

lemma mbuf_okD:
  "mbuf_ok mb \<Longrightarrow> length (mb_buf mb) = mb_size mb"
  "mbuf_ok mb \<Longrightarrow> mb_pos mb \<le> mb_end mb"
  "mbuf_ok mb \<Longrightarrow> mb_end mb \<le> mb_size mb"
  by (simp_all add: mbuf_ok_def)

lemma mbuf_get_left_diff: "mbuf_get_left mb = mb_end mb - mb_pos mb"
  by (simp add: mbuf_get_left_def)

lemma length_mb_after [simp]: "mbuf_ok mb \<Longrightarrow> length (mb_after mb) = mbuf_get_left mb"
  by (auto simp: mbuf_views mbuf_ok_def)

lemma mem_alloc_length: "mem_alloc al n = Some b \<Longrightarrow> length b = n"
  by (auto simp: mem_alloc_def)

lemma mem_realloc_length: "mem_realloc al b n = Some b' \<Longrightarrow> length b' = n"
  by (auto simp: mem_realloc_def)

lemma mem_realloc_keeps: "mem_realloc al b n = Some b' \<Longrightarrow> length b \<le> n \<Longrightarrow> take (length b) b' = b"
  by (auto simp: mem_realloc_def)

lemma mbuf_resize_ok:
  assumes "mbuf_resize al mb n = (OK, mb')"
  shows "length (mb_buf mb') = n" "mb_size mb' = n" "mb_pos mb' = mb_pos mb" "mb_end mb' = mb_end mb"
    and "length (mb_buf mb) \<le> n \<Longrightarrow> take (length (mb_buf mb)) (mb_buf mb') = mb_buf mb"
  using assms
  by (auto simp: mbuf_resize_def ENOMEM_def split: option.splits if_splits
           dest: mem_alloc_length mem_realloc_length mem_realloc_keeps)

lemma mbuf_resize_fail: "mbuf_resize al mb n = (e, mb') \<Longrightarrow> e \<noteq> OK \<Longrightarrow> mb' = mb \<and> e = ENOMEM"
  by (auto simp: mbuf_resize_def split: option.splits)

lemma mbuf_grow_cases:
  assumes "mbuf_grow al mb n = (OK, mb')"
  obtains "mb_pos mb + n \<le> mb_size mb" "mb' = mb"
  | sz where "mb_size mb \<le> sz" "mb_pos mb + n \<le> sz" "mbuf_resize al mb sz = (OK, mb')"
proof (cases "mb_pos mb + n > mb_size mb")
  case True
  let ?sz = "max (mb_pos mb + n) (if mb_size mb \<noteq> 0 then mb_size mb * 2 else MBUF_DEFAULT_SIZE)"
  from True assms have "mbuf_resize al mb ?sz = (OK, mb')"
    by (simp add: mbuf_grow_def Let_def)
  with True show ?thesis by (intro that(2) [of ?sz]) auto
next
  case False
  with assms show ?thesis by (intro that(1)) (auto simp: mbuf_grow_def Let_def)
qed

lemma mbuf_grow_ok:
  assumes "mbuf_grow al mb n = (OK, mb')" "mbuf_ok mb"
  shows "length (mb_buf mb') = mb_size mb' \<and> mb_pos mb' = mb_pos mb \<and> mb_end mb' = mb_end mb \<and>
    mb_pos mb + n \<le> mb_size mb' \<and> mb_size mb \<le> mb_size mb' \<and>
    take (mb_size mb) (mb_buf mb') = mb_buf mb"
  using assms(1)
proof (cases rule: mbuf_grow_cases)
  case 1
  with assms(2) show ?thesis by (simp add: mbuf_ok_def)
next
  case (2 sz)
  with mbuf_resize_ok [OF 2(3)] assms(2) show ?thesis by (simp add: mbuf_ok_def)
qed

lemma mbuf_grow_fail: "mbuf_grow al mb n = (e, mb') \<Longrightarrow> e \<noteq> OK \<Longrightarrow> mb' = mb \<and> e = ENOMEM"
  by (auto simp: mbuf_grow_def Let_def dest: mbuf_resize_fail split: if_splits)


lemma mbuf_write_mem_ok:
  assumes "mbuf_write_mem al mb bs = (OK, mb')" "mbuf_ok mb"
  shows "mbuf_ok mb' \<and> mb_before mb' = mb_before mb @ bs \<and>
    mb_after mb' = drop (length bs) (mb_after mb)"
proof -
  from assms(1) obtain mb1 where
    g: "mbuf_grow al mb (length bs) = (OK, mb1)" and
    mb': "mb' = mb1\<lparr>mb_buf := poke (mb_pos mb1) bs (mb_buf mb1),
      mb_pos := mb_pos mb1 + length bs, mb_end := max (mb_end mb1) (mb_pos mb1 + length bs)\<rparr>"
    by (auto simp: mbuf_write_mem_def Let_def split: prod.splits if_splits)
  note g1 = mbuf_grow_ok [OF g assms(2)]
  have keep: "take k (mb_buf mb1) = take k (mb_buf mb)" if "k \<le> mb_size mb" for k
    using g1 that by (metis min.absorb1 take_take)
  have after: "take (mb_end mb - k) (drop k (mb_buf mb1)) = take (mb_end mb - k) (drop k (mb_buf mb))" for k
  proof -
    have "take (mb_end mb) (mb_buf mb1) = take (mb_end mb) (mb_buf mb)"
      using keep assms(2) by (simp add: mbuf_ok_def)
    then show ?thesis by (metis drop_take)
  qed
  have ok: "mbuf_ok mb'"
    using g1 assms(2) by (auto simp: mb' mbuf_ok_def)
  have "mb_before mb' = mb_before mb @ bs"
    using g1 assms(2) keep by (simp add: mb' mb_before_def mbuf_ok_def)
  moreover have "mb_after mb' = drop (length bs) (mb_after mb)"
    using g1 assms(2) after [of "mb_pos mb + length bs"]
    by (auto simp: mb' mbuf_views mbuf_ok_def drop_take max_def add.commute)
  ultimately show ?thesis using ok by simp
qed

lemma mbuf_write_mem_fail:
  "mbuf_write_mem al mb bs = (e, mb') \<Longrightarrow> e \<noteq> OK \<Longrightarrow> mb' = mb \<and> e = ENOMEM"
  by (auto simp: mbuf_write_mem_def Let_def dest: mbuf_grow_fail split: prod.splits if_splits)

definition mb_adv :: "mbuf \<Rightarrow> nat \<Rightarrow> mbuf" where
  "mb_adv mb n = mb\<lparr>mb_pos := mb_pos mb + n\<rparr>"

lemma mb_adv:
  assumes "mbuf_ok mb" "n \<le> mbuf_get_left mb"
  shows "mbuf_ok (mb_adv mb n)" "mb_before (mb_adv mb n) = mb_before mb @ take n (mb_after mb)"
    and "mb_after (mb_adv mb n) = drop n (mb_after mb)"
    and "mbuf_get_left (mb_adv mb n) = mbuf_get_left mb - n"
proof -
  have le: "mb_pos mb + n \<le> mb_end mb" using assms
    by (auto simp: mbuf_get_left_def mbuf_ok_def split: if_splits)
  then show "mbuf_ok (mb_adv mb n)"
    using assms(1) by (simp add: mb_adv_def mbuf_ok_def)
  show "mb_before (mb_adv mb n) = mb_before mb @ take n (mb_after mb)"
    using assms by (simp add: mb_adv_def mb_before_def mb_after_def mbuf_buf_def take_add min_def)
  show "mb_after (mb_adv mb n) = drop n (mb_after mb)"
    using le by (auto simp: mb_adv_def mbuf_views drop_take add.commute)
  show "mbuf_get_left (mb_adv mb n) = mbuf_get_left mb - n"
    using le by (auto simp: mb_adv_def mbuf_get_left_def)
qed

lemma mbuf_read_mem_adv:
  "mbuf_ok mb \<Longrightarrow> n \<le> mbuf_get_left mb \<Longrightarrow> mbuf_read_mem mb n = (OK, take n (mb_after mb), mb_adv mb n)"
  by (simp add: mbuf_read_mem_def mb_adv_def mb_after_def min_def)

lemma mbuf_read_mem_ok:
  assumes "mbuf_ok mb" "n \<le> length (mb_after mb)"
  shows "\<exists>mb'. mbuf_read_mem mb n = (OK, take n (mb_after mb), mb') \<and> mbuf_ok mb' \<and>
    mb_before mb' = mb_before mb @ take n (mb_after mb) \<and> mb_after mb' = drop n (mb_after mb)"
  using assms mbuf_read_mem_adv [of mb n] mb_adv [of mb n] by simp

lemma mbuf_read_mem_short:
  "mbuf_ok mb \<Longrightarrow> length (mb_after mb) < n \<Longrightarrow> \<exists>e. e \<noteq> OK \<and> mbuf_read_mem mb n = (e, [], mb)"
  by (simp add: mbuf_read_mem_def EOVERFLOW_def)

text \<open>The buffer implements the cursor contract, whatever the allocator answers.\<close>

interpretation mb: byte_cursor mbuf_ok mb_before mb_after "mbuf_write_mem al" mbuf_read_mem
  for al
proof unfold_locales
  show "\<exists>e. e \<noteq> OK \<and> mbuf_read_mem m n = (e, [], m)"
    if "mbuf_ok m" "length (mb_after m) < n" for m n
    using that by (rule mbuf_read_mem_short)
qed (auto dest: mbuf_write_mem_ok mbuf_write_mem_fail intro!: mbuf_read_mem_ok)

section \<open>Typed reads and writes\<close>

lemma mbuf_read_u8_after:
  assumes "mbuf_ok mb" "mb_after mb = b # r"
  shows "mbuf_read_u8 mb = (b, mb_adv mb 1)" "mbuf_ok (mb_adv mb 1)" "mb_after (mb_adv mb 1) = r"
proof -
  have "1 \<le> mbuf_get_left mb" using assms length_mb_after [of mb] by simp
  then show "mbuf_read_u8 mb = (b, mb_adv mb 1)" "mbuf_ok (mb_adv mb 1)" "mb_after (mb_adv mb 1) = r"
    using assms mb_adv [of mb 1] by (simp_all add: mbuf_read_u8_def mbuf_read_mem_adv)
qed

lemma mbuf_read_u16_after:
  assumes "mbuf_ok mb" "mb_after mb = be16 v @ r"
  shows "mbuf_read_u16 mb = (htons v, mb_adv mb 2)" "mbuf_ok (mb_adv mb 2)"
    "mb_after (mb_adv mb 2) = r"
proof -
  have "2 \<le> mbuf_get_left mb" using assms length_mb_after [of mb] by simp
  then show "mbuf_read_u16 mb = (htons v, mb_adv mb 2)" "mbuf_ok (mb_adv mb 2)"
    "mb_after (mb_adv mb 2) = r"
    using assms mb_adv [of mb 2] by (simp_all add: mbuf_read_u16_def mbuf_read_mem_adv)
qed

lemma mbuf_read_u32_after:
  assumes "mbuf_ok mb" "mb_after mb = be32 v @ r"
  shows "mbuf_read_u32 mb = (htonl v, mb_adv mb 4)" "mbuf_ok (mb_adv mb 4)"
    "mb_after (mb_adv mb 4) = r"
proof -
  have "4 \<le> mbuf_get_left mb" using assms length_mb_after [of mb] by simp
  then show "mbuf_read_u32 mb = (htonl v, mb_adv mb 4)" "mbuf_ok (mb_adv mb 4)"
    "mb_after (mb_adv mb 4) = r"
    using assms mb_adv [of mb 4] by (simp_all add: mbuf_read_u32_def mbuf_read_mem_adv)
qed

lemma mbuf_read_ok [simp]:
  assumes "mbuf_ok mb"
  shows "mbuf_ok (snd (mbuf_read_u8 mb))" "mbuf_ok (snd (mbuf_read_u16 mb))"
    "mbuf_ok (snd (mbuf_read_u32 mb))" "mbuf_ok (snd (mbuf_read_u64 mb))"
  using assms
  by (auto simp: mbuf_read_u8_def mbuf_read_u16_def mbuf_read_u32_def mbuf_read_u64_def
        mbuf_read_mem_def mbuf_ok_def mbuf_get_left_def split: if_splits)

text \<open>Going back over what was just written gives it back as the unread bytes.\<close>

lemma mb_back:
  assumes "mbuf_ok mb" "mbuf_ok mb'" "mb_before mb' = mb_before mb @ bs"
  shows "mbuf_ok (mb'\<lparr>mb_pos := mb_pos mb\<rparr>)"
    and "mb_after (mb'\<lparr>mb_pos := mb_pos mb\<rparr>) = bs @ mb_after mb'"
    and "mb_adv (mb'\<lparr>mb_pos := mb_pos mb\<rparr>) (length bs) = mb'"
    and "mb_pos mb' = mb_pos mb + length bs"
proof -
  show p: "mb_pos mb' = mb_pos mb + length bs"
    using arg_cong [OF assms(3), of length] mbuf_okD [OF assms(1)] mbuf_okD [OF assms(2)]
    by (simp add: mb_before_def)
  then show "mbuf_ok (mb'\<lparr>mb_pos := mb_pos mb\<rparr>)" using assms(2) by (simp add: mbuf_ok_def)
  have "drop (mb_pos mb) (mb_before mb') = bs"
    using assms(3) mbuf_okD [OF assms(1)] by (simp add: mb_before_def)
  then have "take (length bs) (drop (mb_pos mb) (mb_buf mb')) = bs"
    using p by (simp add: mb_before_def drop_take)
  then have "take (length bs + (mb_end mb' - mb_pos mb')) (drop (mb_pos mb) (mb_buf mb')) =
      bs @ take (mb_end mb' - mb_pos mb') (drop (mb_pos mb') (mb_buf mb'))"
    using p by (simp add: take_add add.commute)
  moreover have "length bs + (mb_end mb' - mb_pos mb') = mb_end mb' - mb_pos mb"
    using p mbuf_okD(2) [OF assms(2)] by simp
  ultimately show "mb_after (mb'\<lparr>mb_pos := mb_pos mb\<rparr>) = bs @ mb_after mb'"
    by (simp add: mb_after_def mbuf_get_left_diff mbuf_buf_def)
  show "mb_adv (mb'\<lparr>mb_pos := mb_pos mb\<rparr>) (length bs) = mb'"
    using p by (simp add: mb_adv_def)
qed

text \<open>Writing inside the block needs no memory and cannot fail.\<close>

lemma mbuf_write_room:
  assumes "mb_pos mb + length bs \<le> mb_size mb"
  shows "\<exists>mb'. mbuf_write_mem al mb bs = (OK, mb') \<and> mb_size mb' = mb_size mb \<and>
    mb_pos mb' = mb_pos mb + length bs"
  using assms by (simp add: mbuf_write_mem_def mbuf_grow_def)

lemma or_put_room:
  "mb_pos mb + length (concat cs) \<le> mb_size mb \<Longrightarrow>
     \<exists>mb'. or_put (mbuf_write_mem al) mb cs = (OK, mb')"
proof (induction cs arbitrary: mb)
  case (Cons c cs)
  then obtain mb1 where w: "mbuf_write_mem al mb c = (OK, mb1)" "mb_size mb1 = mb_size mb"
    "mb_pos mb1 = mb_pos mb + length c"
    using mbuf_write_room [of mb c al] by auto
  with Cons.prems Cons.IH [of mb1] show ?case by auto
qed simp

section \<open>Properties of the buffer\<close>

text \<open>
  A block of the recorded size with the end inside: what is needed for reading and writing. The
  position may be anywhere.
\<close>

definition mbuf_wf :: "mbuf \<Rightarrow> bool" where
  "mbuf_wf mb \<longleftrightarrow> length (mb_buf mb) = mb_size mb \<and> mb_end mb \<le> mb_size mb"

lemma mbuf_wf_pos [simp]: "mbuf_wf (mb\<lparr>mb_pos := p\<rparr>) = mbuf_wf mb"
  by (simp add: mbuf_wf_def)

lemma mbuf_ok_wf: "mbuf_ok mb \<Longrightarrow> mbuf_wf mb"
  by (simp add: mbuf_ok_def mbuf_wf_def)

lemma mbuf_resize_wf:
  assumes "mbuf_wf mb" "mbuf_resize al mb n = (e, mb')" "mb_end mb \<le> n"
  shows "mbuf_wf mb'"
proof (cases "e = OK")
  case True
  with assms(2) have "mbuf_resize al mb n = (OK, mb')" by simp
  from mbuf_resize_ok(1-4) [OF this] assms(3) show ?thesis by (simp add: mbuf_wf_def)
next
  case False
  with assms(1) mbuf_resize_fail [OF assms(2)] show ?thesis by simp
qed

text \<open>Room for \<open>n\<close> bytes at the front of the block, made or there already.\<close>

lemma mbuf_room:
  assumes "mbuf_wf mb" "(if n > mb_size mb then mbuf_resize al mb m else (OK, mb)) = (OK, mb1)" "n \<le> m"
  shows "mbuf_wf mb1 \<and> n \<le> mb_size mb1 \<and> mb_size mb \<le> mb_size mb1 \<and> mb_pos mb1 = mb_pos mb \<and> mb_end mb1 = mb_end mb
    \<and> take (mb_size mb) (mb_buf mb1) = mb_buf mb"
proof (cases "n > mb_size mb")
  case True
  with assms have "mbuf_resize al mb m = (OK, mb1)" "mb_size mb \<le> m" by simp_all
  with mbuf_resize_ok [OF this(1)] assms(1,3) show ?thesis by (simp add: mbuf_wf_def)
qed (use assms in \<open>auto simp: mbuf_wf_def\<close>)

lemma mbuf_write_wf:
  assumes "mbuf_wf mb" "mbuf_write_mem al mb bs = (e, mb')"
  shows "mbuf_wf mb' \<and> (e = OK \<longrightarrow> mb_pos mb + length bs \<le> mb_size mb')"
proof (cases "e = OK")
  case True
  then obtain mb1 where g: "mbuf_grow al mb (length bs) = (OK, mb1)"
    "mb' = mb1\<lparr>mb_buf := poke (mb_pos mb1) bs (mb_buf mb1), mb_pos := mb_pos mb1 + length bs, mb_end := max (mb_end mb1) (mb_pos mb1 + length bs)\<rparr>"
    using assms(2) by (auto simp: mbuf_write_mem_def Let_def split: prod.splits if_splits)
  have "mbuf_wf mb1 \<and> mb_pos mb1 + length bs \<le> mb_size mb1 \<and> mb_pos mb1 = mb_pos mb"
    using g(1)
  proof (cases rule: mbuf_grow_cases)
    case (2 sz)
    with mbuf_resize_ok(1-4) [OF 2(3)] assms(1) show ?thesis by (simp add: mbuf_wf_def)
  qed (use assms(1) in simp)
  then show ?thesis using g(2) by (auto simp: mbuf_wf_def)
next
  case False
  with assms mbuf_write_mem_fail [OF assms(2)] show ?thesis by simp
qed

lemma mbuf_fill_wf:
  assumes "mbuf_wf mb" "mbuf_fill al mb c n = Some (e, mb')"
  shows "mbuf_wf mb'"
proof (cases "n = 0")
  case False
  define sz where "sz = max ((mb_pos mb + n) mod 2 ^ 64) (if mb_size mb \<noteq> 0 then (mb_size mb * 2) mod 2 ^ 64 else MBUF_DEFAULT_SIZE)"
  obtain e1 mb1 where r: "(if (mb_pos mb + n) mod 2 ^ 64 > mb_size mb then mbuf_resize al mb sz else (OK, mb)) = (e1, mb1)" by (metis surj_pair)
  have "mb_end mb \<le> sz" if "(mb_pos mb + n) mod 2 ^ 64 > mb_size mb" using that assms(1) by (simp add: mbuf_wf_def sz_def le_max_iff_disj)
  then have w: "mbuf_wf mb1" using r assms(1) mbuf_resize_wf [OF assms(1)] by (simp split: if_splits)
  have "(if e1 \<noteq> OK then Some (e1, mb1) else if length (mb_buf mb1) < mb_pos mb1 + n then None
      else Some (OK, mb1\<lparr>mb_buf := poke (mb_pos mb1) (replicate n c) (mb_buf mb1), mb_pos := mb_pos mb1 + n,
        mb_end := max (mb_end mb1) (mb_pos mb1 + n)\<rparr>)) = Some (e, mb')"
    using assms(2) unfolding mbuf_fill_def Let_def sz_def [symmetric] r if_not_P [OF False] by simp
  then show ?thesis using w by (auto simp: mbuf_wf_def split: if_splits)
qed (use assms in \<open>simp add: mbuf_fill_def\<close>)

text \<open>Filling is writing when the number of bytes does not wrap around.\<close>

lemma mbuf_fill_write:
  assumes "mbuf_wf mb" "n \<noteq> 0" "mb_pos mb + n < 2 ^ 64" "mb_size mb < 2 ^ 63"
  shows "mbuf_fill al mb c n = Some (mbuf_write_mem al mb (replicate n c))"
proof -
  obtain e mb1 where g: "mbuf_grow al mb n = (e, mb1)" by (metis surj_pair)
  have "mb_pos mb1 + n \<le> length (mb_buf mb1)" if "e = OK"
    using g [unfolded that]
  proof (cases rule: mbuf_grow_cases)
    case (2 sz)
    with mbuf_resize_ok(1-4) [OF 2(3)] show ?thesis by simp
  qed (use assms(1) in \<open>simp add: mbuf_wf_def\<close>)
  then show ?thesis
    using assms(2-4) g by (auto simp: mbuf_fill_def mbuf_write_mem_def mbuf_grow_def Let_def)
qed

lemma mbuf_shift_cases:
  assumes "mbuf_wf mb" "mbuf_shift al mb k = Some (e, mb')"
  obtains (fail) "e \<noteq> OK" "mb' = mb"
  | (moved) mb1 where "e = OK" "0 \<le> int (mb_pos mb) + k" "0 \<le> int (mb_end mb) + k"
      "mbuf_wf mb1" "mb_pos mb1 = mb_pos mb" "mb_end mb1 = mb_end mb"
      "nat (int (mb_end mb) + k) \<le> mb_size mb1" "mb_size mb \<le> mb_size mb1"
      "take (mb_size mb) (mb_buf mb1) = mb_buf mb"
      "mb' = mb1\<lparr>mb_buf := poke (nat (int (mb_pos mb) + k)) (mb_after mb1) (mb_buf mb1),
          mb_pos := nat (int (mb_pos mb) + k), mb_end := nat (int (mb_end mb) + k)\<rparr>"
proof (cases "int (mb_pos mb) + k < 0 \<or> int (mb_end mb) + k < 0")
  case True
  with assms show ?thesis by (intro fail) (auto simp: mbuf_shift_def ERANGE_def Let_def split: if_splits)
next
  case nonneg: False
  let ?n = "nat (int (mb_end mb) + k)"
  obtain e1 mb1 where r: "(if ?n > mb_size mb then mbuf_resize al mb ?n else (OK, mb)) = (e1, mb1)"
    by (metis surj_pair)
  have d: "(if e1 \<noteq> OK then (e1, mb1) else (OK, mb1\<lparr>mb_buf := poke (nat (int (mb_pos mb) + k)) (mb_after mb1) (mb_buf mb1),
      mb_pos := nat (int (mb_pos mb) + k), mb_end := ?n\<rparr>)) = (e, mb')"
    using assms(2) nonneg r by (auto simp: mbuf_shift_def Let_def mb_after_def split: if_splits)
  show ?thesis
  proof (cases "e1 = OK")
    case True
    with r mbuf_room [OF assms(1), of ?n al ?n mb1] nonneg d show ?thesis by (intro moved [of mb1]) auto
  next
    case False
    then have "mb1 = mb" using r mbuf_resize_fail [of al mb ?n e1 mb1] by (simp split: if_splits)
    with False d show ?thesis by (intro fail) auto
  qed
qed

lemma mbuf_shift_wf:
  assumes "mbuf_wf mb" "mbuf_shift al mb k = Some (e, mb')"
  shows "mbuf_wf mb'"
  using assms
proof (cases rule: mbuf_shift_cases)
  case fail
  with assms(1) show ?thesis by simp
next
  case (moved mb1)
  have "nat (int (mb_pos mb) + k) + length (mb_after mb1) \<le> length (mb_buf mb1) \<or> mb_after mb1 = []"
    using moved(2-7) by (auto simp: mb_after_def mbuf_get_left_def mbuf_wf_def)
  then have "length (mb_buf mb') = length (mb_buf mb1)" using moved(10) by (auto simp: poke_def)
  then show ?thesis using moved by (simp add: mbuf_wf_def)
qed

lemma mbuf_trim_wf: "mbuf_wf mb \<Longrightarrow> mbuf_wf (mbuf_trim al mb)"
  by (cases "mbuf_resize al mb (mb_end mb)") (auto simp: mbuf_trim_def intro: mbuf_resize_wf)

lemma mbuf_read_wf [simp]:
  "mbuf_wf mb \<Longrightarrow> mbuf_read_mem mb n = (e, bs, mb') \<Longrightarrow> mbuf_wf mb'"
  "mbuf_wf mb \<Longrightarrow> mbuf_wf (snd (mbuf_read_u8 mb))"
  by (auto simp: mbuf_read_u8_def mbuf_read_mem_def split: if_splits)

lemma mbuf_read_str_wf: "mbuf_wf mb \<Longrightarrow> mbuf_read_str mb n = (s, mb') \<Longrightarrow> mbuf_wf mb'"
proof (induction mb n arbitrary: s rule: mbuf_read_str.induct)
  case (2 mb n)
  obtain c mb1 where r: "mbuf_read_u8 mb = (c, mb1)" by (cases "mbuf_read_u8 mb")
  with mbuf_read_wf(2) [OF "2.prems"(1)] have "mbuf_wf mb1" by simp
  with "2.prems"(2) "2.IH" [OF r [symmetric] refl] show ?case
    by (auto simp: r split: if_splits prod.splits)
qed simp

text \<open>
  The operations of the interface as one step relation, with any arguments. The exceptions are
  operations that take a number for granted: a new end lies in the block, as the assertion
  \<^verbatim>\<open>MBUF_CHECK_END\<close> of \<^verbatim>\<open>re_mbuf.h\<close> demands, and a block is not made smaller than its contents. A
  position may be set or moved to any place; only a write there must end below \<open>2 ^ 64\<close>.
\<close>

inductive mbuf_step :: "allocator \<Rightarrow> mbuf \<Rightarrow> mbuf \<Rightarrow> bool" for al where
  st_write: "mb_pos mb + length bs < 2 ^ 64 \<Longrightarrow> mbuf_write_mem al mb bs = (e, mb') \<Longrightarrow> mbuf_step al mb mb'"
| st_fill: "mbuf_fill al mb c n = Some (e, mb') \<Longrightarrow> mbuf_step al mb mb'"
| st_read: "mbuf_read_mem mb n = (e, bs, mb') \<Longrightarrow> mbuf_step al mb mb'"
| st_read_str: "mbuf_read_str mb n = (s, mb') \<Longrightarrow> mbuf_step al mb mb'"
| st_strdup: "mbuf_strdup al mb n = (e, s, mb') \<Longrightarrow> mbuf_step al mb mb'"
| st_shift: "mbuf_shift al mb k = Some (e, mb') \<Longrightarrow> mbuf_step al mb mb'"
| st_trim: "mbuf_step al mb (mbuf_trim al mb)"
| st_rewind: "mbuf_step al mb (mbuf_rewind mb)"
| st_skip: "mbuf_step al mb (mbuf_skip_to_end mb)"
| st_reset: "mbuf_step al mb (mbuf_reset mb)"
| st_set_pos: "mbuf_step al mb (mbuf_set_pos mb p)"
| st_advance: "mbuf_step al mb (mbuf_advance mb k)"
| st_set_end: "p \<le> mb_size mb \<Longrightarrow> mbuf_step al mb (mbuf_set_end mb p)"
| st_resize: "mb_end mb \<le> n \<Longrightarrow> mbuf_resize al mb n = (e, mb') \<Longrightarrow> mbuf_step al mb mb'"

lemma mbuf_moves_wf:
  "mbuf_wf mb \<Longrightarrow> mbuf_wf (mbuf_rewind mb)" "mbuf_wf mb \<Longrightarrow> mbuf_wf (mbuf_skip_to_end mb)"
  "mbuf_wf mbuf_init" "mbuf_wf (mbuf_reset mb)" "mbuf_wf mb \<Longrightarrow> mbuf_wf (mbuf_set_pos mb p)"
  "mbuf_wf mb \<Longrightarrow> mbuf_wf (mbuf_advance mb k)" "mbuf_wf mb \<Longrightarrow> p \<le> mb_size mb \<Longrightarrow> mbuf_wf (mbuf_set_end mb p)"
  by (auto simp: mbuf_rewind_def mbuf_skip_to_end_def mbuf_reset_def mbuf_init_def mbuf_set_pos_def
        mbuf_advance_def mbuf_set_end_def mbuf_wf_def)

lemma mbuf_step_wf: "mbuf_wf mb \<Longrightarrow> mbuf_step al mb mb' \<Longrightarrow> mbuf_wf mb'"
proof (erule mbuf_step.cases, goal_cases)
  case (5 mb1 n e s mb2)
  then show ?case
    by (auto simp: mbuf_strdup_def Let_def intro: mbuf_read_wf(1) split: option.splits prod.splits if_splits)
qed (auto dest: mbuf_write_wf intro: mbuf_fill_wf mbuf_read_wf(1) mbuf_read_str_wf mbuf_shift_wf mbuf_trim_wf
        mbuf_resize_wf mbuf_moves_wf)

interpretation mbinv: invariant_system "\<lambda>mb. mb = mbuf_init" "mbuf_step al" mbuf_wf
  for al
  by unfold_locales (auto intro: mbuf_moves_wf mbuf_step_wf)

text \<open>
  C27. No operation leaves the block. In every run that starts with a fresh buffer, with any
  positions, contents and answers of the allocator, as long as new ends lie in the block, blocks
  are not made smaller than their contents and writes end below the limit of \<^verbatim>\<open>size_t\<close>: the recorded
  size is the size of the block and the end lies in it; a read that succeeds gives as many bytes as
  were asked for, all from before the end; a write that succeeds has room for all of its bytes; and
  filling is defined, and does the same as a write, for every number of bytes that does not
  wrap around and a block below \<open>2 ^ 63\<close>.
\<close>

theorem mbuf_reachable_ok:
  assumes "reach (\<lambda>mb. mb = mbuf_init) (mbuf_step al) mb"
  shows "length (mb_buf mb) = mb_size mb \<and> mb_end mb \<le> mb_size mb
    \<and> (\<forall>n bs mb'. mbuf_read_mem mb n = (OK, bs, mb') \<longrightarrow> length bs = n \<and> (n = 0 \<or> mb_pos mb + n \<le> mb_end mb))
    \<and> (\<forall>bs mb'. mb_pos mb + length bs < 2 ^ 64 \<and> mbuf_write_mem al mb bs = (OK, mb') \<longrightarrow> mb_pos mb + length bs \<le> length (mb_buf mb'))
    \<and> (\<forall>c n. n \<noteq> 0 \<and> mb_pos mb + n < 2 ^ 64 \<and> mb_size mb < 2 ^ 63 \<longrightarrow>
        mbuf_fill al mb c n = Some (mbuf_write_mem al mb (replicate n c)))"
proof -
  have w: "mbuf_wf mb" using assms by (rule mbinv.reach_inv)
  have "length bs = n \<and> (n = 0 \<or> mb_pos mb + n \<le> mb_end mb)" if "mbuf_read_mem mb n = (OK, bs, mb')" for n bs mb'
    using that w by (auto simp: mbuf_read_mem_def mbuf_buf_def mbuf_get_left_def mbuf_wf_def EOVERFLOW_def split: if_splits)
  moreover have "mb_pos mb + length bs \<le> length (mb_buf mb')" if "mbuf_write_mem al mb bs = (OK, mb')" for bs mb'
    using mbuf_write_wf [OF w that] by (simp add: mbuf_wf_def)
  ultimately show ?thesis using w mbuf_fill_write [OF w] by (simp add: mbuf_wf_def)
qed

theorem mbuf_reachable_ok_witness:
  "\<exists>mb bs mb'. reach (\<lambda>mb. mb = mbuf_init) (mbuf_step (\<lambda>n. Some (\<lambda>i. 0))) mb \<and> mb_pos mb = 0
     \<and> mbuf_read_mem mb 2 = (OK, bs, mb') \<and> length bs = 2 \<and> mb_end mb \<le> mb_size mb"
proof -
  let ?al = "\<lambda>n. Some (\<lambda>i. 0) :: (nat \<Rightarrow> byte) option"
  let ?w = "mbuf_write_mem ?al mbuf_init [1, 2]"
  let ?mb = "mbuf_advance (snd ?w) (- 2)"
  have "mbuf_step ?al mbuf_init (snd ?w)"
    by (rule st_write [of mbuf_init "[1, 2]" ?al "fst ?w"]) (simp_all add: mbuf_init_def)
  then have "reach (\<lambda>mb. mb = mbuf_init) (mbuf_step ?al) (snd ?w)"
    by (rule reach_step [OF reach_init, rotated]) simp
  then have r: "reach (\<lambda>mb. mb = mbuf_init) (mbuf_step ?al) ?mb" by (rule reach_step) (rule st_advance)
  have f: "mb_pos ?mb = 0" "mb_end ?mb = 2"
    by (simp_all add: mbuf_advance_def mbuf_write_mem_def mbuf_grow_def mbuf_init_def mbuf_resize_def mem_alloc_def
        MBUF_DEFAULT_SIZE_def)
  then obtain bs mb' where "mbuf_read_mem ?mb 2 = (OK, bs, mb')" by (simp add: mbuf_read_mem_def mbuf_get_left_def)
  with r f mbuf_reachable_ok [OF r] show ?thesis by blast
qed

text \<open>The sum of the position and the number of bytes wraps around, and the bytes behind the block are set.\<close>

lemma mbuf_fill_overruns:
  "mbuf_fill al \<lparr>mb_buf = [1, 2], mb_size = 2, mb_pos = 1, mb_end = 2\<rparr> c (2 ^ 64 - 1) = None"
  by (simp add: mbuf_fill_def)

text \<open>
  C28. A block of bytes written at the position of a well-formed buffer is read back unchanged
  from that position, and reading it leaves the buffer as the write left it.
\<close>

theorem mbuf_write_read:
  assumes "mbuf_ok mb" "mbuf_write_mem al mb bs = (OK, mb')"
  shows "mbuf_read_mem (mbuf_set_pos mb' (mb_pos mb)) (length bs) = (OK, bs, mb')"
proof -
  from mb.put_ok [OF assms] have ok: "mbuf_ok mb'" and b: "mb_before mb' = mb_before mb @ bs"
    by auto
  note bk = mb_back [OF assms(1) ok b]
  have "length bs \<le> mbuf_get_left (mb'\<lparr>mb_pos := mb_pos mb\<rparr>)"
    using arg_cong [OF bk(2), of length] bk(1) by simp
  from mbuf_read_mem_adv [OF bk(1) this] bk(2,3) show ?thesis
    by (simp add: mbuf_set_pos_def)
qed

theorem mbuf_write_read_witness:
  "mbuf_ok mbuf_init \<and>
   mbuf_read_mem (mbuf_set_pos (snd (mbuf_write_mem (\<lambda>n. Some (\<lambda>i. 7)) mbuf_init [1, 2, 3])) 0) 3 =
     (OK, [1, 2, 3], snd (mbuf_write_mem (\<lambda>n. Some (\<lambda>i. 7)) mbuf_init [1, 2, 3]))"
proof -
  have ok: "mbuf_ok mbuf_init" by (simp add: mbuf_ok_def mbuf_init_def)
  let ?w = "mbuf_write_mem (\<lambda>n. Some (\<lambda>i. 7)) mbuf_init [1, 2, 3]"
  have "fst ?w = OK"
    by (simp add: mbuf_write_mem_def mbuf_grow_def mbuf_init_def mbuf_resize_def mem_alloc_def
        MBUF_DEFAULT_SIZE_def)
  then have "?w = (OK, snd ?w)" by (metis prod.collapse)
  from mbuf_write_read [OF ok this] ok show ?thesis by (simp add: mbuf_init_def eval_nat_numeral)
qed

text \<open>
  Shifting the contents of a buffer either fails and changes nothing, or moves the
  position by the requested amount and keeps the unread bytes.
\<close>

theorem mbuf_shift_keeps_content:
  assumes "mbuf_ok mb" "mbuf_shift al mb k = Some (e, mb')"
  shows "if e = OK then mb_after mb' = mb_after mb \<and> int (mb_pos mb') = int (mb_pos mb) + k
         else mb' = mb"
  using mbuf_ok_wf [OF assms(1)] assms(2)
proof (cases rule: mbuf_shift_cases)
  case fail
  then show ?thesis by simp
next
  case (moved mb1)
  have "take (mb_end mb) (mb_buf mb1) = take (mb_end mb) (mb_buf mb)"
    using moved(9) mbuf_okD(3) [OF assms(1)] by (metis min.absorb1 take_take)
  then have a1: "mb_after mb1 = mb_after mb"
    using moved(5,6) mbuf_okD(2) [OF assms(1)]
    by (auto simp: mbuf_views) (metis drop_take)
  let ?p = "nat (int (mb_pos mb) + k)"
  have left: "nat (int (mb_end mb) + k) - ?p = length (mb_after mb)"
    using moved(2) mbuf_okD(2) [OF assms(1)] assms(1) by (auto simp: mbuf_get_left_def)
  have p: "?p \<le> length (mb_buf mb1)"
    using moved(2,7) moved(4) [unfolded mbuf_wf_def] mbuf_okD(2) [OF assms(1)] by linarith
  have f: "mb_buf mb' = poke ?p (mb_after mb) (mb_buf mb1)" "mb_pos mb' = ?p"
    "mb_end mb' = nat (int (mb_end mb) + k)"
    using moved(10) a1 by simp_all
  have "mbuf_get_left mb' = length (mb_after mb)"
    using left by (simp only: mbuf_get_left_diff f)
  then have "mb_after mb' = take (length (mb_after mb)) (drop ?p (poke ?p (mb_after mb) (mb_buf mb1)))"
    by (simp only: mb_after_def [of mb'] mbuf_buf_def f)
  also have "\<dots> = mb_after mb" using p by (simp add: poke_def)
  finally show ?thesis using moved by simp
qed

theorem mbuf_shift_keeps_content_witness:
  "\<exists>mb'. mbuf_shift (\<lambda>n. Some (\<lambda>i. 0)) \<lparr>mb_buf = [1, 2, 3], mb_size = 3, mb_pos = 1, mb_end = 3\<rparr> 2 = Some (OK, mb')
     \<and> mb_after mb' = [2, 3] \<and> mb_pos mb' = 3"
proof -
  let ?mb = "\<lparr>mb_buf = [1, 2, 3], mb_size = 3, mb_pos = 1, mb_end = 3\<rparr> :: mbuf" and ?al = "\<lambda>n. Some (\<lambda>i. 0) :: (nat \<Rightarrow> byte) option"
  have ok: "mbuf_ok ?mb" by (simp add: mbuf_ok_def)
  obtain mb' where e: "mbuf_shift ?al ?mb 2 = Some (OK, mb')"
    by (simp add: mbuf_shift_def mbuf_resize_def mem_realloc_def)
  have a: "mb_after ?mb = [2, 3]" by (simp add: mb_after_def mbuf_buf_def mbuf_get_left_def)
  from mbuf_shift_keeps_content [OF ok e] e show ?thesis unfolding a by auto
qed

end
