(* ===== verification/Rtp.thy ===== *)
theory Rtp
  imports Mbuf
begin

text \<open>
  RTP headers and packets, \<^verbatim>\<open>re/src/rtp/rtp.c\<close>: the encoder and decoder of the header, the
  packet encoder with its running sequence number, the packet decoder, and the send path
  that prepends the header to a payload.
\<close>

section \<open>Headers\<close>

definition RTP_VERSION :: byte where "RTP_VERSION = 2"
definition RTP_HEADER_SIZE :: nat where "RTP_HEADER_SIZE = 12"

text \<open>\<open>rh_csrc\<close> is the array \<^verbatim>\<open>csrc[16]\<close>; \<open>rh_xtype\<close> and \<open>rh_xlen\<close> are \<^verbatim>\<open>x.type\<close> and \<^verbatim>\<open>x.len\<close>.\<close>

record rtp_header =
  rh_ver :: byte
  rh_pad :: bool
  rh_ext :: bool
  rh_cc :: byte
  rh_m :: bool
  rh_pt :: byte
  rh_seq :: u16
  rh_ts :: u32
  rh_ssrc :: u32
  rh_csrc :: "u32 list"
  rh_xtype :: u16
  rh_xlen :: u16

definition rtp_hdr0 :: rtp_header where
  "rtp_hdr0 = \<lparr>rh_ver = 0, rh_pad = False, rh_ext = False, rh_cc = 0, rh_m = False, rh_pt = 0,
     rh_seq = 0, rh_ts = 0, rh_ssrc = 0, rh_csrc = replicate 16 0, rh_xtype = 0, rh_xlen = 0\<rparr>"

text \<open>The two bytes \<^verbatim>\<open>buf[0]\<close> and \<^verbatim>\<open>buf[1]\<close> of the encoder.\<close>

definition rtp_byte0 :: "rtp_header \<Rightarrow> byte" where
  "rtp_byte0 h = push_bit 6 (rh_ver h AND 0x02) OR push_bit 5 (of_bool (rh_pad h)) OR
     push_bit 4 (of_bool (rh_ext h)) OR (rh_cc h AND 0x0f)"

definition rtp_byte1 :: "rtp_header \<Rightarrow> byte" where
  "rtp_byte1 h = push_bit 7 (of_bool (rh_m h)) OR (rh_pt h AND 0x7f)"

text \<open>A count of contributing sources beyond the array makes the encoder read behind it: \<open>None\<close>.\<close>

definition rtp_hdr_encode :: "allocator \<Rightarrow> mbuf \<Rightarrow> rtp_header \<Rightarrow> (err \<times> mbuf) option" where
  "rtp_hdr_encode al mb h =
     (if length (rh_csrc h) < unat (rh_cc h) then None
      else
      let r = mbuf_write_mem al mb [rtp_byte0 h, rtp_byte1 h];
          r = or_then r (\<lambda>mb. mbuf_write_u16 al mb (htons (rh_seq h)));
          r = or_then r (\<lambda>mb. mbuf_write_u32 al mb (htonl (rh_ts h)));
          r = or_then r (\<lambda>mb. mbuf_write_u32 al mb (htonl (rh_ssrc h)))
      in Some (fold (\<lambda>i r. or_then r (\<lambda>mb. mbuf_write_u32 al mb (htonl (rh_csrc h ! i))))
           [0..<unat (rh_cc h)] r))"

definition rtp_read_csrc :: "nat \<Rightarrow> rtp_header \<times> mbuf \<Rightarrow> rtp_header \<times> mbuf" where
  "rtp_read_csrc i r =
     (let (h, mb) = r; (v, mb) = mbuf_read_u32 mb
      in (h\<lparr>rh_csrc := (rh_csrc h)[i := ntohl v]\<rparr>, mb))"

text \<open>
  The decoder fills the header the caller passes; on an error the fields read so far are set
  and the position is where the reading stopped.
\<close>

definition rtp_hdr_decode :: "rtp_header \<Rightarrow> mbuf \<Rightarrow> err \<times> rtp_header \<times> mbuf" where
  "rtp_hdr_decode h mb =
     (if mbuf_get_left mb < RTP_HEADER_SIZE then (EBADMSG, h, mb)
      else let (e, bs, mb) = mbuf_read_mem mb 2 in
      if e \<noteq> OK then (e, h, mb)
      else let b0 = bs ! 0; b1 = bs ! 1;
        h = h\<lparr>rh_ver := drop_bit 6 b0 AND 0x03,
              rh_pad := (drop_bit 5 b0 AND 0x01) \<noteq> 0,
              rh_ext := (drop_bit 4 b0 AND 0x01) \<noteq> 0,
              rh_cc := b0 AND 0x0f,
              rh_m := (drop_bit 7 b1 AND 0x01) \<noteq> 0,
              rh_pt := b1 AND 0x7f\<rparr>;
        (seq, mb) = mbuf_read_u16 mb;
        (ts, mb) = mbuf_read_u32 mb;
        (ssrc, mb) = mbuf_read_u32 mb;
        h = h\<lparr>rh_seq := ntohs seq, rh_ts := ntohl ts, rh_ssrc := ntohl ssrc\<rparr>;
        header_len = unat (rh_cc h) * 4
      in if mbuf_get_left mb < header_len then (EBADMSG, h, mb)
      else let (h, mb) = fold rtp_read_csrc [0..<unat (rh_cc h)] (h, mb) in
      if rh_ext h then
        if mbuf_get_left mb < 4 then (EBADMSG, h, mb)
        else let (t, mb) = mbuf_read_u16 mb; (l, mb) = mbuf_read_u16 mb;
          h = h\<lparr>rh_xtype := ntohs t, rh_xlen := ntohs l\<rparr>
        in if mbuf_get_left mb < unat (rh_xlen h) * 4 then (EBADMSG, h, mb)
        else (OK, h, mb\<lparr>mb_pos := mb_pos mb + unat (rh_xlen h) * 4\<rparr>)
      else (OK, h, mb))"

section \<open>Packets\<close>

text \<open>The part \<^verbatim>\<open>enc\<close> of the RTP socket: the next sequence number and the own SSRC.\<close>

record rtp_sock =
  rs_seq :: u16
  rs_ssrc :: u32

definition rtp_encode ::
  "allocator \<Rightarrow> rtp_sock \<Rightarrow> bool \<Rightarrow> bool \<Rightarrow> byte \<Rightarrow> u32 \<Rightarrow> mbuf \<Rightarrow> (err \<times> rtp_sock \<times> mbuf) option" where
  "rtp_encode al rs ext marker pt ts mb =
     (if pt AND NOT 0x7f \<noteq> 0 then Some (EINVAL, rs, mb)
      else let h = rtp_hdr0\<lparr>rh_ver := RTP_VERSION, rh_pad := False, rh_ext := ext, rh_cc := 0,
                 rh_m := marker, rh_pt := pt, rh_seq := rs_seq rs, rh_ts := ts,
                 rh_ssrc := rs_ssrc rs\<rparr>;
             rs = rs\<lparr>rs_seq := rs_seq rs + 1\<rparr>
      in map_option (\<lambda>(e, mb). (e, rs, mb)) (rtp_hdr_encode al mb h))"

definition rtp_decode :: "mbuf \<Rightarrow> err \<times> rtp_header \<times> mbuf" where
  "rtp_decode mb =
     (let (e, h, mb) = rtp_hdr_decode rtp_hdr0 mb in
      if e \<noteq> OK then (e, h, mb)
      else if RTP_VERSION \<noteq> rh_ver h then (EBADMSG, h, mb)
      else (OK, h, mb))"

text \<open>
  Sending: the header goes into the 12 bytes in front of the payload.  The calls that leave the
  component are recorded: the accounting call of the RTCP session (made when there is one),
  and the datagram given to the socket, whose result is the parameter \<open>net\<close>.
\<close>

datatype rtp_act = Rtcp_sess_tx_rtp u32 nat | Udp_send "byte list"

definition rtp_send ::
  "allocator \<Rightarrow> (byte list \<Rightarrow> err) \<Rightarrow> bool \<Rightarrow> rtp_sock \<Rightarrow> bool \<Rightarrow> bool \<Rightarrow> byte \<Rightarrow> u32 \<Rightarrow> mbuf \<Rightarrow>
     (err \<times> rtp_sock \<times> mbuf \<times> rtp_act list) option" where
  "rtp_send al net has_rtcp rs ext marker pt ts mb =
     (if mb_pos mb < RTP_HEADER_SIZE then Some (EBADMSG, rs, mb, [])
      else let mb = mbuf_advance mb (- int RTP_HEADER_SIZE);
             pos = mb_pos mb
      in case rtp_encode al rs ext marker pt ts mb of
        None \<Rightarrow> None
      | Some (e, rs, mb) \<Rightarrow>
          if e \<noteq> OK then Some (e, rs, mb, [])
          else let acts = (if has_rtcp then [Rtcp_sess_tx_rtp ts (mbuf_get_left mb)] else []);
                 mb = mb\<lparr>mb_pos := pos\<rparr>;
                 pkt = take (mbuf_get_left mb) (mbuf_buf mb)
          in Some (net pkt, rs, mb, acts @ [Udp_send pkt]))"

section \<open>The wire format\<close>

definition rtp_chunks :: "rtp_header \<Rightarrow> byte list list" where
  "rtp_chunks h = [[rtp_byte0 h, rtp_byte1 h], be16 (rh_seq h), be32 (rh_ts h), be32 (rh_ssrc h)] @
     map (\<lambda>i. be32 (rh_csrc h ! i)) [0..<unat (rh_cc h)]"

definition rtp_hdr_valid :: "rtp_header \<Rightarrow> bool" where
  "rtp_hdr_valid h \<longleftrightarrow> rh_ver h = RTP_VERSION \<and> \<not> rh_ext h \<and> rh_cc h < 16 \<and> rh_pt h < 128 \<and>
     length (rh_csrc h) = 16"

lemma rtp_hdr_encode_chunks:
  assumes "unat (rh_cc h) \<le> length (rh_csrc h)"
  shows "rtp_hdr_encode al mb h = Some (or_put (mbuf_write_mem al) mb (rtp_chunks h))"
proof -
  define js where "js = [0..<unat (rh_cc h)]"
  have "fold (\<lambda>i r. or_then r (\<lambda>mb. mbuf_write_u32 al mb (htonl (rh_csrc h ! i)))) js (e, m) =
      (let (e', m') = or_put (mbuf_write_mem al) m (map (\<lambda>i. be32 (rh_csrc h ! i)) js)
       in (e OR e', m'))" for e m
    using fold_or_then [of "mbuf_write_mem al" "\<lambda>i. be32 (rh_csrc h ! i)" js e m]
    by (simp add: mbuf_write_u32_def)
  then show ?thesis
    using assms
    by (simp add: rtp_hdr_encode_def rtp_chunks_def or_then_def mbuf_write_u16_def mbuf_write_u32_def
        Let_def split_def or.assoc flip: js_def)
qed

lemma rtp_hdr_valid_csrc: "rtp_hdr_valid h \<Longrightarrow> unat (rh_cc h) \<le> length (rh_csrc h)"
  by (simp add: rtp_hdr_valid_def word_less_nat_alt)

lemma mb_adv_adv [simp]: "mb_adv (mb_adv mb a) b = mb_adv mb (a + b)"
  by (simp add: mb_adv_def add.assoc)

lemma fold_rtp_read_csrc:
  "mbuf_ok mb \<Longrightarrow> mb_after mb = concat (map be32 cs) @ r \<Longrightarrow> k + length cs \<le> length (rh_csrc h) \<Longrightarrow>
     fold rtp_read_csrc [k..<k + length cs] (h, mb) =
       (h\<lparr>rh_csrc := poke k cs (rh_csrc h)\<rparr>, mb_adv mb (4 * length cs))"
proof (induction cs arbitrary: k h mb)
  case Nil
  then show ?case by (simp add: poke_def mb_adv_def)
next
  case (Cons c cs)
  have a: "mb_after mb = be32 c @ concat (map be32 cs) @ r" using Cons.prems(2) by simp
  note rd = mbuf_read_u32_after [OF Cons.prems(1) a]
  have step: "rtp_read_csrc k (h, mb) = (h\<lparr>rh_csrc := (rh_csrc h)[k := c]\<rparr>, mb_adv mb 4)"
    by (simp add: rtp_read_csrc_def rd(1))
  have upt: "[k..<k + length (c # cs)] = k # [Suc k..<Suc k + length cs]"
    by (simp add: upt_rec [of k] Suc_le_eq)
  have "fold rtp_read_csrc [Suc k..<Suc k + length cs] (h\<lparr>rh_csrc := (rh_csrc h)[k := c]\<rparr>, mb_adv mb 4) =
     (h\<lparr>rh_csrc := poke (Suc k) cs ((rh_csrc h)[k := c])\<rparr>, mb_adv mb (4 + 4 * length cs))"
    using Cons.IH [OF rd(2,3), of "Suc k" "h\<lparr>rh_csrc := (rh_csrc h)[k := c]\<rparr>"] Cons.prems(3)
    by (simp del: upt_Suc)
  moreover have "poke (Suc k) cs ((rh_csrc h)[k := c]) = poke k (c # cs) (rh_csrc h)"
    using Cons.prems(3) by (simp add: poke_def take_Suc_conv_app_nth)
  ultimately show ?case
    unfolding upt by (simp add: step del: upt_Suc)
qed

lemma byte_masks: "(0x01 :: byte) = mask 1" "(0x03 :: byte) = mask 2" "(0x0f :: byte) = mask 4"
  "(0x7f :: byte) = mask 7"
  by (simp_all add: mask_eq_exp_minus_1)

lemma bit_two_byte: "bit (2 :: byte) n \<longleftrightarrow> n = 1"
  using bit_exp_iff [of 1 n, where ?'a = byte] by auto

lemma bit_rtp_byte0:
  "bit (rtp_byte0 h) n \<longleftrightarrow> n = 7 \<and> bit (rh_ver h) 1 \<or> n = 5 \<and> rh_pad h \<or> n = 4 \<and> rh_ext h \<or>
     n < 4 \<and> bit (rh_cc h) n"
proof -
  consider "n = 0" | "n = 1" | "n = 2" | "n = 3" | "n = 4" | "n = 5" | "n = 6" | "n = 7" | "8 \<le> n"
    by linarith
  then show ?thesis
    by cases (simp_all add: rtp_byte0_def bit_simps byte_masks bit_two_byte)
qed

lemma bit_rtp_byte1: "bit (rtp_byte1 h) n \<longleftrightarrow> n = 7 \<and> rh_m h \<or> n < 7 \<and> bit (rh_pt h) n"
proof -
  consider "n < 7" | "n = 7" | "8 \<le> n" by linarith
  then show ?thesis by cases (simp_all add: rtp_byte1_def bit_simps byte_masks)
qed

lemma byte_flag: "drop_bit k (b :: byte) AND 1 \<noteq> 0 \<longleftrightarrow> bit b k"
  by (simp add: and_one_eq bit_iff_odd_drop_bit odd_iff_mod_2_eq_one)

lemma rtp_bytes_fields:
  assumes "rtp_hdr_valid h"
  shows "drop_bit 6 (rtp_byte0 h) AND 0x03 = rh_ver h"
    and "(drop_bit 5 (rtp_byte0 h) AND 0x01 \<noteq> 0) = rh_pad h"
    and "(drop_bit 4 (rtp_byte0 h) AND 0x01 \<noteq> 0) = rh_ext h"
    and "rtp_byte0 h AND 0x0f = rh_cc h"
    and "(drop_bit 7 (rtp_byte1 h) AND 0x01 \<noteq> 0) = rh_m h"
    and "rtp_byte1 h AND 0x7f = rh_pt h"
proof -
  have cc: "rh_cc h AND 0x0f = rh_cc h" and pt: "rh_pt h AND 0x7f = rh_pt h"
    using assms less_mask_eq [of "rh_cc h" 4] less_mask_eq [of "rh_pt h" 7]
    by (simp_all add: rtp_hdr_valid_def take_bit_eq_mask mask_eq_exp_minus_1)
  have "drop_bit 6 (rtp_byte0 h) AND 0x03 = rh_ver h AND 0x02"
    by (rule bit_word_eqI) (auto simp: bit_simps byte_masks bit_two_byte bit_rtp_byte0)
  then show "drop_bit 6 (rtp_byte0 h) AND 0x03 = rh_ver h"
    using assms by (simp add: rtp_hdr_valid_def RTP_VERSION_def)
  have "rtp_byte0 h AND 0x0f = rh_cc h AND 0x0f"
    by (rule bit_word_eqI) (auto simp: bit_simps byte_masks bit_rtp_byte0)
  then show "rtp_byte0 h AND 0x0f = rh_cc h" using cc by simp
  have "rtp_byte1 h AND 0x7f = rh_pt h AND 0x7f"
    by (rule bit_word_eqI) (auto simp: bit_simps byte_masks bit_rtp_byte1)
  then show "rtp_byte1 h AND 0x7f = rh_pt h" using pt by simp
qed (simp_all add: byte_flag bit_rtp_byte0 bit_rtp_byte1)

lemma csrc_bytes:
  "unat (rh_cc h) \<le> length (rh_csrc h) \<Longrightarrow>
     map (\<lambda>i. be32 (rh_csrc h ! i)) [0..<unat (rh_cc h)] = map be32 (take (unat (rh_cc h)) (rh_csrc h))"
  by (rule nth_equalityI) simp_all

lemma concat_be32_length [simp]: "length (concat (map be32 cs)) = 4 * length cs"
  by (induction cs) simp_all

lemma rtp_hdr_decode_bytes:
  assumes v: "rtp_hdr_valid h" and ok: "mbuf_ok mb" and a: "mb_after mb = concat (rtp_chunks h) @ r"
    and len: "length (rh_csrc h0) = 16"
  shows "rtp_hdr_decode h0 mb =
    (OK, h\<lparr>rh_csrc := poke 0 (take (unat (rh_cc h)) (rh_csrc h)) (rh_csrc h0),
           rh_xtype := rh_xtype h0, rh_xlen := rh_xlen h0\<rparr>, mb_adv mb (12 + 4 * unat (rh_cc h)))"
proof -
  define cs where "cs = take (unat (rh_cc h)) (rh_csrc h)"
  have cc: "unat (rh_cc h) < 16" using v unat_mono [of "rh_cc h" 16] by (simp add: rtp_hdr_valid_def)
  then have lcs: "length cs = unat (rh_cc h)" using v by (simp add: cs_def rtp_hdr_valid_def)
  have a0: "mb_after mb = [rtp_byte0 h, rtp_byte1 h] @ be16 (rh_seq h) @ be32 (rh_ts h) @
      be32 (rh_ssrc h) @ concat (map be32 cs) @ r"
    using a v cc by (simp add: rtp_chunks_def csrc_bytes cs_def rtp_hdr_valid_def)
  have left: "mbuf_get_left mb = 12 + 4 * unat (rh_cc h) + length r"
    using a0 lcs length_mb_after [OF ok] by simp
  have rd: "mbuf_read_mem mb 2 = (OK, [rtp_byte0 h, rtp_byte1 h], mb_adv mb 2)"
    using mbuf_read_mem_adv [OF ok, of 2] left a0 by simp
  have a1: "mbuf_ok (mb_adv mb 2)" "mb_after (mb_adv mb 2) = be16 (rh_seq h) @ be32 (rh_ts h) @
      be32 (rh_ssrc h) @ concat (map be32 cs) @ r"
    using mb_adv [OF ok, of 2] left a0 by simp_all
  note r1 = mbuf_read_u16_after [OF a1]
  note r2 = mbuf_read_u32_after [OF r1(2,3)]
  note r3 = mbuf_read_u32_after [OF r2(2,3)]
  have left3: "mbuf_get_left (mb_adv mb 12) = 4 * unat (rh_cc h) + length r"
    using mb_adv(4) [OF ok, of 12] left by simp
  have "fold rtp_read_csrc [0..<unat (rh_cc h)] (g, mb_adv mb 12) =
      (g\<lparr>rh_csrc := poke 0 cs (rh_csrc g)\<rparr>, mb_adv mb (12 + 4 * unat (rh_cc h)))"
    if "length (rh_csrc g) = 16" for g
    using fold_rtp_read_csrc [OF r3(2,3), of 0 g] that cc lcs by simp
  then show ?thesis
    using left left3 len v rtp_bytes_fields [OF v] r1(1) r2(1) r3(1) rd
    by (simp add: rtp_hdr_decode_def RTP_HEADER_SIZE_def rtp_hdr_valid_def flip: cs_def)
qed

lemma rtp_chunks_length: "length (concat (rtp_chunks h)) = 12 + 4 * unat (rh_cc h)"
  by (simp add: rtp_chunks_def length_concat comp_def sum_list_triv)

section \<open>Properties of the header codec\<close>

text \<open>
  C9. A well-formed header (version 2, no extension, at most 15 contributing sources, a 7-bit
  payload type) that was encoded is decoded to the same header, whatever header structure the
  decoder fills: the contributing sources come first in its array, the extension fields are
  those it had.  The decoder stops exactly where the encoder stopped.
\<close>

theorem rtp_hdr_roundtrip:
  assumes "rtp_hdr_valid h" "mbuf_ok mb" "length (rh_csrc h0) = 16"
    and enc: "rtp_hdr_encode al mb h = Some (OK, mb')"
  shows "rtp_hdr_decode h0 (mbuf_set_pos mb' (mb_pos mb)) =
    (OK, h\<lparr>rh_csrc := poke 0 (take (unat (rh_cc h)) (rh_csrc h)) (rh_csrc h0),
           rh_xtype := rh_xtype h0, rh_xlen := rh_xlen h0\<rparr>, mb')"
proof -
  from enc have e: "or_put (mbuf_write_mem al) mb (rtp_chunks h) = (OK, mb')"
    by (simp add: rtp_hdr_encode_chunks [OF rtp_hdr_valid_csrc [OF assms(1)]])
  from mb.or_put_ok [OF assms(2) e] have ok: "mbuf_ok mb'"
    and b: "mb_before mb' = mb_before mb @ concat (rtp_chunks h)" by auto
  note bk = mb_back [OF assms(2) ok b]
  from rtp_hdr_decode_bytes [OF assms(1) bk(1,2) assms(3)] bk(3) show ?thesis
    by (simp add: mbuf_set_pos_def rtp_chunks_length)
qed

theorem rtp_hdr_roundtrip_witness:
  "\<exists>mb'. rtp_hdr_decode rtp_hdr0 (mbuf_set_pos mb' 0) =
     (OK, rtp_hdr0\<lparr>rh_ver := 2, rh_m := True, rh_pt := 96, rh_seq := 65535, rh_ts := 7, rh_ssrc := 9,
        rh_cc := 1, rh_csrc := 5 # replicate 15 0\<rparr>, mb') \<and> mb_pos mb' = 16"
proof -
  let ?h = "rtp_hdr0\<lparr>rh_ver := 2, rh_m := True, rh_pt := 96, rh_seq := 65535, rh_ts := 7,
    rh_ssrc := 9, rh_cc := 1, rh_csrc := 5 # replicate 15 0\<rparr>"
  let ?mb = "\<lparr>mb_buf = replicate 16 0, mb_size = 16, mb_pos = 0, mb_end = 0\<rparr>"
  let ?al = "\<lambda>n. None"
  have v: "rtp_hdr_valid ?h" by (simp add: rtp_hdr_valid_def rtp_hdr0_def RTP_VERSION_def)
  have ok: "mbuf_ok ?mb" by (simp add: mbuf_ok_def)
  obtain mb' where w: "or_put (mbuf_write_mem ?al) ?mb (rtp_chunks ?h) = (OK, mb')"
    using or_put_room [of ?mb "rtp_chunks ?h" ?al] by (auto simp: rtp_chunks_length)
  from mb.or_put_ok [OF ok w] have "mb_pos mb' = 16"
    using mb_back(4) [OF ok, of mb'] by (simp add: rtp_chunks_length)
  moreover have "poke 0 (take (Suc 0) (rh_csrc ?h)) (replicate 16 0) = 5 # replicate 15 (0 :: u32)"
    by (simp add: poke_def eval_nat_numeral)
  moreover have "rtp_hdr_encode ?al ?mb ?h = Some (OK, mb')"
    using w by (simp only: rtp_hdr_encode_chunks [OF rtp_hdr_valid_csrc [OF v]])
  ultimately show ?thesis
    using rtp_hdr_roundtrip [OF v ok, of rtp_hdr0 ?al mb'] by (auto simp: rtp_hdr0_def)
qed

subsection \<open>The decoder as a function of the unread bytes\<close>

text \<open>
  \<open>rtp_parse\<close> is the reference definition of the decoder: a function of the unread bytes alone
  that returns the error, the header and the number of bytes consumed.
\<close>

definition rd16 :: "byte list \<Rightarrow> nat \<Rightarrow> u16" where
  "rd16 bs k = ntohs (of_le16 (take 2 (drop k bs)))"

definition rd32 :: "byte list \<Rightarrow> nat \<Rightarrow> u32" where
  "rd32 bs k = ntohl (of_le32 (take 4 (drop k bs)))"

definition rtp_parse_fixed :: "rtp_header \<Rightarrow> byte list \<Rightarrow> rtp_header" where
  "rtp_parse_fixed h bs = h\<lparr>rh_ver := drop_bit 6 (bs ! 0) AND 0x03,
     rh_pad := (drop_bit 5 (bs ! 0) AND 0x01) \<noteq> 0, rh_ext := (drop_bit 4 (bs ! 0) AND 0x01) \<noteq> 0,
     rh_cc := bs ! 0 AND 0x0f, rh_m := (drop_bit 7 (bs ! 1) AND 0x01) \<noteq> 0,
     rh_pt := bs ! 1 AND 0x7f, rh_seq := rd16 bs 2, rh_ts := rd32 bs 4, rh_ssrc := rd32 bs 8\<rparr>"

definition rtp_parse_csrc :: "byte list \<Rightarrow> nat \<Rightarrow> u32 list \<Rightarrow> u32 list" where
  "rtp_parse_csrc bs n cs = fold (\<lambda>i cs. cs[i := rd32 bs (12 + 4 * i)]) [0..<n] cs"

definition rtp_parse :: "rtp_header \<Rightarrow> byte list \<Rightarrow> err \<times> rtp_header \<times> nat" where
  "rtp_parse h bs =
     (if length bs < 12 then (EBADMSG, h, 0)
      else let h = rtp_parse_fixed h bs; k = 12 + 4 * unat (rh_cc h) in
      if length bs < k then (EBADMSG, h, 12)
      else let h = h\<lparr>rh_csrc := rtp_parse_csrc bs (unat (rh_cc h)) (rh_csrc h)\<rparr> in
      if \<not> rh_ext h then (OK, h, k)
      else if length bs < k + 4 then (EBADMSG, h, k)
      else let h = h\<lparr>rh_xtype := rd16 bs k, rh_xlen := rd16 bs (k + 2)\<rparr>;
               k' = k + 4 + unat (rh_xlen h) * 4 in
      if length bs < k' then (EBADMSG, h, k + 4) else (OK, h, k'))"

lemma mb_adv_0 [simp]: "mb_adv mb 0 = mb"
  by (simp add: mb_adv_def)

lemma mb_adv_pos: "(mb_adv mb k)\<lparr>mb_pos := mb_pos (mb_adv mb k) + j\<rparr> = mb_adv mb (k + j)"
  by (simp add: mb_adv_def add.assoc)

lemma mbuf_read_adv:
  assumes "mbuf_ok mb"
  shows "k + 2 \<le> mbuf_get_left mb \<Longrightarrow>
      mbuf_read_u16 (mb_adv mb k) = (htons (rd16 (mb_after mb) k), mb_adv mb (k + 2))"
    and "k + 4 \<le> mbuf_get_left mb \<Longrightarrow>
      mbuf_read_u32 (mb_adv mb k) = (htonl (rd32 (mb_after mb) k), mb_adv mb (k + 4))"
  using assms mb_adv [of mb k]
  by (simp_all add: mbuf_read_u16_def mbuf_read_u32_def mbuf_read_mem_adv rd16_def rd32_def)

lemma fold_rtp_read_csrc_adv:
  assumes "mbuf_ok mb"
  shows "12 + 4 * n \<le> mbuf_get_left mb \<Longrightarrow> fold rtp_read_csrc [0..<n] (h, mb_adv mb 12) =
    (h\<lparr>rh_csrc := rtp_parse_csrc (mb_after mb) n (rh_csrc h)\<rparr>, mb_adv mb (12 + 4 * n))"
proof (induction n)
  case (Suc n)
  moreover have "mbuf_read_u32 (mb_adv mb (12 + 4 * n)) =
      (htonl (rd32 (mb_after mb) (12 + 4 * n)), mb_adv mb (12 + 4 * n + 4))"
    using mbuf_read_adv(2) [OF assms, of "12 + 4 * n"] Suc.prems by simp
  ultimately show ?case by (simp add: rtp_read_csrc_def rtp_parse_csrc_def ac_simps)
qed (simp add: rtp_parse_csrc_def)

lemma rtp_hdr_decode_head:
  assumes "mbuf_ok mb" "12 \<le> mbuf_get_left mb" "g = rtp_parse_fixed h (mb_after mb)" "n = unat (rh_cc g)"
  shows "rtp_hdr_decode h mb = (if mbuf_get_left mb < 12 + 4 * n then (EBADMSG, g, mb_adv mb 12)
      else let (h, mb) = fold rtp_read_csrc [0..<n] (g, mb_adv mb 12) in
      if rh_ext h then
        if mbuf_get_left mb < 4 then (EBADMSG, h, mb)
        else let (t, mb) = mbuf_read_u16 mb; (l, mb) = mbuf_read_u16 mb;
          h = h\<lparr>rh_xtype := ntohs t, rh_xlen := ntohs l\<rparr>
        in if mbuf_get_left mb < unat (rh_xlen h) * 4 then (EBADMSG, h, mb)
        else (OK, h, mb\<lparr>mb_pos := mb_pos mb + unat (rh_xlen h) * 4\<rparr>)
      else (OK, h, mb))"
proof -
  have "mbuf_get_left (mb_adv mb 12) < 4 * n \<longleftrightarrow> mbuf_get_left mb < 12 + 4 * n"
    using mb_adv(4) [of mb 12] assms(1,2) by auto
  then show ?thesis
    using assms mbuf_read_adv(1) [of mb 2] mbuf_read_adv(2) [of mb 4] mbuf_read_adv(2) [of mb 8]
    by (simp add: rtp_hdr_decode_def RTP_HEADER_SIZE_def mbuf_read_mem_adv Let_def
        rtp_parse_fixed_def mult.commute)
qed

lemma rtp_hdr_decode_parse:
  assumes ok: "mbuf_ok mb"
  shows "rtp_hdr_decode h mb = (let (e, h', k) = rtp_parse h (mb_after mb) in (e, h', mb_adv mb k))"
proof (cases "12 \<le> mbuf_get_left mb")
  case True
  define g where "g = rtp_parse_fixed h (mb_after mb)"
  define n where "n = unat (rh_cc g)"
  note head = rtp_hdr_decode_head [OF ok True g_def n_def]
  have lt: "mbuf_get_left (mb_adv mb k) < j \<longleftrightarrow> mbuf_get_left mb < k + j" if "k \<le> mbuf_get_left mb" for k j
    using mb_adv(4) [OF ok that] that by auto
  show ?thesis
  proof (cases "mbuf_get_left mb < 12 + 4 * n")
    case False
    then show ?thesis
      using True mbuf_read_adv(1) [OF ok, of "12 + 4 * n"] mbuf_read_adv(1) [OF ok, of "14 + 4 * n"]
      by (auto simp: head rtp_parse_def ok fold_rtp_read_csrc_adv lt mb_adv_pos Let_def ac_simps
          simp flip: g_def n_def)
  qed (use True in \<open>simp add: head rtp_parse_def ok flip: g_def n_def\<close>)
qed (simp add: rtp_hdr_decode_def rtp_parse_def RTP_HEADER_SIZE_def ok)

text \<open>The decoder looks at no byte behind the header it returns.\<close>

lemma rd_take [simp]:
  "k + 2 \<le> n \<Longrightarrow> rd16 (take n bs) k = rd16 bs k"
  "k + 4 \<le> n \<Longrightarrow> rd32 (take n bs) k = rd32 bs k"
  by (simp_all add: rd16_def rd32_def drop_take min_def)

lemma rtp_parse_csrc_take:
  "12 + 4 * n \<le> k \<Longrightarrow> rtp_parse_csrc (take k bs) n cs = rtp_parse_csrc bs n cs"
  unfolding rtp_parse_csrc_def by (rule fold_cong) auto

lemma rtp_parse_fixed_take: "12 \<le> k \<Longrightarrow> rtp_parse_fixed h (take k bs) = rtp_parse_fixed h bs"
  by (simp add: rtp_parse_fixed_def)

lemma rtp_parse_prefix:
  assumes "rtp_parse h bs = (OK, h', k)" "take k cs = take k bs" "k \<le> length cs"
  shows "rtp_parse h cs = (OK, h', k)"
proof -
  have k: "12 \<le> k" "k \<le> length bs" and p: "rtp_parse h (take k bs) = (OK, h', k)"
    using assms(1) by (auto simp: rtp_parse_def Let_def EBADMSG_def rtp_parse_fixed_take
        rtp_parse_csrc_take split: if_splits)
  then have "rtp_parse h (take k cs) = (OK, h', k)" using assms(2) by simp
  then show ?thesis using assms(3) k
    by (auto simp: rtp_parse_def Let_def EBADMSG_def rtp_parse_fixed_take
        rtp_parse_csrc_take split: if_splits)
qed

definition rtp_hdr_len :: "rtp_header \<Rightarrow> nat" where
  "rtp_hdr_len h = 12 + 4 * unat (rh_cc h) + (if rh_ext h then 4 + 4 * unat (rh_xlen h) else 0)"

text \<open>
  C29. Decoding a header never reads or moves past the end of a well-formed buffer, whatever the
  bytes are: it only moves the position, by at most the unread length; the only error is
  \<^verbatim>\<open>EBADMSG\<close>; and on success the position is behind the fixed header, the contributing sources
  and the header extension that the decoded header announces.
\<close>

theorem rtp_hdr_decode_bounds:
  assumes ok: "mbuf_ok mb" and dec: "rtp_hdr_decode h mb = (e, h', mb')"
  shows "\<exists>k \<le> mbuf_get_left mb. mb' = mb\<lparr>mb_pos := mb_pos mb + k\<rparr> \<and> e \<in> {OK, EBADMSG} \<and>
    (e = OK \<longrightarrow> k = rtp_hdr_len h')"
proof -
  obtain e' g k where p: "rtp_parse h (mb_after mb) = (e', g, k)" by (metis prod_cases3)
  then have "e = e'" "h' = g" "mb' = mb_adv mb k"
    using dec by (auto simp: rtp_hdr_decode_parse [OF ok])
  moreover have "k \<le> length (mb_after mb) \<and> e' \<in> {OK, EBADMSG} \<and> (e' = OK \<longrightarrow> k = rtp_hdr_len g)"
    using p by (auto simp: rtp_parse_def rtp_hdr_len_def Let_def EBADMSG_def split: if_splits)
  ultimately show ?thesis using ok by (auto simp: mb_adv_def)
qed

theorem rtp_hdr_decode_bounds_witness:
  "\<exists>h' mb'. rtp_hdr_decode rtp_hdr0 \<lparr>mb_buf = 0xA0 # 96 # replicate 10 1 @ [7], mb_size = 13,
       mb_pos = 0, mb_end = 13\<rparr> = (OK, h', mb') \<and> mb_pos mb' = 12 \<and> rtp_hdr_len h' = 12 \<and> rh_pad h'"
proof -
  let ?mb = "\<lparr>mb_buf = 0xA0 # 96 # replicate 10 1 @ [7], mb_size = 13, mb_pos = 0, mb_end = 13\<rparr>"
  let ?r = "rtp_hdr_decode rtp_hdr0 ?mb"
  have ok: "mbuf_ok ?mb" by (simp add: mbuf_ok_def)
  have r: "fst ?r = OK \<and> rtp_hdr_len (fst (snd ?r)) = 12 \<and> rh_pad (fst (snd ?r))" by code_simp
  obtain e h' mb' where d: "?r = (e, h', mb')" by (cases ?r)
  from rtp_hdr_decode_bounds [OF ok d] r d show ?thesis by auto
qed

section \<open>Properties of sending\<close>

text \<open>
  The header that \<^verbatim>\<open>rtp_encode\<close> builds.
\<close>

definition rtp_tx_header :: "rtp_sock \<Rightarrow> bool \<Rightarrow> bool \<Rightarrow> byte \<Rightarrow> u32 \<Rightarrow> rtp_header" where
  "rtp_tx_header rs ext marker pt ts = rtp_hdr0\<lparr>rh_ver := RTP_VERSION, rh_ext := ext, rh_m := marker,
     rh_pt := pt, rh_seq := rs_seq rs, rh_ts := ts, rh_ssrc := rs_ssrc rs\<rparr>"

lemma rtp_encode_alt:
  "rtp_encode al rs ext marker pt ts mb =
     Some (if pt AND NOT 0x7f \<noteq> 0 then (EINVAL, rs, mb)
      else let (e, mb) = or_put (mbuf_write_mem al) mb (rtp_chunks (rtp_tx_header rs ext marker pt ts))
        in (e, rs\<lparr>rs_seq := rs_seq rs + 1\<rparr>, mb))"
  by (simp add: rtp_encode_def rtp_tx_header_def rtp_hdr_encode_chunks rtp_hdr0_def split_def Let_def)

text \<open>
  C30. Sending needs no memory and cannot fail before the socket: with a 7-bit payload type and
  room for the header in front of the payload, whatever the allocator would answer, exactly
  one datagram is given to the socket.  It consists of the 12 header bytes (with the current
  sequence number and SSRC of the socket) and the unread payload; the sequence number advances by
  one, wrapping at 65535; the result is that of the socket.
\<close>

theorem rtp_send_datagram:
  assumes ok: "mbuf_ok mb" and sz: "mb_size mb < 2 ^ 64" and room: "12 \<le> mb_pos mb" and pt: "pt AND NOT 0x7f = 0"
  shows "\<exists>mb' pkt. pkt = concat (rtp_chunks (rtp_tx_header rs ext marker pt ts)) @ mb_after mb \<and>
    rtp_send al net has_rtcp rs ext marker pt ts mb =
      Some (net pkt, rs\<lparr>rs_seq := rs_seq rs + 1\<rparr>, mb',
       (if has_rtcp then [Rtcp_sess_tx_rtp ts (length (mb_after mb))] else []) @ [Udp_send pkt]) \<and>
    mb_after mb' = pkt \<and> mb_pos mb' = mb_pos mb - 12"
proof -
  let ?c = "rtp_chunks (rtp_tx_header rs ext marker pt ts)"
  define m0 where "m0 = mb\<lparr>mb_pos := mb_pos mb - 12\<rparr>"
  have a0: "mbuf_advance mb (- 12) = m0"
    using room sz mbuf_okD(2,3) [OF ok]
    by (simp add: mbuf_advance_def m0_def nat_diff_distrib)
  have len: "length (concat ?c) = 12" by (simp add: rtp_chunks_length rtp_tx_header_def rtp_hdr0_def)
  have ok0: "mbuf_ok m0" using ok by (auto simp: mbuf_ok_def m0_def)
  obtain m1 where w: "or_put (mbuf_write_mem al) m0 ?c = (OK, m1)"
    using or_put_room [of m0 ?c al] len ok room by (auto simp: m0_def mbuf_ok_def)
  from mb.or_put_ok [OF ok0 w] have ok1: "mbuf_ok m1" and b: "mb_before m1 = mb_before m0 @ concat ?c"
    and a: "mb_after m1 = drop 12 (mb_after m0)" using len by auto
  have "mb_adv m0 12 = mb" using room by (simp add: m0_def mb_adv_def)
  moreover have "12 \<le> mbuf_get_left m0"
    using mbuf_okD(2) [OF ok] room unfolding m0_def mbuf_get_left_diff by simp
  ultimately have a1: "mb_after m1 = mb_after mb" using a mb_adv(3) [OF ok0] by metis
  note bk = mb_back [OF ok0 ok1 b]
  have "take (mbuf_get_left (m1\<lparr>mb_pos := mb_pos m0\<rparr>)) (mbuf_buf (m1\<lparr>mb_pos := mb_pos m0\<rparr>)) =
      concat ?c @ mb_after mb"
    using bk(2) a1 by (simp add: mb_after_def)
  moreover have "mbuf_get_left m1 = length (mb_after mb)" using a1 ok1 by (metis length_mb_after)
  ultimately show ?thesis
    using room pt w bk(2) a1
    by (auto simp: rtp_send_def a0 rtp_encode_alt RTP_HEADER_SIZE_def Let_def)
      (auto simp: m0_def)
qed

theorem rtp_send_datagram_witness:
  "\<exists>mb'. rtp_send (\<lambda>n. None) (\<lambda>p. 0) False \<lparr>rs_seq = 65535, rs_ssrc = 1\<rparr> False True 96 160
       \<lparr>mb_buf = replicate 12 0 @ [5, 6], mb_size = 14, mb_pos = 12, mb_end = 14\<rparr> =
     Some (0, \<lparr>rs_seq = 0, rs_ssrc = 1\<rparr>, mb',
      [Udp_send [0x80, 0xe0, 0xff, 0xff, 0, 0, 0, 160, 0, 0, 0, 1, 5, 6]])"
proof -
  let ?mb = "\<lparr>mb_buf = replicate 12 0 @ [5, 6], mb_size = 14, mb_pos = 12, mb_end = 14\<rparr>"
  let ?rs = "\<lparr>rs_seq = 65535, rs_ssrc = 1\<rparr>"
  have "mbuf_ok ?mb" by (simp add: mbuf_ok_def)
  moreover have "concat (rtp_chunks (rtp_tx_header ?rs False True 96 160)) @ mb_after ?mb =
      [0x80, 0xe0, 0xff, 0xff, 0, 0, 0, 160, 0, 0, 0, 1, 5, 6]" by code_simp
  ultimately show ?thesis
    using rtp_send_datagram [of ?mb 96 ?rs False True 160 "\<lambda>n. None" "\<lambda>p. 0" False] by auto
qed

end
