(* ===== verification/Replay.thy ===== *)
theory Replay
  imports Prelude
begin

text \<open>
  SRTP replay protection, \<^verbatim>\<open>re/src/srtp/replay.c\<close>, and the index estimation of
  \<^verbatim>\<open>re/src/srtp/misc.c\<close>: a 64-bit window below the highest index received, and the guess of
  the 48-bit packet index from a 16-bit sequence number.

  The window is shown to refine a specification that keeps the set of all accepted indices.
\<close>

section \<open>The window\<close>

definition SRTP_WINDOW_SIZE :: u64 where "SRTP_WINDOW_SIZE = 64"

record replay =
  rp_bitmap :: u64
  rp_lix :: u64

definition srtp_replay_init :: replay where
  "srtp_replay_init = \<lparr>rp_bitmap = 0, rp_lix = 0\<rparr>"

definition srtp_replay_check :: "replay \<Rightarrow> u64 \<Rightarrow> bool \<times> replay" where
  "srtp_replay_check rp ix =
     (if ix > rp_lix rp then
        let diff = ix - rp_lix rp in
        (True, rp\<lparr>rp_bitmap := (if diff < SRTP_WINDOW_SIZE then push_bit (unat diff) (rp_bitmap rp) OR 1 else 1),
                  rp_lix := ix\<rparr>)
      else
        let diff = rp_lix rp - ix in
        if diff \<ge> SRTP_WINDOW_SIZE then (False, rp)
        else if rp_bitmap rp AND push_bit (unat diff) 1 \<noteq> 0 then (False, rp)
        else (True, rp\<lparr>rp_bitmap := rp_bitmap rp OR push_bit (unat diff) 1\<rparr>))"

section \<open>The specification: the set of accepted indices\<close>

definition fresh_ix :: "nat set \<Rightarrow> nat \<Rightarrow> bool" where
  "fresh_ix S i \<longleftrightarrow> i \<notin> S \<and> (\<forall>j \<in> S. j < i + 64)"

text \<open>The window \<open>rp\<close> represents the accepted set \<open>S\<close>.\<close>

definition replay_rel :: "replay \<Rightarrow> nat set \<Rightarrow> bool" where
  "replay_rel rp S \<longleftrightarrow>
     (\<forall>j \<in> S. j \<le> unat (rp_lix rp)) \<and> (S = {} \<longrightarrow> rp_lix rp = 0) \<and>
     (S \<noteq> {} \<longrightarrow> unat (rp_lix rp) \<in> S) \<and>
     (\<forall>d < 64. bit (rp_bitmap rp) d \<longleftrightarrow> d \<le> unat (rp_lix rp) \<and> unat (rp_lix rp) - d \<in> S)"

lemma and_exp_bit: "(w :: u64) AND 2 ^ d \<noteq> 0 \<longleftrightarrow> bit w d"
  by (simp add: and_exp_eq_0_iff_not_bit)

lemma replay_relD:
  assumes "replay_rel rp S"
  shows "j \<in> S \<Longrightarrow> j \<le> unat (rp_lix rp)" "S = {} \<Longrightarrow> rp_lix rp = 0"
    "S \<noteq> {} \<Longrightarrow> unat (rp_lix rp) \<in> S"
    "d < 64 \<Longrightarrow> bit (rp_bitmap rp) d \<longleftrightarrow> d \<le> unat (rp_lix rp) \<and> unat (rp_lix rp) - d \<in> S"
  using assms by (auto simp: replay_rel_def)

lemma replay_rel_init: "replay_rel srtp_replay_init {}"
  by (simp add: replay_rel_def srtp_replay_init_def)

lemma replay_ahead:
  assumes rel: "replay_rel rp S" and gt: "rp_lix rp < ix"
  shows "fresh_ix S (unat ix)" "fst (srtp_replay_check rp ix)"
    "replay_rel (snd (srtp_replay_check rp ix)) (insert (unat ix) S)"
proof -
  have lt: "unat (rp_lix rp) < unat ix" using gt by (simp add: word_less_nat_alt)
  then have le: "j < unat ix" if "j \<in> S" for j using replay_relD(1) [OF rel that] by simp
  then show "fresh_ix S (unat ix)" by (force simp: fresh_ix_def)
  show "fst (srtp_replay_check rp ix)" using gt by (simp add: srtp_replay_check_def Let_def)
  define D where "D = unat ix - unat (rp_lix rp)"
  have D: "unat (ix - rp_lix rp) = D" using gt by (simp add: D_def unat_sub order.strict_implies_order)
  have D': "ix - rp_lix rp < SRTP_WINDOW_SIZE \<longleftrightarrow> D < 64"
    by (simp add: word_less_nat_alt D SRTP_WINDOW_SIZE_def)
  have "0 < D" "D \<le> unat ix" "unat (rp_lix rp) = unat ix - D" using lt by (auto simp: D_def)
  note Ds = this
  have shifted: "bit (rp_bitmap (snd (srtp_replay_check rp ix))) d \<longleftrightarrow>
      d = 0 \<or> D \<le> d \<and> D < 64 \<and> bit (rp_bitmap rp) (d - D)" if "d < 64" for d
    using gt that Ds by (auto simp: srtp_replay_check_def D D' Let_def bit_simps)
  have mem: "unat ix - d \<in> S \<longleftrightarrow> D \<le> d \<and> D < 64 \<and> bit (rp_bitmap rp) (d - D)"
    if "d < 64" "0 < d" "d \<le> unat ix" for d
  proof (cases "D \<le> d")
    case True
    then show ?thesis using replay_relD(4) [OF rel, of "d - D"] that Ds by auto
  next
    case False
    then have "unat (rp_lix rp) < unat ix - d" using that Ds by simp
    then show ?thesis using replay_relD(1) [OF rel, of "unat ix - d"] False by force
  qed
  have "d \<le> unat ix" if "d < 64" "D \<le> d" "bit (rp_bitmap rp) (d - D)" for d
  proof -
    have "d - D \<le> unat ix - D" using replay_relD(4) [OF rel, of "d - D"] that Ds(3) by simp
    then show ?thesis using Ds(2) that(2) by linarith
  qed
  note dle = this
  let ?rp = "snd (srtp_replay_check rp ix)"
  have "bit (rp_bitmap ?rp) d \<longleftrightarrow> d \<le> unat ix \<and> unat ix - d \<in> insert (unat ix) S" if "d < 64" for d
  proof (cases "d = 0")
    case False
    then have "unat ix - d \<noteq> unat ix" if "d \<le> unat ix" using that by simp
    then show ?thesis using False shifted [OF that] mem [OF that] dle [OF that] by auto
  qed (simp add: shifted)
  moreover have "rp_lix ?rp = ix" using gt by (simp add: srtp_replay_check_def Let_def)
  ultimately show "replay_rel ?rp (insert (unat ix) S)"
    using le by (auto simp: replay_rel_def less_imp_le)
qed

lemma replay_behind:
  assumes rel: "replay_rel rp S" and le: "\<not> rp_lix rp < ix"
  shows "fst (srtp_replay_check rp ix) \<longleftrightarrow> fresh_ix S (unat ix)"
    "replay_rel (snd (srtp_replay_check rp ix))
       (if fst (srtp_replay_check rp ix) then insert (unat ix) S else S)"
proof -
  have ixle: "unat ix \<le> unat (rp_lix rp)" using le by (simp add: word_le_nat_alt not_less)
  define D where "D = unat (rp_lix rp) - unat ix"
  have D: "unat (rp_lix rp - ix) = D" using le by (simp add: D_def unat_sub not_less)
  have D': "rp_lix rp - ix \<ge> SRTP_WINDOW_SIZE \<longleftrightarrow> \<not> D < 64"
    by (simp add: word_le_nat_alt D SRTP_WINDOW_SIZE_def not_less)
  have ixD: "unat ix = unat (rp_lix rp) - D" "D \<le> unat (rp_lix rp)" using ixle by (auto simp: D_def)
  have chk: "srtp_replay_check rp ix = (if D < 64 \<and> \<not> bit (rp_bitmap rp) D
      then (True, rp\<lparr>rp_bitmap := rp_bitmap rp OR push_bit D 1\<rparr>) else (False, rp))"
    using le by (auto simp: srtp_replay_check_def Let_def D D' and_exp_bit not_le)
  have bitD: "bit (rp_bitmap rp) D \<longleftrightarrow> unat ix \<in> S" if "D < 64"
    using replay_relD(4) [OF rel that] ixD by simp
  have far: "\<not> fresh_ix S (unat ix)" if "\<not> D < 64"
  proof -
    have "S \<noteq> {}" using replay_relD(2) [OF rel] that by (auto simp: D_def)
    then have "unat (rp_lix rp) \<in> S" by (rule replay_relD(3) [OF rel])
    moreover have "\<not> unat (rp_lix rp) < unat ix + 64" using that ixle by (simp add: D_def)
    ultimately show ?thesis by (auto simp: fresh_ix_def)
  qed
  have near: "\<forall>j \<in> S. j < unat ix + 64" if "D < 64"
    using replay_relD(1) [OF rel] that ixle by (fastforce simp: D_def)
  show "fst (srtp_replay_check rp ix) \<longleftrightarrow> fresh_ix S (unat ix)"
    using far near bitD by (auto simp: chk fresh_ix_def)
  show "replay_rel (snd (srtp_replay_check rp ix))
       (if fst (srtp_replay_check rp ix) then insert (unat ix) S else S)"
  proof (cases "D < 64 \<and> \<not> bit (rp_bitmap rp) D")
    case True
    have b: "bit (rp_bitmap rp OR push_bit D 1) d \<longleftrightarrow> d = D \<or> bit (rp_bitmap rp) d" if "d < 64" for d
      using that True by (auto simp: bit_simps)
    have m: "unat (rp_lix rp) - d = unat ix \<longleftrightarrow> d = D" if "d \<le> unat (rp_lix rp)" for d
      using that ixD by auto
    have "S = {} \<Longrightarrow> unat (rp_lix rp) = unat ix" using replay_relD(2) [OF rel] ixle by simp
    then show ?thesis using True rel ixle b m ixD(2)
      by (auto simp: chk replay_rel_def)
  qed (auto simp: chk rel)
qed

lemma replay_step:
  assumes "replay_rel rp S" "srtp_replay_check rp ix = (ok, rp')"
  shows "ok = fresh_ix S (unat ix) \<and> replay_rel rp' (if ok then insert (unat ix) S else S)"
  using replay_ahead [OF assms(1), of ix] replay_behind [OF assms(1), of ix] assms(2)
  by (cases "rp_lix rp < ix") auto

text \<open>
  C7. The 64-bit window implements the specification that remembers every accepted index: a
  packet is accepted exactly if its index was not accepted before and is less than 64 behind the
  highest accepted one, and the window keeps representing the set of accepted indices.
\<close>

theorem srtp_replay_refines:
  assumes "replay_rel rp S" "srtp_replay_check rp ix = (ok, rp')"
  shows "ok = fresh_ix S (unat ix) \<and> replay_rel rp' (if ok then insert (unat ix) S else S)"
  by (rule replay_step [OF assms])

theorem srtp_replay_refines_witness:
  "\<exists>rp'. replay_rel rp' {70} \<and> srtp_replay_check rp' 6 = (False, rp') \<and> fst (srtp_replay_check rp' 7) \<and>
     replay_rel (snd (srtp_replay_check rp' 7)) {7, 70}"
proof -
  obtain ok rp' where r: "srtp_replay_check srtp_replay_init 70 = (ok, rp')" by (metis surj_pair)
  have "ok = fresh_ix {} 70 \<and> replay_rel rp' (if ok then insert 70 {} else {})"
    using srtp_replay_refines [OF replay_rel_init r] by auto
  then have rel: "replay_rel rp' {70}" by (auto simp: fresh_ix_def)
  obtain ok7 rp7 where 7: "srtp_replay_check rp' 7 = (ok7, rp7)" by (metis surj_pair)
  have "srtp_replay_check rp' 6 = (False, rp')"
    using r by (auto simp: srtp_replay_check_def srtp_replay_init_def SRTP_WINDOW_SIZE_def Let_def)
  with rel 7 srtp_replay_refines [OF rel 7] show ?thesis by (auto simp: fresh_ix_def)
qed

text \<open>The window \<open>rp\<close> remembers at least the indices \<open>I\<close>.\<close>

definition covers :: "replay \<Rightarrow> u64 set \<Rightarrow> bool" where
  "covers rp I \<longleftrightarrow> (\<exists>S. replay_rel rp S \<and> unat ` I \<subseteq> S)"

lemma covers_init [simp]: "covers srtp_replay_init {}"
  using replay_rel_init by (auto simp: covers_def)

lemma covers_check:
  assumes "covers rp I" "srtp_replay_check rp ix = (ok, rp')"
  shows "covers rp' I" "ok \<Longrightarrow> ix \<notin> I \<and> covers rp' (insert ix I)"
proof -
  from assms(1) obtain S where S: "replay_rel rp S" "unat ` I \<subseteq> S" by (auto simp: covers_def)
  have "ok = fresh_ix S (unat ix) \<and> replay_rel rp' (if ok then insert (unat ix) S else S)"
    by (rule replay_step [OF S(1) assms(2)])
  with S(2) show "covers rp' I" "ok \<Longrightarrow> ix \<notin> I \<and> covers rp' (insert ix I)"
    by (cases ok; fastforce simp: covers_def fresh_ix_def image_subset_iff)+
qed

section \<open>The packet index\<close>

text \<open>
  The C code computes in \<^verbatim>\<open>int\<close>: the product and the sum wrap at 32 bits (the machine behaviour of
  the signed overflow) and the result is sign-extended to 64 bits.
\<close>

definition srtp_get_index :: "u32 \<Rightarrow> u16 \<Rightarrow> u16 \<Rightarrow> u64" where
  "srtp_get_index roc s_l seq =
     (let v = (if s_l < 32768 then
                 (if uint seq - uint s_l > 32768 then (roc - 1) AND 0xffffffff else roc)
               else
                 (if uint s_l - 32768 > uint seq then (roc + 1) AND 0xffffffff else roc)) :: u32
      in scast (ucast seq + v * 65536 :: u32))"

text \<open>The index the sender uses, \<^verbatim>\<open>65536ULL * strm->roc + hdr.seq\<close>.\<close>

definition srtp_tx_index :: "u32 \<Rightarrow> u16 \<Rightarrow> u64" where
  "srtp_tx_index roc seq = 65536 * ucast roc + ucast seq"

lemma unat_srtp_tx_index: "unat (srtp_tx_index roc seq) = 65536 * unat roc + unat seq"
proof -
  have "unat roc < 2 ^ LENGTH(32)" "unat seq < 2 ^ LENGTH(16)" by (rule unsigned_less)+
  then show ?thesis
    by (simp add: srtp_tx_index_def unat_word_ariths unsigned_ucast_eq take_bit_nat_eq_self)
qed

lemma u16_bounds: "0 \<le> uint (s :: u16)" "uint s < 65536"
  using unsigned_greater_eq [of s] uint_lt2p [of s] by simp_all

lemma index_word:
  assumes "unat (v :: u32) < 32768"
  shows "uint (scast (ucast (seq :: u16) + v * 65536 :: u32) :: u64) = 65536 * uint v + uint seq"
proof -
  define x where "x = 65536 * uint v + uint seq"
  have v: "0 \<le> uint v" "uint v < 32768" using assms uint_nat [of v] by linarith+
  then have x: "0 \<le> x" "x < 2147483648" using u16_bounds [of seq] by (simp_all add: x_def)
  have w: "ucast seq + v * 65536 = (word_of_int x :: u32)"
    by (simp add: x_def ac_simps)
  have "sint (word_of_int x :: u32) = x"
    using x by (simp add: sint_sbintrunc' signed_take_bit_int_eq_self)
  then have "scast (word_of_int x :: u32) = (word_of_int x :: u64)" by (simp add: scast_eq)
  then show ?thesis using x by (simp add: w uint_word_of_int flip: x_def)
qed

lemma index_agree:
  assumes "unat roc < 32768" "- 32768 \<le> uint seq - uint s_l" "uint seq - uint s_l \<le> 32768"
  shows "srtp_get_index roc s_l seq = srtp_tx_index roc seq"
proof -
  have "srtp_get_index roc s_l seq = scast (ucast seq + roc * 65536 :: u32)"
    using assms(2,3) by (simp add: srtp_get_index_def)
  moreover have "uint (scast (ucast seq + roc * 65536 :: u32) :: u64) = uint (srtp_tx_index roc seq)"
    unfolding index_word [OF assms(1)]
    by (simp only: uint_nat unat_srtp_tx_index of_nat_add of_nat_mult of_nat_numeral)
  ultimately show ?thesis by (simp add: word_uint_eq_iff)
qed

lemma nearest_int:
  fixes s l d :: int
  assumes "0 \<le> s" "s < 65536" "0 \<le> l" "l < 65536"
    "d = (if l < 32768 then if s - l > 32768 then -1 else 0 else if l - 32768 > s then 1 else 0)"
  shows "\<bar>65536 * d + s - l\<bar> \<le> 32768"
  using assms by (auto split: if_splits)

text \<open>
  C31. As long as the roll-over counter is between 1 and 32766, the estimated index has the
  received sequence number as its low 16 bits and is the closest such index to the reference
  point (roll-over counter and highest sequence number): at most 32768 away.
\<close>

theorem srtp_get_index_nearest:
  assumes "1 \<le> unat roc" "unat roc < 32767"
  shows "uint (srtp_get_index roc s_l seq) mod 65536 = uint seq \<and>
    \<bar>uint (srtp_get_index roc s_l seq) - (65536 * uint roc + uint s_l)\<bar> \<le> 32768"
proof -
  have r: "1 \<le> uint roc" "uint roc < 32767" using assms uint_nat [of roc] by linarith+
  have u: "uint (roc + 1) = uint roc + 1" "uint (roc - 1) = uint roc - 1"
    using r by (simp_all add: uint_word_ariths)
  then have s: "unat (roc + 1) < 32768" "unat (roc - 1) < 32768" "unat roc < 32768"
    using r uint_nat [of "roc + 1"] uint_nat [of "roc - 1"] uint_nat [of roc] by linarith+
  have "(0xffffffff :: u32) = - 1" by simp
  then have m: "(w :: u32) AND 0xffffffff = w" for w by (simp only: and.right_neutral)
  define v where "v = (if s_l < 32768 then (if uint seq - uint s_l > 32768 then roc - 1 else roc)
      else if uint s_l - 32768 > uint seq then roc + 1 else roc)"
  have idx: "srtp_get_index roc s_l seq = scast (ucast seq + v * 65536 :: u32)"
    by (simp only: srtp_get_index_def Let_def m v_def)
  have "v \<in> {roc, roc + 1, roc - 1}" by (simp add: v_def)
  then have "uint (srtp_get_index roc s_l seq) = 65536 * uint v + uint seq"
    unfolding idx using s by (intro index_word) auto
  moreover have "uint v - uint roc = (if uint s_l < 32768 then if uint seq - uint s_l > 32768 then -1 else 0
      else if uint s_l - 32768 > uint seq then 1 else 0)"
    by (simp add: v_def u word_less_def)
  from nearest_int [OF u16_bounds u16_bounds this]
  have "\<bar>65536 * (uint v - uint roc) + uint seq - uint s_l\<bar> \<le> 32768" .
  ultimately show ?thesis using u16_bounds [of seq] by (simp add: algebra_simps)
qed

theorem srtp_get_index_nearest_witness:
  "1 \<le> unat (3 :: u32) \<and> unat (3 :: u32) < 32767 \<and> srtp_get_index 3 65530 2 = 65536 * 4 + 2 \<and>
   \<bar>uint (srtp_get_index 3 65530 2) - (65536 * uint (3 :: u32) + uint (65530 :: u16))\<bar> \<le> 32768"
proof -
  have "srtp_get_index 3 65530 2 = 65536 * 4 + 2" by code_simp
  then show ?thesis using srtp_get_index_nearest [of 3 65530 2] by simp
qed

text \<open>
  The estimate is wrong once the roll-over counter reaches 32768: the 32-bit signed product
  overflows, and the index differs from the one the sender used for the same packet.
\<close>

theorem srtp_get_index_overflow:
  "srtp_get_index 32768 100 101 \<noteq> srtp_tx_index 32768 101 \<and>
   srtp_get_index 65536 100 101 = srtp_get_index 0 100 101"
  by code_simp

end
