(* ===== verification/Srtp.thy ===== *)
theory Srtp
  imports Rtp Replay
begin

text \<open>
  Secure RTP and RTCP, \<^verbatim>\<open>re/src/srtp/{srtp,srtcp,stream,misc}.c\<close>: the session with its key
  material and its table of streams, the key derivation, the initialisation vectors, and the
  protection and unprotection of packets in place.

  The block cipher and the MAC are calls into the crypto library: they are the fields of a
  record of functions, the parameter \<open>cr\<close>.  A cipher context has a state of type \<open>'a\<close> that
  every call may change; encryption and decryption return the bytes they leave in the output
  buffer also when they fail.  The result of \<^verbatim>\<open>mem_zalloc\<close> is the parameter \<open>mok\<close>.

  The C code holds a pointer to the stream it works on; the SSRC is the key of the stream list,
  so the model writes the stream back under its SSRC.  A function ends in several steps
  (\<open>_ctr\<close>, \<open>_gcm\<close>, \<open>_hmac\<close>), which are the branches of the C function.
\<close>

section \<open>Parameters of the model\<close>

datatype aes_mode = AES_MODE_CTR | AES_MODE_GCM

record ('a, 'h) crypto =
  aes_alloc :: "aes_mode \<Rightarrow> byte list \<Rightarrow> byte list option \<Rightarrow> err + 'a"
  aes_set_iv :: "'a \<Rightarrow> byte list \<Rightarrow> 'a"
  aes_encr :: "'a \<Rightarrow> byte list \<Rightarrow> err \<times> byte list \<times> 'a"
  aes_encr_aad :: "'a \<Rightarrow> byte list \<Rightarrow> err \<times> 'a"
  aes_decr :: "'a \<Rightarrow> byte list \<Rightarrow> err \<times> byte list \<times> 'a"
  aes_decr_aad :: "'a \<Rightarrow> byte list \<Rightarrow> err \<times> 'a"
  aes_get_authtag :: "'a \<Rightarrow> nat \<Rightarrow> err \<times> byte list \<times> 'a"
  aes_authenticate :: "'a \<Rightarrow> byte list \<Rightarrow> err \<times> 'a"
  hmac_create :: "byte list \<Rightarrow> err + 'h"
  hmac_digest :: "'h \<Rightarrow> byte list \<Rightarrow> err \<times> byte list"

section \<open>Sessions and streams\<close>

definition GCM_TAGLEN :: nat where "GCM_TAGLEN = 16"
definition MAX_KEYLEN :: nat where "MAX_KEYLEN = 32"
definition SHA_DIGEST_LENGTH :: nat where "SHA_DIGEST_LENGTH = 20"
definition SRTP_MAX_STREAMS :: nat where "SRTP_MAX_STREAMS = 8"

record srtp_stream =
  replay_rtp :: replay
  replay_rtcp :: replay
  ss_ssrc :: u32
  ss_roc :: u32
  ss_s_l :: u16
  ss_s_l_set :: bool
  ss_rtcp_index :: u32

record ('a, 'h) comp =
  c_aes :: "'a option"
  c_mode :: aes_mode
  c_hmac :: "'h option"
  c_k_s :: "byte list"
  c_tag_len :: nat

record ('a, 'h) srtp =
  sr_rtp :: "('a, 'h) comp"
  sr_rtcp :: "('a, 'h) comp"
  sr_streaml :: "srtp_stream list"

datatype srtp_suite =
    SRTP_AES_CM_128_HMAC_SHA1_32
  | SRTP_AES_CM_128_HMAC_SHA1_80
  | SRTP_AES_256_CM_HMAC_SHA1_32
  | SRTP_AES_256_CM_HMAC_SHA1_80
  | SRTP_AES_128_GCM
  | SRTP_AES_256_GCM

definition stream_find :: "('a, 'h) srtp \<Rightarrow> u32 \<Rightarrow> srtp_stream option" where
  "stream_find srtp ssrc = find (\<lambda>strm. ss_ssrc strm = ssrc) (sr_streaml srtp)"

definition stream_new :: "bool \<Rightarrow> ('a, 'h) srtp \<Rightarrow> u32 \<Rightarrow> err + srtp_stream \<times> ('a, 'h) srtp" where
  "stream_new mok srtp ssrc =
     (if length (sr_streaml srtp) \<ge> SRTP_MAX_STREAMS then Inl ENOSR
      else if \<not> mok then Inl ENOMEM
      else let strm = \<lparr>replay_rtp = srtp_replay_init, replay_rtcp = srtp_replay_init, ss_ssrc = ssrc,
                       ss_roc = 0, ss_s_l = 0, ss_s_l_set = False, ss_rtcp_index = 0\<rparr>
        in Inr (strm, srtp\<lparr>sr_streaml := sr_streaml srtp @ [strm]\<rparr>))"

definition stream_get :: "bool \<Rightarrow> ('a, 'h) srtp \<Rightarrow> u32 \<Rightarrow> err + srtp_stream \<times> ('a, 'h) srtp" where
  "stream_get mok srtp ssrc =
     (case stream_find srtp ssrc of
        Some strm \<Rightarrow> Inr (strm, srtp)
      | None \<Rightarrow> stream_new mok srtp ssrc)"

definition stream_put :: "('a, 'h) srtp \<Rightarrow> srtp_stream \<Rightarrow> ('a, 'h) srtp" where
  "stream_put srtp strm =
     srtp\<lparr>sr_streaml := map (\<lambda>s. if ss_ssrc s = ss_ssrc strm then strm else s) (sr_streaml srtp)\<rparr>"

definition stream_get_seq ::
  "bool \<Rightarrow> ('a, 'h) srtp \<Rightarrow> u32 \<Rightarrow> u16 \<Rightarrow> err + srtp_stream \<times> ('a, 'h) srtp" where
  "stream_get_seq mok srtp ssrc seq =
     (case stream_get mok srtp ssrc of
        Inl e \<Rightarrow> Inl e
      | Inr (strm, srtp) \<Rightarrow>
          let strm = (if \<not> ss_s_l_set strm then strm\<lparr>ss_s_l := seq, ss_s_l_set := True\<rparr> else strm)
          in Inr (strm, stream_put srtp strm))"

section \<open>Key derivation and session set-up\<close>

definition srtp_derive ::
  "('a, 'h) crypto \<Rightarrow> nat \<Rightarrow> byte \<Rightarrow> byte list \<Rightarrow> byte list \<Rightarrow> err \<times> byte list" where
  "srtp_derive cr out_len label master_key master_salt =
     (if out_len > 32 \<or> length master_salt > 16 then (EINVAL, [])
      else let x = poke 0 master_salt (replicate 16 0); x = x[7 := x ! 7 XOR label] in
        case aes_alloc cr AES_MODE_CTR master_key (Some x) of
          Inl e \<Rightarrow> (e, [])
        | Inr aes \<Rightarrow> (let (e, out, _) = aes_encr cr aes (replicate out_len 0) in (e, out)))"

definition comp0 :: "('a, 'h) comp" where
  "comp0 = \<lparr>c_aes = None, c_mode = AES_MODE_CTR, c_hmac = None, c_k_s = replicate 16 0, c_tag_len = 0\<rparr>"

definition comp_init ::
  "('a, 'h) crypto \<Rightarrow> ('a, 'h) comp \<Rightarrow> byte \<Rightarrow> byte list \<Rightarrow> byte list \<Rightarrow> nat \<Rightarrow> bool \<Rightarrow> bool \<Rightarrow> aes_mode \<Rightarrow>
     err \<times> ('a, 'h) comp" where
  "comp_init cr c offs key s tag_len encrypted hash mode =
     (if length key > MAX_KEYLEN then (EINVAL, c)
      else if tag_len > SHA_DIGEST_LENGTH then (EINVAL, c)
      else let c = c\<lparr>c_tag_len := tag_len, c_mode := mode\<rparr>;
             (e1, k_e) = srtp_derive cr (length key) (0x00 + offs) key s;
             (e2, k_a) = srtp_derive cr SHA_DIGEST_LENGTH (0x01 + offs) key s;
             (e3, k_s) = srtp_derive cr 14 (0x02 + offs) key s;
             c = c\<lparr>c_k_s := poke 0 k_s (c_k_s c)\<rparr>
      in if e1 OR e2 OR e3 \<noteq> OK then (e1 OR e2 OR e3, c)
      else case (if encrypted then map_sum id Some (aes_alloc cr mode k_e None) else Inr (c_aes c)) of
        Inl e \<Rightarrow> (e, c)
      | Inr aes \<Rightarrow> let c = c\<lparr>c_aes := aes\<rparr> in
          case (if hash then map_sum id Some (hmac_create cr k_a) else Inr (c_hmac c)) of
            Inl e \<Rightarrow> (e, c)
          | Inr hmac \<Rightarrow> (OK, c\<lparr>c_hmac := hmac\<rparr>))"

text \<open>The table of the switch: mode, cipher bytes, salt bytes, tag bytes, and whether a MAC is used.\<close>

fun srtp_suite_params :: "srtp_suite \<Rightarrow> aes_mode \<times> nat \<times> nat \<times> nat \<times> bool" where
  "srtp_suite_params SRTP_AES_CM_128_HMAC_SHA1_80 = (AES_MODE_CTR, 16, 14, 10, True)"
| "srtp_suite_params SRTP_AES_CM_128_HMAC_SHA1_32 = (AES_MODE_CTR, 16, 14, 4, True)"
| "srtp_suite_params SRTP_AES_256_CM_HMAC_SHA1_80 = (AES_MODE_CTR, 32, 14, 10, True)"
| "srtp_suite_params SRTP_AES_256_CM_HMAC_SHA1_32 = (AES_MODE_CTR, 32, 14, 4, True)"
| "srtp_suite_params SRTP_AES_128_GCM = (AES_MODE_GCM, 16, 12, 0, False)"
| "srtp_suite_params SRTP_AES_256_GCM = (AES_MODE_GCM, 32, 12, 0, False)"

definition SRTP_UNENCRYPTED_SRTCP :: u32 where "SRTP_UNENCRYPTED_SRTCP = 2"

definition srtp_alloc ::
  "('a, 'h) crypto \<Rightarrow> bool \<Rightarrow> srtp_suite \<Rightarrow> byte list \<Rightarrow> u32 \<Rightarrow> err + ('a, 'h) srtp" where
  "srtp_alloc cr mok suite key flags =
     (let (mode, cipher_bytes, salt_bytes, auth_bytes, hash) = srtp_suite_params suite in
      if cipher_bytes + salt_bytes \<noteq> length key then Inl EINVAL
      else if \<not> mok then Inl ENOMEM
      else let master_key = take cipher_bytes key; master_salt = drop cipher_bytes key;
             (e1, rtp) = comp_init cr comp0 0 master_key master_salt auth_bytes True hash mode;
             (e2, rtcp) = comp_init cr comp0 3 master_key master_salt auth_bytes
                (flags AND SRTP_UNENCRYPTED_SRTCP = 0) hash mode
      in if e1 OR e2 \<noteq> OK then Inl (e1 OR e2)
      else Inr \<lparr>sr_rtp = rtp, sr_rtcp = rtcp, sr_streaml = []\<rparr>)"

section \<open>Initialisation vectors\<close>

text \<open>A \<^verbatim>\<open>union vect128\<close> is its 16 bytes; the 12-byte vector of GCM is its first 12 bytes.\<close>

definition v_u32 :: "byte list \<Rightarrow> nat \<Rightarrow> u32" where
  "v_u32 v i = of_le32 (take 4 (drop (4 * i) v))"

definition v_u16 :: "byte list \<Rightarrow> nat \<Rightarrow> u16" where
  "v_u16 v i = of_le16 (take 2 (drop (2 * i) v))"

definition srtp_iv_calc :: "byte list \<Rightarrow> u32 \<Rightarrow> u64 \<Rightarrow> byte list" where
  "srtp_iv_calc k_s ssrc ix =
     le32 (v_u32 k_s 0) @ le32 (v_u32 k_s 1 XOR htonl ssrc) @
     le32 (v_u32 k_s 2 XOR htonl (ucast (drop_bit 16 ix))) @
     le16 (v_u16 k_s 6 XOR htons (ucast ix)) @ le16 0"

definition srtp_iv_calc_gcm :: "byte list \<Rightarrow> u32 \<Rightarrow> u64 \<Rightarrow> byte list" where
  "srtp_iv_calc_gcm k_s ssrc ix =
     le16 (v_u16 k_s 0) @ le16 (v_u16 k_s 1 XOR htons (ucast (drop_bit 16 ssrc))) @
     le16 (v_u16 k_s 2 XOR htons (ucast (ssrc AND 0xffff))) @
     le16 (v_u16 k_s 3 XOR htons (ucast (drop_bit 32 ix AND 0xffff))) @
     le16 (v_u16 k_s 4 XOR htons (ucast (drop_bit 16 ix AND 0xffff))) @
     le16 (v_u16 k_s 5 XOR htons (ucast (ix AND 0xffff)))"

section \<open>Protecting RTP packets\<close>

definition seq_diff :: "u16 \<Rightarrow> u16 \<Rightarrow> int" where
  "seq_diff x y = uint y - uint x"

text \<open>A cipher call in place on the \<open>n\<close> bytes at the position.\<close>

definition aes_inplace ::
  "('a \<Rightarrow> byte list \<Rightarrow> err \<times> byte list \<times> 'a) \<Rightarrow> 'a \<Rightarrow> nat \<Rightarrow> mbuf \<Rightarrow> err \<times> 'a \<times> mbuf" where
  "aes_inplace f aes n mb =
     (let (e, out, aes) = f aes (take n (mbuf_buf mb))
      in (e, aes, mb\<lparr>mb_buf := poke (mb_pos mb) out (mb_buf mb)\<rparr>))"

definition mb_bytes :: "mbuf \<Rightarrow> nat \<Rightarrow> nat \<Rightarrow> byte list" where
  "mb_bytes mb p n = take n (drop p (mb_buf mb))"

definition srtp_encrypt_ctr ::
  "('a, 'h) crypto \<Rightarrow> 'a \<Rightarrow> byte list \<Rightarrow> u32 \<Rightarrow> u64 \<Rightarrow> mbuf \<Rightarrow> err \<times> 'a \<times> mbuf" where
  "srtp_encrypt_ctr cr aes k_s ssrc ix mb =
     aes_inplace (aes_encr cr) (aes_set_iv cr aes (srtp_iv_calc k_s ssrc ix)) (mbuf_get_left mb) mb"

definition srtp_encrypt_gcm ::
  "allocator \<Rightarrow> ('a, 'h) crypto \<Rightarrow> 'a \<Rightarrow> byte list \<Rightarrow> u32 \<Rightarrow> u64 \<Rightarrow> nat \<Rightarrow> mbuf \<Rightarrow> err \<times> 'a \<times> mbuf" where
  "srtp_encrypt_gcm al cr aes k_s ssrc ix start mb =
     (let aes = aes_set_iv cr aes (srtp_iv_calc_gcm k_s ssrc ix);
          (e, aes) = aes_encr_aad cr aes (mb_bytes mb start (mb_pos mb - start))
      in if e \<noteq> OK then (e, aes, mb)
      else let (e, aes, mb) = aes_inplace (aes_encr cr) aes (mbuf_get_left mb) mb
      in if e \<noteq> OK then (e, aes, mb)
      else let (e, tag, aes) = aes_get_authtag cr aes GCM_TAGLEN
      in if e \<noteq> OK then (e, aes, mb)
      else let mb = mb\<lparr>mb_pos := mb_end mb\<rparr>; (e, mb) = mbuf_write_mem al mb tag
      in (e, aes, mb))"

definition srtp_encrypt_cipher ::
  "allocator \<Rightarrow> ('a, 'h) crypto \<Rightarrow> ('a, 'h) comp \<Rightarrow> u32 \<Rightarrow> u64 \<Rightarrow> nat \<Rightarrow> mbuf \<Rightarrow>
     err \<times> ('a, 'h) comp \<times> mbuf" where
  "srtp_encrypt_cipher al cr cm ssrc ix start mb =
     (case c_aes cm of
        None \<Rightarrow> (OK, cm, mb)
      | Some aes \<Rightarrow>
          let (e, aes, mb) = (case c_mode cm of
                AES_MODE_CTR \<Rightarrow> srtp_encrypt_ctr cr aes (c_k_s cm) ssrc ix mb
              | AES_MODE_GCM \<Rightarrow> srtp_encrypt_gcm al cr aes (c_k_s cm) ssrc ix start mb)
          in (e, cm\<lparr>c_aes := Some aes\<rparr>, mb))"

definition srtp_encrypt_hmac ::
  "allocator \<Rightarrow> ('a, 'h) crypto \<Rightarrow> 'h \<Rightarrow> nat \<Rightarrow> u32 \<Rightarrow> nat \<Rightarrow> mbuf \<Rightarrow> err \<times> mbuf" where
  "srtp_encrypt_hmac al cr hmac tag_len roc start mb =
     (let tag_start = mb_end mb;
          (e, mb) = mbuf_write_u32 al (mb\<lparr>mb_pos := tag_start\<rparr>) (htonl roc)
      in if e \<noteq> OK then (e, mb)
      else let mb = mb\<lparr>mb_pos := start\<rparr>;
             (e, tag) = hmac_digest cr hmac (take (mbuf_get_left mb) (mbuf_buf mb))
      in if e \<noteq> OK then (e, mb)
      else mbuf_write_mem al (mb\<lparr>mb_pos := tag_start, mb_end := tag_start\<rparr>) (take tag_len tag))"

text \<open>The roll-over counter, updated in the same way on both sides.\<close>

definition srtp_roc_update :: "srtp_stream \<Rightarrow> u16 \<Rightarrow> srtp_stream" where
  "srtp_roc_update strm seq =
     (if seq_diff (ss_s_l strm) seq \<le> -32768 then strm\<lparr>ss_roc := ss_roc strm + 1, ss_s_l := 0\<rparr> else strm)"

text \<open>The part of \<^verbatim>\<open>srtp_encrypt\<close> after the stream look-up.\<close>

definition srtp_encrypt_packet ::
  "allocator \<Rightarrow> ('a, 'h) crypto \<Rightarrow> nat \<Rightarrow> rtp_header \<Rightarrow> srtp_stream \<Rightarrow> ('a, 'h) srtp \<Rightarrow> mbuf \<Rightarrow>
     err \<times> ('a, 'h) srtp \<times> mbuf" where
  "srtp_encrypt_packet al cr start hdr strm srtp mb =
     (let ix = 65536 * ucast (ss_roc strm) + ucast (rh_seq hdr);
          srtp = stream_put srtp strm;
          (e, cm, mb) = srtp_encrypt_cipher al cr (sr_rtp srtp) (ss_ssrc strm) ix start mb;
          srtp = srtp\<lparr>sr_rtp := cm\<rparr>
      in if e \<noteq> OK then (e, srtp, mb)
      else let (e, mb) = (case c_hmac cm of
              None \<Rightarrow> (OK, mb)
            | Some hmac \<Rightarrow> srtp_encrypt_hmac al cr hmac (c_tag_len cm) (ss_roc strm) start mb)
      in if e \<noteq> OK then (e, srtp, mb)
      else let strm = (if rh_seq hdr > ss_s_l strm then strm\<lparr>ss_s_l := rh_seq hdr\<rparr> else strm)
      in (OK, stream_put srtp strm, mb\<lparr>mb_pos := start\<rparr>))"

definition srtp_encrypt ::
  "allocator \<Rightarrow> ('a, 'h) crypto \<Rightarrow> bool \<Rightarrow> ('a, 'h) srtp \<Rightarrow> mbuf \<Rightarrow> err \<times> ('a, 'h) srtp \<times> mbuf" where
  "srtp_encrypt al cr mok srtp mb =
     (let start = mb_pos mb; (e, hdr, mb) = rtp_hdr_decode rtp_hdr0 mb
      in if e \<noteq> OK then (e, srtp, mb)
      else case stream_get_seq mok srtp (rh_ssrc hdr) (rh_seq hdr) of
        Inl e \<Rightarrow> (e, srtp, mb)
      | Inr (strm, srtp) \<Rightarrow>
          srtp_encrypt_packet al cr start hdr (srtp_roc_update strm (rh_seq hdr)) srtp mb)"

section \<open>Unprotecting RTP packets\<close>

text \<open>
  The first part of \<^verbatim>\<open>srtp_decrypt\<close>, up to the packet index: the header, the stream, and the
  roll-over counter.
\<close>

definition srtp_decrypt_index ::
  "bool \<Rightarrow> ('a, 'h) srtp \<Rightarrow> mbuf \<Rightarrow> err \<times> ('a, 'h) srtp \<times> mbuf \<times> rtp_header \<times> srtp_stream option \<times> u64" where
  "srtp_decrypt_index mok srtp mb =
     (let (e, hdr, mb) = rtp_hdr_decode rtp_hdr0 mb
      in if e \<noteq> OK then (e, srtp, mb, hdr, None, 0)
      else case stream_get_seq mok srtp (rh_ssrc hdr) (rh_seq hdr) of
        Inl e \<Rightarrow> (e, srtp, mb, hdr, None, 0)
      | Inr (strm, srtp) \<Rightarrow>
          let diff = seq_diff (ss_s_l strm) (rh_seq hdr)
          in if diff > 32768 then (ETIMEDOUT, srtp, mb, hdr, Some strm, 0)
          else let strm = srtp_roc_update strm (rh_seq hdr)
          in (OK, stream_put srtp strm, mb, hdr, Some strm,
              srtp_get_index (ss_roc strm) (ss_s_l strm) (rh_seq hdr)))"

definition srtp_decrypt_hmac ::
  "allocator \<Rightarrow> ('a, 'h) crypto \<Rightarrow> 'h \<Rightarrow> nat \<Rightarrow> u32 \<Rightarrow> nat \<Rightarrow> u64 \<Rightarrow> replay \<Rightarrow> mbuf \<Rightarrow>
     err \<times> replay \<times> mbuf" where
  "srtp_decrypt_hmac al cr hmac tag_len roc start ix rp mb =
     (if mbuf_get_left mb < tag_len then (EBADMSG, rp, mb)
      else let pld_start = mb_pos mb; tag_start = mb_end mb - tag_len;
             (e, tag_pkt, mb) = mbuf_read_mem (mb\<lparr>mb_pos := tag_start\<rparr>) tag_len
      in if e \<noteq> OK then (e, rp, mb)
      else let (e, mb) = mbuf_write_u32 al (mb\<lparr>mb_pos := tag_start, mb_end := tag_start\<rparr>) (htonl roc)
      in if e \<noteq> OK then (e, rp, mb)
      else let mb = mb\<lparr>mb_pos := start\<rparr>;
             (e, tag_calc) = hmac_digest cr hmac (take (mbuf_get_left mb) (mbuf_buf mb))
      in if e \<noteq> OK then (e, rp, mb)
      else let mb = mb\<lparr>mb_pos := pld_start, mb_end := tag_start\<rparr>
      in if take tag_len tag_calc \<noteq> tag_pkt then (EAUTH, rp, mb)
      else let (ok, rp) = srtp_replay_check rp ix
      in (if \<not> ok then EALREADY else OK, rp, mb))"

definition srtp_decrypt_ctr ::
  "('a, 'h) crypto \<Rightarrow> 'a \<Rightarrow> byte list \<Rightarrow> u32 \<Rightarrow> u64 \<Rightarrow> mbuf \<Rightarrow> err \<times> 'a \<times> mbuf" where
  "srtp_decrypt_ctr cr aes k_s ssrc ix mb =
     aes_inplace (aes_decr cr) (aes_set_iv cr aes (srtp_iv_calc k_s ssrc ix)) (mbuf_get_left mb) mb"

definition srtp_decrypt_gcm ::
  "('a, 'h) crypto \<Rightarrow> 'a \<Rightarrow> byte list \<Rightarrow> u32 \<Rightarrow> u64 \<Rightarrow> nat \<Rightarrow> replay \<Rightarrow> mbuf \<Rightarrow> err \<times> 'a \<times> replay \<times> mbuf" where
  "srtp_decrypt_gcm cr aes k_s ssrc ix start rp mb =
     (let aes = aes_set_iv cr aes (srtp_iv_calc_gcm k_s ssrc ix);
          (e, aes) = aes_decr_aad cr aes (mb_bytes mb start (mb_pos mb - start))
      in if e \<noteq> OK then (e, aes, rp, mb)
      else if mbuf_get_left mb < GCM_TAGLEN then (EBADMSG, aes, rp, mb)
      else let tag_start = mb_end mb - GCM_TAGLEN;
             (e, aes, mb) = aes_inplace (aes_decr cr) aes (tag_start - mb_pos mb) mb
      in if e \<noteq> OK then (e, aes, rp, mb)
      else let (e, aes) = aes_authenticate cr aes (mb_bytes mb tag_start GCM_TAGLEN)
      in if e \<noteq> OK then (e, aes, rp, mb)
      else let mb = mb\<lparr>mb_end := tag_start\<rparr>; (ok, rp) = srtp_replay_check rp ix
      in (if \<not> ok then EALREADY else OK, aes, rp, mb))"

definition srtp_decrypt_cipher ::
  "('a, 'h) crypto \<Rightarrow> ('a, 'h) comp \<Rightarrow> u32 \<Rightarrow> u64 \<Rightarrow> nat \<Rightarrow> replay \<Rightarrow> mbuf \<Rightarrow>
     err \<times> ('a, 'h) comp \<times> replay \<times> mbuf" where
  "srtp_decrypt_cipher cr cm ssrc ix start rp mb =
     (case c_aes cm of
        None \<Rightarrow> (OK, cm, rp, mb)
      | Some aes \<Rightarrow>
          (case c_mode cm of
             AES_MODE_CTR \<Rightarrow>
               let (e, aes, mb) = srtp_decrypt_ctr cr aes (c_k_s cm) ssrc ix mb
               in (e, cm\<lparr>c_aes := Some aes\<rparr>, rp, mb)
           | AES_MODE_GCM \<Rightarrow>
               let (e, aes, rp, mb) = srtp_decrypt_gcm cr aes (c_k_s cm) ssrc ix start rp mb
               in (e, cm\<lparr>c_aes := Some aes\<rparr>, rp, mb)))"

text \<open>The second part: authentication and replay check, decryption, and the stream update.\<close>

definition srtp_decrypt_packet ::
  "allocator \<Rightarrow> ('a, 'h) crypto \<Rightarrow> nat \<Rightarrow> rtp_header \<Rightarrow> srtp_stream \<Rightarrow> u64 \<Rightarrow> ('a, 'h) srtp \<Rightarrow> mbuf \<Rightarrow>
     err \<times> ('a, 'h) srtp \<times> mbuf" where
  "srtp_decrypt_packet al cr start hdr strm ix srtp mb =
     (let cm = sr_rtp srtp;
          (e, rp, mb) = (case c_hmac cm of
             None \<Rightarrow> (OK, replay_rtp strm, mb)
           | Some hmac \<Rightarrow> srtp_decrypt_hmac al cr hmac (c_tag_len cm) (ss_roc strm) start ix
               (replay_rtp strm) mb);
          strm = strm\<lparr>replay_rtp := rp\<rparr>; srtp = stream_put srtp strm
      in if e \<noteq> OK then (e, srtp, mb)
      else let (e, cm, rp, mb) = srtp_decrypt_cipher cr cm (ss_ssrc strm) ix start (replay_rtp strm) mb;
             strm = strm\<lparr>replay_rtp := rp\<rparr>; srtp = stream_put (srtp\<lparr>sr_rtp := cm\<rparr>) strm
      in if e \<noteq> OK then (e, srtp, mb)
      else let strm = (if rh_seq hdr > ss_s_l strm then strm\<lparr>ss_s_l := rh_seq hdr\<rparr> else strm)
      in (OK, stream_put srtp strm, mb\<lparr>mb_pos := start\<rparr>))"

definition srtp_decrypt ::
  "allocator \<Rightarrow> ('a, 'h) crypto \<Rightarrow> bool \<Rightarrow> ('a, 'h) srtp \<Rightarrow> mbuf \<Rightarrow> err \<times> ('a, 'h) srtp \<times> mbuf" where
  "srtp_decrypt al cr mok srtp mb =
     (let start = mb_pos mb in
      case srtp_decrypt_index mok srtp mb of
        (e, srtp, mb, hdr, None, ix) \<Rightarrow> (e, srtp, mb)
      | (e, srtp, mb, hdr, Some strm, ix) \<Rightarrow>
      if e \<noteq> OK then (e, srtp, mb)
      else srtp_decrypt_packet al cr start hdr strm ix srtp mb)"

section \<open>RTCP packets\<close>

definition get_rtcp_ssrc :: "mbuf \<Rightarrow> err \<times> u32 \<times> mbuf" where
  "get_rtcp_ssrc mb =
     (if mbuf_get_left mb < 8 then (EBADMSG, 0, mb)
      else let (v, mb) = mbuf_read_u32 (mbuf_advance mb 4) in (OK, ntohl v, mb))"

text \<open>The E-bit, the 31-bit index, and their 32-bit word on the wire.\<close>

definition srtcp_eix :: "bool \<Rightarrow> u32 \<Rightarrow> u32" where
  "srtcp_eix ep ix = push_bit 31 (of_bool ep) OR ix"

definition srtcp_encrypt_gcm ::
  "allocator \<Rightarrow> ('a, 'h) crypto \<Rightarrow> 'a \<Rightarrow> byte list \<Rightarrow> u32 \<Rightarrow> u32 \<Rightarrow> nat \<Rightarrow> mbuf \<Rightarrow> err \<times> 'a \<times> mbuf" where
  "srtcp_encrypt_gcm al cr aes k_s ssrc ix start mb =
     (let aes = aes_set_iv cr aes (srtp_iv_calc_gcm k_s ssrc (ucast ix));
          (e1, aes) = aes_encr_aad cr aes (mb_bytes mb start (mb_pos mb - start));
          (e2, aes) = aes_encr_aad cr aes (be32 (srtcp_eix True ix))
      in if e1 OR e2 \<noteq> OK then (e1 OR e2, aes, mb)
      else let (e, aes, mb) = aes_inplace (aes_encr cr) aes (mbuf_get_left mb) mb
      in if e \<noteq> OK then (e, aes, mb)
      else let (e, tag, aes) = aes_get_authtag cr aes GCM_TAGLEN
      in if e \<noteq> OK then (e, aes, mb)
      else let mb = mb\<lparr>mb_pos := mb_end mb\<rparr>; (e, mb) = mbuf_write_mem al mb tag
      in (e, aes, mb))"

definition srtcp_encrypt_cipher ::
  "allocator \<Rightarrow> ('a, 'h) crypto \<Rightarrow> ('a, 'h) comp \<Rightarrow> u32 \<Rightarrow> u32 \<Rightarrow> nat \<Rightarrow> mbuf \<Rightarrow>
     err \<times> bool \<times> ('a, 'h) comp \<times> mbuf" where
  "srtcp_encrypt_cipher al cr cm ssrc ix start mb =
     (case c_aes cm of
        None \<Rightarrow> (OK, False, cm, mb)
      | Some aes \<Rightarrow>
          let (e, aes, mb) = (case c_mode cm of
                AES_MODE_CTR \<Rightarrow> srtp_encrypt_ctr cr aes (c_k_s cm) ssrc (ucast ix) mb
              | AES_MODE_GCM \<Rightarrow> srtcp_encrypt_gcm al cr aes (c_k_s cm) ssrc ix start mb)
          in (e, True, cm\<lparr>c_aes := Some aes\<rparr>, mb))"

definition srtcp_encrypt ::
  "allocator \<Rightarrow> ('a, 'h) crypto \<Rightarrow> bool \<Rightarrow> ('a, 'h) srtp \<Rightarrow> mbuf \<Rightarrow> err \<times> ('a, 'h) srtp \<times> mbuf" where
  "srtcp_encrypt al cr mok srtp mb =
     (let start = mb_pos mb; (e, ssrc, mb) = get_rtcp_ssrc mb
      in if e \<noteq> OK then (e, srtp, mb)
      else case stream_get mok srtp ssrc of
        Inl e \<Rightarrow> (e, srtp, mb)
      | Inr (strm, srtp) \<Rightarrow>
          let strm = strm\<lparr>ss_rtcp_index := (ss_rtcp_index strm + 1) AND 0x7fffffff\<rparr>;
              srtp = stream_put srtp strm;
              (e, ep, cm, mb) = srtcp_encrypt_cipher al cr (sr_rtcp srtp) ssrc (ss_rtcp_index strm) start mb;
              srtp = srtp\<lparr>sr_rtcp := cm\<rparr>
          in if e \<noteq> OK then (e, srtp, mb)
          else let (e, mb) = mbuf_write_u32 al (mb\<lparr>mb_pos := mb_end mb\<rparr>)
                               (htonl (srtcp_eix ep (ss_rtcp_index strm)))
          in if e \<noteq> OK then (e, srtp, mb)
          else case c_hmac cm of
            None \<Rightarrow> (OK, srtp, mb\<lparr>mb_pos := start\<rparr>)
          | Some hmac \<Rightarrow>
              let mb = mb\<lparr>mb_pos := start\<rparr>;
                  (e, tag) = hmac_digest cr hmac (take (mbuf_get_left mb) (mbuf_buf mb))
              in if e \<noteq> OK then (e, srtp, mb)
              else let (e, mb) = mbuf_write_mem al (mb\<lparr>mb_pos := mb_end mb\<rparr>) (take (c_tag_len cm) tag)
              in if e \<noteq> OK then (e, srtp, mb) else (OK, srtp, mb\<lparr>mb_pos := start\<rparr>))"

definition srtcp_decrypt_hmac ::
  "('a, 'h) crypto \<Rightarrow> 'h \<Rightarrow> nat \<Rightarrow> nat \<Rightarrow> u32 \<Rightarrow> replay \<Rightarrow> mbuf \<Rightarrow> err \<times> replay \<times> mbuf" where
  "srtcp_decrypt_hmac cr hmac tag_len start ix rp mb =
     (let tag_start = mb_pos mb; (e, tag_pkt, mb) = mbuf_read_mem mb tag_len
      in if e \<noteq> OK then (e, rp, mb)
      else let mb = mb\<lparr>mb_pos := start, mb_end := tag_start\<rparr>;
             (e, tag) = hmac_digest cr hmac (take (mbuf_get_left mb) (mbuf_buf mb))
      in if e \<noteq> OK then (e, rp, mb)
      else if take tag_len tag \<noteq> tag_pkt then (EAUTH, rp, mb)
      else let (ok, rp) = srtp_replay_check rp (ucast ix)
      in (if \<not> ok then EALREADY else OK, rp, mb))"

definition srtcp_decrypt_gcm ::
  "('a, 'h) crypto \<Rightarrow> 'a \<Rightarrow> byte list \<Rightarrow> u32 \<Rightarrow> u32 \<Rightarrow> nat \<Rightarrow> nat \<Rightarrow> nat \<Rightarrow> mbuf \<Rightarrow> err \<times> 'a \<times> mbuf" where
  "srtcp_decrypt_gcm cr aes k_s ssrc ix start pld_start eix_start mb =
     (let aes = aes_set_iv cr aes (srtp_iv_calc_gcm k_s ssrc (ucast ix));
          (e1, aes) = aes_decr_aad cr aes (mb_bytes mb start (pld_start - start));
          (e2, aes) = aes_decr_aad cr aes (mb_bytes mb eix_start 4)
      in if e1 OR e2 \<noteq> OK then (e1 OR e2, aes, mb)
      else let mb = mb\<lparr>mb_pos := pld_start\<rparr>
      in if mbuf_get_left mb < GCM_TAGLEN then (EBADMSG, aes, mb)
      else let tag_start = mb_end mb - GCM_TAGLEN;
             (e, aes, mb) = aes_inplace (aes_decr cr) aes (tag_start - pld_start) mb
      in if e \<noteq> OK then (e, aes, mb)
      else let (e, aes) = aes_authenticate cr aes (mb_bytes mb tag_start GCM_TAGLEN)
      in if e \<noteq> OK then (e, aes, mb) else (OK, aes, mb\<lparr>mb_end := tag_start\<rparr>))"

definition srtcp_decrypt_cipher ::
  "('a, 'h) crypto \<Rightarrow> ('a, 'h) comp \<Rightarrow> u32 \<Rightarrow> bool \<Rightarrow> u32 \<Rightarrow> nat \<Rightarrow> nat \<Rightarrow> nat \<Rightarrow> mbuf \<Rightarrow>
     err \<times> ('a, 'h) comp \<times> mbuf" where
  "srtcp_decrypt_cipher cr cm ssrc ep ix start pld_start eix_start mb =
     (case c_aes cm of
        None \<Rightarrow> (OK, cm, mb)
      | Some aes \<Rightarrow>
          if \<not> ep then (OK, cm, mb)
          else let (e, aes, mb) = (case c_mode cm of
              AES_MODE_CTR \<Rightarrow> srtp_decrypt_ctr cr aes (c_k_s cm) ssrc (ucast ix) (mb\<lparr>mb_pos := pld_start\<rparr>)
            | AES_MODE_GCM \<Rightarrow> srtcp_decrypt_gcm cr aes (c_k_s cm) ssrc ix start pld_start eix_start mb)
          in (e, cm\<lparr>c_aes := Some aes\<rparr>, mb))"

definition srtcp_decrypt ::
  "('a, 'h) crypto \<Rightarrow> bool \<Rightarrow> ('a, 'h) srtp \<Rightarrow> mbuf \<Rightarrow> err \<times> ('a, 'h) srtp \<times> mbuf" where
  "srtcp_decrypt cr mok srtp mb =
     (let start = mb_pos mb; cm = sr_rtcp srtp; (e, ssrc, mb) = get_rtcp_ssrc mb
      in if e \<noteq> OK then (e, srtp, mb)
      else case stream_get mok srtp ssrc of
        Inl e \<Rightarrow> (e, srtp, mb)
      | Inr (strm, srtp) \<Rightarrow>
          let pld_start = mb_pos mb
          in if mbuf_get_left mb < 4 + c_tag_len cm then (EBADMSG, srtp, mb)
          else let eix_start = mb_end mb - (4 + c_tag_len cm);
                 (v, mb) = mbuf_read_u32 (mb\<lparr>mb_pos := eix_start\<rparr>);
                 v = ntohl v; ep = (drop_bit 31 v AND 1 \<noteq> 0); ix = v AND 0x7fffffff;
                 (e, rp, mb) = (case c_hmac cm of
                     None \<Rightarrow> (OK, replay_rtcp strm, mb)
                   | Some hmac \<Rightarrow> srtcp_decrypt_hmac cr hmac (c_tag_len cm) start ix (replay_rtcp strm) mb);
                 srtp = stream_put srtp (strm\<lparr>replay_rtcp := rp\<rparr>)
          in if e \<noteq> OK then (e, srtp, mb)
          else let (e, cm, mb) = srtcp_decrypt_cipher cr cm ssrc ep ix start pld_start eix_start
                                   (mb\<lparr>mb_end := eix_start\<rparr>);
                 srtp = srtp\<lparr>sr_rtcp := cm\<rparr>
          in if e \<noteq> OK then (e, srtp, mb)
          else (OK, srtp, mb\<lparr>mb_pos := start\<rparr>))"

section \<open>The stream table\<close>

definition ssrcs :: "('a, 'h) srtp \<Rightarrow> u32 list" where
  "ssrcs s = map ss_ssrc (sr_streaml s)"

text \<open>
  The table has at most 8 streams with distinct SSRCs; \<open>Q\<close> holds of the RTP window of every
  stream, and of a fresh window for every SSRC that has no stream yet.
\<close>

definition tbl :: "(u32 \<Rightarrow> replay \<Rightarrow> bool) \<Rightarrow> ('a, 'h) srtp \<Rightarrow> bool" where
  "tbl Q s \<longleftrightarrow> distinct (ssrcs s) \<and> length (ssrcs s) \<le> SRTP_MAX_STREAMS \<and>
     (\<forall>strm \<in> set (sr_streaml s). Q (ss_ssrc strm) (replay_rtp strm)) \<and>
     (\<forall>ssrc. ssrc \<notin> set (ssrcs s) \<longrightarrow> Q ssrc srtp_replay_init)"

lemma stream_put_simps [simp]:
  "sr_rtp (stream_put s strm) = sr_rtp s" "sr_rtcp (stream_put s strm) = sr_rtcp s"
  "ssrcs (stream_put s strm) = ssrcs s"
  "ss_ssrc strm = ss_ssrc strm' \<Longrightarrow> stream_put (stream_put s strm) strm' = stream_put s strm'"
  by (simp_all add: stream_put_def ssrcs_def comp_def if_distrib cong: if_cong)

lemma ssrcs_update [simp]:
  "ssrcs (s\<lparr>sr_rtp := c\<rparr>) = ssrcs s" "ssrcs (s\<lparr>sr_rtcp := c\<rparr>) = ssrcs s"
  "tbl Q (s\<lparr>sr_rtp := c\<rparr>) = tbl Q s" "tbl Q (s\<lparr>sr_rtcp := c\<rparr>) = tbl Q s"
  "stream_put (s\<lparr>sr_rtp := c\<rparr>) strm = (stream_put s strm)\<lparr>sr_rtp := c\<rparr>"
  "stream_put (s\<lparr>sr_rtcp := c\<rparr>) strm = (stream_put s strm)\<lparr>sr_rtcp := c\<rparr>"
  by (simp_all add: ssrcs_def tbl_def stream_put_def)

lemma tbl_put:
  assumes "tbl Q s" "Q (ss_ssrc strm) (replay_rtp strm)"
  shows "tbl Q (stream_put s strm)"
  using assms by (auto simp: tbl_def) (auto simp: stream_put_def)

lemma tbl_put_other:
  assumes "tbl Q s" "Q' (ss_ssrc strm) (replay_rtp strm)" "ss_ssrc strm \<in> set (ssrcs s)"
    and "\<And>ssrc rp. ssrc \<noteq> ss_ssrc strm \<Longrightarrow> Q ssrc rp \<Longrightarrow> Q' ssrc rp"
  shows "tbl Q' (stream_put s strm)"
  using assms by (auto simp: tbl_def) (auto simp: stream_put_def | metis)+

lemma stream_get_tbl:
  assumes "tbl Q s" "stream_get mok s ssrc = Inr (strm, s')"
  shows "tbl Q s'" "ss_ssrc strm = ssrc" "ssrc \<in> set (ssrcs s')" "Q ssrc (replay_rtp strm)"
    "sr_rtp s' = sr_rtp s" "sr_rtcp s' = sr_rtcp s"
proof -
  have "tbl Q s' \<and> ss_ssrc strm = ssrc \<and> ssrc \<in> set (ssrcs s') \<and> Q ssrc (replay_rtp strm) \<and>
      sr_rtp s' = sr_rtp s \<and> sr_rtcp s' = sr_rtcp s"
  proof (cases "stream_find s ssrc")
    case None
    then have "stream_new mok s ssrc = Inr (strm, s')" using assms(2) by (simp add: stream_get_def)
    moreover have "ssrc \<notin> set (ssrcs s)"
      using None by (auto simp: stream_find_def find_None_iff ssrcs_def)
    ultimately show ?thesis using assms(1)
      by (auto simp: stream_new_def tbl_def ssrcs_def Let_def split: if_splits)
  next
    case (Some st)
    then have "strm = st" "s' = s" using assms(2) by (simp_all add: stream_get_def)
    moreover have "st \<in> set (sr_streaml s)" "ss_ssrc st = ssrc"
      using Some by (auto simp: stream_find_def find_Some_iff)
    ultimately show ?thesis using assms(1) by (auto simp: tbl_def ssrcs_def)
  qed
  then show "tbl Q s'" "ss_ssrc strm = ssrc" "ssrc \<in> set (ssrcs s')" "Q ssrc (replay_rtp strm)"
    "sr_rtp s' = sr_rtp s" "sr_rtcp s' = sr_rtcp s" by blast+
qed

lemma stream_get_seq_tbl:
  assumes "tbl Q s" "stream_get_seq mok s ssrc seq = Inr (strm, s')"
  shows "tbl Q s'" "ss_ssrc strm = ssrc" "ssrc \<in> set (ssrcs s')" "Q ssrc (replay_rtp strm)"
    "sr_rtp s' = sr_rtp s" "sr_rtcp s' = sr_rtcp s" "Q (ss_ssrc strm) (replay_rtp strm)"
proof -
  from assms(2) obtain strm0 s0 where g: "stream_get mok s ssrc = Inr (strm0, s0)"
    and e: "s' = stream_put s0 strm" "ss_ssrc strm = ss_ssrc strm0" "replay_rtp strm = replay_rtp strm0"
    by (auto simp: stream_get_seq_def Let_def split: sum.splits prod.splits)
  note t = stream_get_tbl [OF assms(1) g]
  show "tbl Q s'" using t e by (simp add: tbl_put)
  show "ss_ssrc strm = ssrc" "ssrc \<in> set (ssrcs s')" "Q ssrc (replay_rtp strm)"
    "sr_rtp s' = sr_rtp s" "sr_rtcp s' = sr_rtcp s" "Q (ss_ssrc strm) (replay_rtp strm)"
    using t e by simp_all
qed

section \<open>What the operations do to the replay windows\<close>

definition protected :: "('a, 'h) comp \<Rightarrow> bool" where
  "protected cm \<longleftrightarrow> c_hmac cm \<noteq> None \<or> c_aes cm \<noteq> None \<and> c_mode cm = AES_MODE_GCM"

lemma srtp_decrypt_hmac_covers:
  assumes "covers rp I" "srtp_decrypt_hmac al cr h n roc start ix rp mb = (e, rp', mb')"
  shows "covers rp' I" "e = OK \<Longrightarrow> ix \<notin> I \<and> covers rp' (insert ix I)"
proof -
  obtain ok rp1 where c: "srtp_replay_check rp ix = (ok, rp1)" by (metis surj_pair)
  have "rp' = rp \<and> e \<noteq> OK \<or> rp' = rp1 \<and> (e = OK \<longrightarrow> ok)"
    using assms(2) c
    by (auto simp: srtp_decrypt_hmac_def Let_def errno_defs split: if_splits prod.splits)
  then show "covers rp' I" "e = OK \<Longrightarrow> ix \<notin> I \<and> covers rp' (insert ix I)"
    using covers_check [OF assms(1) c] assms(1) by auto
qed

lemma srtp_decrypt_gcm_covers:
  assumes "covers rp I" "srtp_decrypt_gcm cr aes k_s ssrc ix start rp mb = (e, aes', rp', mb')"
  shows "covers rp' I" "e = OK \<Longrightarrow> ix \<notin> I \<and> covers rp' (insert ix I)"
proof -
  obtain ok rp1 where c: "srtp_replay_check rp ix = (ok, rp1)" by (metis surj_pair)
  have "rp' = rp \<and> e \<noteq> OK \<or> rp' = rp1 \<and> (e = OK \<longrightarrow> ok)"
    using assms(2) c
    by (auto simp: srtp_decrypt_gcm_def Let_def errno_defs split: if_splits prod.splits)
  then show "covers rp' I" "e = OK \<Longrightarrow> ix \<notin> I \<and> covers rp' (insert ix I)"
    using covers_check [OF assms(1) c] assms(1) by auto
qed

lemma srtp_decrypt_cipher_covers:
  assumes "covers rp I" "srtp_decrypt_cipher cr cm ssrc ix start rp mb = (e, cm', rp', mb')"
  shows "covers rp' I" "protected cm' = protected cm" "c_hmac cm' = c_hmac cm"
    "e = OK \<Longrightarrow> c_hmac cm = None \<Longrightarrow> protected cm \<Longrightarrow> ix \<notin> I \<and> covers rp' (insert ix I)"
  using assms
  by (auto simp: srtp_decrypt_cipher_def protected_def Let_def split: option.splits aes_mode.splits prod.splits
      dest: srtp_decrypt_gcm_covers)

lemma srtp_roc_update_simps [simp]:
  "ss_ssrc (srtp_roc_update strm seq) = ss_ssrc strm"
  "replay_rtp (srtp_roc_update strm seq) = replay_rtp strm"
  "ss_s_l_set (srtp_roc_update strm seq) = ss_s_l_set strm"
  by (simp_all add: srtp_roc_update_def)

lemma stream_get_err: "stream_get mok s ssrc = Inl e \<Longrightarrow> e \<noteq> OK"
  by (auto simp: stream_get_def stream_new_def Let_def errno_defs split: option.splits if_splits)

lemma stream_get_seq_err: "stream_get_seq mok s ssrc seq = Inl e \<Longrightarrow> e \<noteq> OK"
  by (auto simp: stream_get_seq_def Let_def split: sum.splits prod.splits dest: stream_get_err)

lemma srtp_decrypt_index_tbl:
  assumes "tbl Q s" "srtp_decrypt_index mok s mb = (e, s', mb', hdr, so, ix)"
  shows "tbl Q s'" "sr_rtp s' = sr_rtp s" "sr_rtcp s' = sr_rtcp s"
    "so = None \<Longrightarrow> e \<noteq> OK"
    "so = Some strm \<Longrightarrow> ss_ssrc strm = rh_ssrc hdr \<and> rh_ssrc hdr \<in> set (ssrcs s') \<and>
       Q (rh_ssrc hdr) (replay_rtp strm)"
proof -
  have "tbl Q s' \<and> sr_rtp s' = sr_rtp s \<and> sr_rtcp s' = sr_rtcp s \<and> (so = None \<longrightarrow> e \<noteq> OK) \<and>
    (\<forall>strm. so = Some strm \<longrightarrow> ss_ssrc strm = rh_ssrc hdr \<and> rh_ssrc hdr \<in> set (ssrcs s') \<and>
       Q (rh_ssrc hdr) (replay_rtp strm))"
    using assms
    by (auto simp: srtp_decrypt_index_def Let_def split: if_splits prod.splits sum.splits
        dest: stream_get_seq_tbl stream_get_seq_err intro!: tbl_put)
  then show "tbl Q s'" "sr_rtp s' = sr_rtp s" "sr_rtcp s' = sr_rtcp s"
    "so = None \<Longrightarrow> e \<noteq> OK"
    "so = Some strm \<Longrightarrow> ss_ssrc strm = rh_ssrc hdr \<and> rh_ssrc hdr \<in> set (ssrcs s') \<and>
       Q (rh_ssrc hdr) (replay_rtp strm)" by blast+
qed

text \<open>The log of accepted packets, as SSRC and index, and what the windows remember of it.\<close>

type_synonym srtp_log = "(u32 \<times> u64) list"

definition remembers :: "srtp_log \<Rightarrow> u32 \<Rightarrow> replay \<Rightarrow> bool" where
  "remembers log ssrc rp \<longleftrightarrow> covers rp {ix. (ssrc, ix) \<in> set log}"

lemma remembers_other: "ssrc \<noteq> ssrc' \<Longrightarrow> remembers ((ssrc', ix) # log) ssrc rp = remembers log ssrc rp"
  by (simp add: remembers_def)

lemma remembers_add:
  "remembers ((ssrc, ix) # log) ssrc rp = covers rp (insert ix {ix. (ssrc, ix) \<in> set log})"
proof -
  have "{ix'. (ssrc, ix') \<in> set ((ssrc, ix) # log)} = insert ix {ix. (ssrc, ix) \<in> set log}" by auto
  then show ?thesis by (simp only: remembers_def)
qed

lemma srtp_decrypt_packet_inv:
  assumes t: "tbl (remembers log) s" and p: "protected (sr_rtp s)"
    and ssrc: "ss_ssrc strm = rh_ssrc hdr" "rh_ssrc hdr \<in> set (ssrcs s)"
    and c0: "covers (replay_rtp strm) I" and I: "I = {ix. (rh_ssrc hdr, ix) \<in> set log}"
    and d: "srtp_decrypt_packet al cr start hdr strm ix s mb = (e, s', mb')"
  shows "protected (sr_rtp s') \<and> (e \<noteq> OK \<longrightarrow> tbl (remembers log) s') \<and>
    (e = OK \<longrightarrow> (rh_ssrc hdr, ix) \<notin> set log \<and> tbl (remembers ((rh_ssrc hdr, ix) # log)) s')"
proof -
  define h where "h = (case c_hmac (sr_rtp s) of None \<Rightarrow> (OK, replay_rtp strm, mb)
    | Some hmac \<Rightarrow> srtp_decrypt_hmac al cr hmac (c_tag_len (sr_rtp s)) (ss_roc strm) start ix
        (replay_rtp strm) mb)"
  obtain e1 rp1 mb1 where h1: "h = (e1, rp1, mb1)" by (metis prod_cases3)
  have c1: "covers rp1 I" "e1 = OK \<Longrightarrow> c_hmac (sr_rtp s) \<noteq> None \<Longrightarrow> ix \<notin> I \<and> covers rp1 (insert ix I)"
    using c0 h1 srtp_decrypt_hmac_covers [OF c0, of al cr _ _ _ _ ix mb e1 rp1 mb1]
    by (cases "c_hmac (sr_rtp s)"; fastforce simp: h_def)+
  show ?thesis
  proof (cases "e1 = OK")
    case False
    then have "e = e1" "s' = stream_put s (strm\<lparr>replay_rtp := rp1\<rparr>)"
      using d h1 by (simp_all add: srtp_decrypt_packet_def Let_def h_def [symmetric])
    then show ?thesis using False t p c1(1) ssrc I by (simp add: tbl_put remembers_def)
  next
    case True
    obtain e2 cm2 rp2 mb2 where
      h2: "srtp_decrypt_cipher cr (sr_rtp s) (ss_ssrc strm) ix start rp1 mb1 = (e2, cm2, rp2, mb2)"
      by (metis prod_cases4)
    note c2 = srtp_decrypt_cipher_covers [OF c1(1) h2]
    define st where "st = (if e2 = OK \<and> rh_seq hdr > ss_s_l strm
       then strm\<lparr>replay_rtp := rp2, ss_s_l := rh_seq hdr\<rparr> else strm\<lparr>replay_rtp := rp2\<rparr>)"
    have st: "ss_ssrc st = rh_ssrc hdr" "replay_rtp st = rp2" using ssrc by (simp_all add: st_def)
    have s': "s' = (stream_put s st)\<lparr>sr_rtp := cm2\<rparr>" "e = e2"
      using d h1 h2 True
      by (auto simp: srtp_decrypt_packet_def Let_def h_def [symmetric] st_def split: if_splits)
    have acc: "ix \<notin> I \<and> covers rp2 (insert ix I)" if "e2 = OK"
      using c2(4) [OF that] p c1(2) [OF True] srtp_decrypt_cipher_covers(1) [OF _ h2]
      by (cases "c_hmac (sr_rtp s)") auto
    have "tbl (remembers ((rh_ssrc hdr, ix) # log)) (stream_put s st)" if "e2 = OK"
      using acc [OF that] st ssrc I
      by (intro tbl_put_other [OF t]) (simp_all add: remembers_add remembers_other)
    moreover have "tbl (remembers log) (stream_put s st)"
      using c2(1) st I by (intro tbl_put [OF t]) (simp add: remembers_def)
    ultimately show ?thesis using s' acc c2(2) p I by simp
  qed
qed

lemma srtp_decrypt_inv:
  assumes t: "tbl (remembers log) s" and p: "protected (sr_rtp s)"
    and d: "srtp_decrypt al cr mok s mb = (e, s', mb')"
    and i: "srtp_decrypt_index mok s mb = (e0, s0, mb0, hdr, so, ix)"
  shows "protected (sr_rtp s') \<and> (e \<noteq> OK \<longrightarrow> tbl (remembers log) s') \<and>
    (e = OK \<longrightarrow> (rh_ssrc hdr, ix) \<notin> set log \<and> tbl (remembers ((rh_ssrc hdr, ix) # log)) s')"
proof (cases "so = None \<or> e0 \<noteq> OK")
  note t0 = srtp_decrypt_index_tbl [OF t i]
  {
    case True
    then have "e = e0 \<and> s' = s0" using d i by (cases so) (auto simp: srtp_decrypt_def Let_def)
    then show ?thesis using True t0(1-4) p by auto
  next
    case False
    then obtain strm where so: "so = Some strm" and "e0 = OK" by auto
    then have "srtp_decrypt_packet al cr (mb_pos mb) hdr strm ix s0 mb0 = (e, s', mb')"
      using d i by (simp add: srtp_decrypt_def)
    then show ?thesis using t0(5) [OF so] t0(2) p
      by (intro srtp_decrypt_packet_inv [OF t0(1) _ _ _ _ refl]) (simp_all add: remembers_def)
  }
qed

text \<open>The other operations leave the RTP windows alone.\<close>

lemma srtp_encrypt_cipher_protected:
  "srtp_encrypt_cipher al cr cm ssrc ix start mb = (e, cm', mb') \<Longrightarrow> protected cm' = protected cm"
  by (auto simp: srtp_encrypt_cipher_def protected_def Let_def split: option.splits prod.splits)

lemma srtp_encrypt_packet_inv:
  assumes "tbl Q s" "Q (ss_ssrc strm) (replay_rtp strm)"
    "srtp_encrypt_packet al cr start hdr strm s mb = (e, s', mb')"
  shows "tbl Q s' \<and> protected (sr_rtp s') = protected (sr_rtp s)"
proof -
  obtain e2 cm mb2 where c: "srtp_encrypt_cipher al cr (sr_rtp s) (ss_ssrc strm)
      (65536 * ucast (ss_roc strm) + ucast (rh_seq hdr)) start mb = (e2, cm, mb2)"
    by (metis prod_cases3)
  obtain e3 mb3 where h: "(case c_hmac cm of None \<Rightarrow> (OK, mb2) | Some hmac \<Rightarrow>
      srtp_encrypt_hmac al cr hmac (c_tag_len cm) (ss_roc strm) start mb2) = (e3, mb3)"
    by (metis surj_pair)
  have "s' = (stream_put s strm)\<lparr>sr_rtp := cm\<rparr> \<or>
      s' = (stream_put s (strm\<lparr>ss_s_l := rh_seq hdr\<rparr>))\<lparr>sr_rtp := cm\<rparr>"
    using assms(3) by (simp add: srtp_encrypt_packet_def Let_def c h split: if_splits)
  then show ?thesis using srtp_encrypt_cipher_protected [OF c] assms(1,2) by (auto simp: tbl_put)
qed

lemma srtp_encrypt_inv:
  assumes "tbl Q s" "srtp_encrypt al cr mok s mb = (e, s', mb')"
  shows "tbl Q s'" "protected (sr_rtp s') = protected (sr_rtp s)"
proof -
  obtain e1 hdr mb1 where d: "rtp_hdr_decode rtp_hdr0 mb = (e1, hdr, mb1)" by (metis prod_cases3)
  have "tbl Q s' \<and> protected (sr_rtp s') = protected (sr_rtp s)"
  proof (cases "e1 = OK \<and> (\<exists>p. stream_get_seq mok s (rh_ssrc hdr) (rh_seq hdr) = Inr p)")
    case False
    then have "s' = s" using assms(2) d by (auto simp: srtp_encrypt_def Let_def split: sum.splits if_splits)
    then show ?thesis using assms(1) by simp
  next
    case True
    then obtain strm s1 where g: "stream_get_seq mok s (rh_ssrc hdr) (rh_seq hdr) = Inr (strm, s1)" by auto
    with True d assms(2) stream_get_seq_tbl [OF assms(1) g] show ?thesis
      using srtp_encrypt_packet_inv [of Q s1 "srtp_roc_update strm (rh_seq hdr)"]
      by (auto simp: srtp_encrypt_def)
  qed
  then show "tbl Q s'" "protected (sr_rtp s') = protected (sr_rtp s)" by blast+
qed

lemma srtcp_encrypt_stream:
  assumes "get_rtcp_ssrc mb = (OK, ssrc, mb1)" "stream_get mok s ssrc = Inr (strm, s1)"
    "srtcp_encrypt al cr mok s mb = (e, s', mb')"
  shows "\<exists>cm. s' = (stream_put s1 (strm\<lparr>ss_rtcp_index := (ss_rtcp_index strm + 1) AND 0x7fffffff\<rparr>))\<lparr>sr_rtcp := cm\<rparr>"
proof -
  define st where "st = strm\<lparr>ss_rtcp_index := (ss_rtcp_index strm + 1) AND 0x7fffffff\<rparr>"
  obtain e2 ep cm mb2 where c: "srtcp_encrypt_cipher al cr (sr_rtcp s1) ssrc (ss_rtcp_index st) (mb_pos mb) mb1 =
      (e2, ep, cm, mb2)" by (metis prod_cases4)
  obtain e3 mb3 where w: "mbuf_write_u32 al (mb2\<lparr>mb_pos := mb_end mb2\<rparr>)
      (htonl (srtcp_eix ep (ss_rtcp_index st))) = (e3, mb3)" by (metis surj_pair)
  have "s' = (stream_put s1 st)\<lparr>sr_rtcp := cm\<rparr>"
    using assms(3) unfolding srtcp_encrypt_def assms(1) Let_def prod.case assms(2) sum.case st_def [symmetric]
      stream_put_simps c w
    by (auto split: if_splits option.splits prod.splits)
  then show ?thesis by (auto simp: st_def)
qed

lemma srtcp_encrypt_inv:
  assumes "tbl Q s" "srtcp_encrypt al cr mok s mb = (e, s', mb')"
  shows "tbl Q s' \<and> sr_rtp s' = sr_rtp s"
proof -
  obtain e1 ssrc mb1 where d: "get_rtcp_ssrc mb = (e1, ssrc, mb1)" by (metis prod_cases3)
  show ?thesis
  proof (cases "e1 = OK \<and> (\<exists>p. stream_get mok s ssrc = Inr p)")
    case False
    then have "s' = s" using assms(2) d by (auto simp: srtcp_encrypt_def Let_def split: sum.splits if_splits)
    then show ?thesis using assms(1) by simp
  next
    case True
    then obtain strm s1 where g: "stream_get mok s ssrc = Inr (strm, s1)" by auto
    from True d have "get_rtcp_ssrc mb = (OK, ssrc, mb1)" by simp
    from srtcp_encrypt_stream [OF this g assms(2)] stream_get_tbl [OF assms(1) g]
    show ?thesis by (auto simp: tbl_put)
  qed
qed

lemma srtcp_decrypt_stream:
  assumes "get_rtcp_ssrc mb = (OK, ssrc, mb1)" "stream_get mok s ssrc = Inr (strm, s1)"
    "srtcp_decrypt cr mok s mb = (e, s', mb')" "4 + c_tag_len (sr_rtcp s) \<le> mbuf_get_left mb1"
  shows "\<exists>rp. s' = stream_put s1 (strm\<lparr>replay_rtcp := rp\<rparr>) \<or>
    (\<exists>cm. s' = (stream_put s1 (strm\<lparr>replay_rtcp := rp\<rparr>))\<lparr>sr_rtcp := cm\<rparr>)"
proof -
  let ?eix = "mb_end mb1 - (4 + c_tag_len (sr_rtcp s))"
  obtain v mb2 where r: "mbuf_read_u32 (mb1\<lparr>mb_pos := ?eix\<rparr>) = (v, mb2)" by (metis surj_pair)
  obtain e3 rp mb3 where h: "(case c_hmac (sr_rtcp s) of None \<Rightarrow> (OK, replay_rtcp strm, mb2)
      | Some hmac \<Rightarrow> srtcp_decrypt_hmac cr hmac (c_tag_len (sr_rtcp s)) (mb_pos mb) (ntohl v AND 0x7fffffff)
          (replay_rtcp strm) mb2) = (e3, rp, mb3)" by (metis prod_cases3)
  obtain e4 cm mb4 where c: "srtcp_decrypt_cipher cr (sr_rtcp s) ssrc (drop_bit 31 (ntohl v) AND 1 \<noteq> 0)
      (ntohl v AND 0x7fffffff) (mb_pos mb) (mb_pos mb1) ?eix (mb3\<lparr>mb_end := ?eix\<rparr>) = (e4, cm, mb4)"
    by (metis prod_cases3)
  have "\<not> mbuf_get_left mb1 < 4 + c_tag_len (sr_rtcp s)" using assms(4) by simp
  then have "s' = stream_put s1 (strm\<lparr>replay_rtcp := rp\<rparr>) \<or>
      s' = (stream_put s1 (strm\<lparr>replay_rtcp := rp\<rparr>))\<lparr>sr_rtcp := cm\<rparr>"
    using assms(3) unfolding srtcp_decrypt_def assms(1) Let_def prod.case assms(2) sum.case r h c
    by (auto split: if_splits)
  then show ?thesis by blast
qed

lemma srtcp_decrypt_inv:
  assumes "tbl Q s" "srtcp_decrypt cr mok s mb = (e, s', mb')"
  shows "tbl Q s' \<and> sr_rtp s' = sr_rtp s"
proof -
  obtain e1 ssrc mb1 where d: "get_rtcp_ssrc mb = (e1, ssrc, mb1)" by (metis prod_cases3)
  show ?thesis
  proof (cases "e1 = OK \<and> (\<exists>p. stream_get mok s ssrc = Inr p)")
    case False
    then have "s' = s" using assms(2) d by (auto simp: srtcp_decrypt_def Let_def split: sum.splits if_splits)
    then show ?thesis using assms(1) by simp
  next
    case True
    then obtain strm s1 where g: "stream_get mok s ssrc = Inr (strm, s1)" by auto
    from True d have d: "get_rtcp_ssrc mb = (OK, ssrc, mb1)" by simp
    note t = stream_get_tbl [OF assms(1) g]
    show ?thesis
    proof (cases "4 + c_tag_len (sr_rtcp s) \<le> mbuf_get_left mb1")
      case True
      from srtcp_decrypt_stream [OF d g assms(2) True] t show ?thesis by (auto simp: tbl_put)
    next
      case False
      then have "s' = s1" using assms(2) d g by (simp add: srtcp_decrypt_def Let_def)
      then show ?thesis using t by simp
    qed
  qed
qed

text \<open>The crypto library reports a failed allocation with a non-zero code.\<close>

definition alloc_errs :: "('a, 'h) crypto \<Rightarrow> bool" where
  "alloc_errs cr \<longleftrightarrow> (\<forall>mode key iv. aes_alloc cr mode key iv \<noteq> Inl OK) \<and> (\<forall>key. hmac_create cr key \<noteq> Inl OK)"

lemma map_sum_Inl [simp]: "map_sum id f r = Inl e \<longleftrightarrow> r = Inl e"
  by (cases r) auto

lemma map_sum_Some: "map_sum id Some r = Inr x \<Longrightarrow> x \<noteq> None"
  by (cases r) auto

lemma comp_init_protected:
  assumes "comp_init cr c offs key s n enc hash mode = (OK, c')" "alloc_errs cr"
    "hash \<or> enc \<and> mode = AES_MODE_GCM"
  shows "protected c'"
proof -
  have "\<exists>k. map_sum id Some (hmac_create cr k) = Inr (c_hmac c')" if hash
    using assms(1,2) that
    by (auto simp: comp_init_def Let_def errno_defs alloc_errs_def split: if_splits prod.splits sum.splits)
  moreover have "c_mode c' = mode \<and> (\<exists>k. map_sum id Some (aes_alloc cr mode k None) = Inr (c_aes c'))" if enc
    using assms(1,2) that
    by (auto simp: comp_init_def Let_def errno_defs alloc_errs_def split: if_splits prod.splits sum.splits)
  ultimately show ?thesis using assms(3) by (auto simp: protected_def dest: map_sum_Some)
qed

lemma srtp_alloc_ok:
  assumes "srtp_alloc cr mok suite key flags = Inr s" "alloc_errs cr"
  shows "protected (sr_rtp s)" "sr_streaml s = []"
proof -
  obtain mode cb sb ab hash where sp: "srtp_suite_params suite = (mode, cb, sb, ab, hash)"
    by (metis prod_cases5)
  then have h: "hash \<or> mode = AES_MODE_GCM" by (cases suite) auto
  obtain c where "comp_init cr comp0 0 (take cb key) (drop cb key) ab True hash mode = (OK, c)"
    "sr_rtp s = c" and n: "sr_streaml s = []"
    using assms(1) sp by (auto simp: srtp_alloc_def Let_def or_eq_0_iff split: if_splits prod.splits)
  with h assms(2) show "protected (sr_rtp s)" by (auto intro: comp_init_protected)
  show "sr_streaml s = []" by (rule n)
qed

section \<open>Sessions in operation\<close>

text \<open>
  A session and the log of the RTP packets it accepted, under any sequence of calls of the four
  packet operations on arbitrary buffers, with arbitrary results of the allocator.
\<close>

inductive srtp_step ::
  "('a, 'h) crypto \<Rightarrow> ('a, 'h) srtp \<times> srtp_log \<Rightarrow> ('a, 'h) srtp \<times> srtp_log \<Rightarrow> bool" for cr where
  rx: "srtp_decrypt_index mok s mb = (e0, s0, mb0, hdr, so, ix) \<Longrightarrow>
       srtp_decrypt al cr mok s mb = (e, s', mb') \<Longrightarrow>
       srtp_step cr (s, log) (s', if e = OK then (rh_ssrc hdr, ix) # log else log)"
| tx: "srtp_encrypt al cr mok s mb = (e, s', mb') \<Longrightarrow> srtp_step cr (s, log) (s', log)"
| rtcp_rx: "srtcp_decrypt cr mok s mb = (e, s', mb') \<Longrightarrow> srtp_step cr (s, log) (s', log)"
| rtcp_tx: "srtcp_encrypt al cr mok s mb = (e, s', mb') \<Longrightarrow> srtp_step cr (s, log) (s', log)"

inductive_cases srtp_stepE: "srtp_step cr (s, log) r"

definition srtp_init :: "('a, 'h) crypto \<Rightarrow> ('a, 'h) srtp \<times> srtp_log \<Rightarrow> bool" where
  "srtp_init cr r \<longleftrightarrow> alloc_errs cr \<and> (\<exists>mok suite key flags. srtp_alloc cr mok suite key flags = Inr (fst r)) \<and> snd r = []"

definition srtp_inv :: "('a, 'h) srtp \<times> srtp_log \<Rightarrow> bool" where
  "srtp_inv r \<longleftrightarrow> tbl (remembers (snd r)) (fst r) \<and> protected (sr_rtp (fst r)) \<and> distinct (snd r)"

lemma srtp_step_inv: "srtp_step cr r r' \<Longrightarrow> srtp_inv r \<Longrightarrow> srtp_inv r'"
proof (induction rule: srtp_step.induct)
  case (rx mok s mb e0 s0 mb0 hdr so ix al e s' mb' log)
  then show ?case using srtp_decrypt_inv [OF _ _ rx(2,1), of log] by (auto simp: srtp_inv_def)
qed (auto simp: srtp_inv_def dest: srtp_encrypt_inv srtcp_encrypt_inv srtcp_decrypt_inv)

lemma srtp_init_inv: "srtp_init cr r \<Longrightarrow> srtp_inv r"
  using srtp_alloc_ok
  by (fastforce simp: srtp_init_def srtp_inv_def tbl_def ssrcs_def remembers_def)

interpretation srtpinv: invariant_system "srtp_init cr" "srtp_step cr" srtp_inv
  for cr :: "('a, 'h) crypto"
  by unfold_locales (auto intro: srtp_init_inv srtp_step_inv)

text \<open>
  C1. In every run of a session, whatever packets arrive and whatever the cipher, the MAC and the
  allocator answer: no packet index of a sender is accepted twice, the session never has
  more than 8 streams, and no two of them have the same SSRC.
\<close>

theorem srtp_no_replay:
  assumes "reach (srtp_init cr) (srtp_step cr) (s, log)"
  shows "distinct log \<and> length (sr_streaml s) \<le> 8 \<and> distinct (map ss_ssrc (sr_streaml s))"
  using srtpinv.reach_inv [OF assms]
  by (simp add: srtp_inv_def tbl_def ssrcs_def SRTP_MAX_STREAMS_def)

text \<open>
  A concrete crypto library for the witnesses: a context is its initialisation vector, the
  cipher adds a fixed pad, the MAC is a sum.
\<close>

definition pad_crypto :: "(byte list, byte list) crypto" where
  "pad_crypto = \<lparr>aes_alloc = (\<lambda>mode key iv. Inr key), aes_set_iv = (\<lambda>aes iv. take 1 iv),
     aes_encr = (\<lambda>aes bs. (OK, map (\<lambda>b. b XOR 0x5a) bs, aes)), aes_encr_aad = (\<lambda>aes bs. (OK, aes)),
     aes_decr = (\<lambda>aes bs. (OK, map (\<lambda>b. b XOR 0x5a) bs, aes)), aes_decr_aad = (\<lambda>aes bs. (OK, aes)),
     aes_get_authtag = (\<lambda>aes n. (OK, replicate n 7, aes)),
     aes_authenticate = (\<lambda>aes tag. (if tag = replicate 16 7 then OK else EAUTH, aes)),
     hmac_create = (\<lambda>key. Inr key),
     hmac_digest = (\<lambda>key bs. (OK, replicate 20 (sum_list bs)))\<rparr>"

lemma alloc_errs_pad: "alloc_errs pad_crypto"
  by (simp add: alloc_errs_def pad_crypto_def)

definition pad_session :: "(byte list, byte list) srtp" where
  "pad_session = (case srtp_alloc pad_crypto True SRTP_AES_CM_128_HMAC_SHA1_32 (replicate 30 1) 0 of
     Inr s \<Rightarrow> s | Inl e \<Rightarrow> \<lparr>sr_rtp = comp0, sr_rtcp = comp0, sr_streaml = []\<rparr>)"

definition pad_packet :: mbuf where
  "pad_packet = (let b = [0x80, 96, 0, 7, 0, 0, 0, 1, 0, 0, 0, 9, 1, 2, 244, 244, 244, 244]
     in \<lparr>mb_buf = b, mb_size = 18, mb_pos = 0, mb_end = 18\<rparr>)"

lemma pad_session_init: "srtp_init pad_crypto (pad_session, [])"
proof -
  have "\<not> isl (srtp_alloc pad_crypto True SRTP_AES_CM_128_HMAC_SHA1_32 (replicate 30 1) 0)"
    by code_simp
  then have "srtp_alloc pad_crypto True SRTP_AES_CM_128_HMAC_SHA1_32 (replicate 30 1) 0 = Inr pad_session"
    unfolding pad_session_def by (auto split: sum.splits)
  then show ?thesis unfolding srtp_init_def using alloc_errs_pad by fastforce
qed

theorem srtp_no_replay_witness:
  "\<exists>s log. reach (srtp_init pad_crypto) (srtp_step pad_crypto) (s, log) \<and> log = [(9, 7)] \<and> distinct log \<and>
     length (sr_streaml s) \<le> 8"
proof -
  let ?d = "srtp_decrypt (\<lambda>n. None) pad_crypto True pad_session pad_packet"
  let ?i = "srtp_decrypt_index True pad_session pad_packet"
  have ok: "fst ?d = OK \<and> rh_ssrc (fst (snd (snd (snd ?i)))) = 9 \<and> snd (snd (snd (snd (snd ?i)))) = 7"
    by code_simp
  obtain e s' mb' where d: "?d = (e, s', mb')" by (metis prod_cases3)
  obtain e0 s0 mb0 hdr so ix where i: "?i = (e0, s0, mb0, hdr, so, ix)" by (metis prod_cases6)
  have "reach (srtp_init pad_crypto) (srtp_step pad_crypto) (s', if e = OK then [(rh_ssrc hdr, ix)] else [])"
    by (rule reach_step, rule reach_init, rule pad_session_init, rule rx [OF i d])
  then have r: "reach (srtp_init pad_crypto) (srtp_step pad_crypto) (s', [(9, 7)])"
    using ok i d by simp
  with srtp_no_replay [OF r] show ?thesis by blast
qed

section \<open>Two shortcomings\<close>

text \<open>
  A packet that fails authentication still changes the session: here a forged packet with
  a wrapped sequence number is refused, and yet advances the roll-over counter of the stream.
\<close>

theorem srtp_decrypt_forged_roc:
  "\<exists>s mb. protected (sr_rtp s) \<and> map ss_roc (sr_streaml s) = [0] \<and>
     fst (srtp_decrypt (\<lambda>n. None) pad_crypto True s mb) = EAUTH \<and>
     map ss_roc (sr_streaml (fst (snd (srtp_decrypt (\<lambda>n. None) pad_crypto True s mb)))) = [1]"
proof -
  define s where "s = pad_session\<lparr>sr_streaml := [\<lparr>replay_rtp = srtp_replay_init, replay_rtcp = srtp_replay_init,
    ss_ssrc = 9, ss_roc = 0, ss_s_l = 60000, ss_s_l_set = True, ss_rtcp_index = 0\<rparr>]\<rparr>"
  have "protected (sr_rtp s) \<and> map ss_roc (sr_streaml s) = [0] \<and>
      fst (srtp_decrypt (\<lambda>n. None) pad_crypto True s pad_packet) = EAUTH \<and>
      map ss_roc (sr_streaml (fst (snd (srtp_decrypt (\<lambda>n. None) pad_crypto True s pad_packet)))) = [1]"
    unfolding s_def protected_def by code_simp
  then show ?thesis by (intro exI)
qed

definition gcm_session :: "(byte list, byte list) srtp" where
  "gcm_session = (case srtp_alloc pad_crypto True SRTP_AES_128_GCM (replicate 28 1) 0 of
     Inr s \<Rightarrow> s | Inl e \<Rightarrow> \<lparr>sr_rtp = comp0, sr_rtcp = comp0, sr_streaml = []\<rparr>)"

definition gcm_rtcp :: mbuf where
  "gcm_rtcp = (let b = [0x80, 200, 0, 1, 0, 0, 0, 9, 1, 2] @ replicate 16 7 @ [0x80, 0, 0, 1]
     in \<lparr>mb_buf = b, mb_size = 30, mb_pos = 0, mb_end = 30\<rparr>)"

text \<open>
  RTCP packets of a session with an AES-GCM suite have no replay protection: the same
  authentic packet is accepted again and again.
\<close>

theorem srtcp_gcm_replayed:
  "fst (srtcp_decrypt pad_crypto True gcm_session gcm_rtcp) = OK \<and>
   (let s = fst (snd (srtcp_decrypt pad_crypto True gcm_session gcm_rtcp))
    in fst (srtcp_decrypt pad_crypto True s gcm_rtcp) = OK)"
  by code_simp

end
