(* ===== verification/RtpSource.thy ===== *)
theory RtpSource
  imports Prelude "HOL-Library.Signed_Division"
begin

text \<open>
  Reception statistics of an RTP source, \<^verbatim>\<open>re/src/rtp/source.c\<close>: the validation of sequence
  numbers with a probation phase, the extended highest sequence number, the inter-arrival
  jitter, and the loss figures that go into a receiver report.

  The fields are machine words of the width they have in \<^verbatim>\<open>struct rtp_source\<close>; a C \<^verbatim>\<open>int\<close> is a
  32-bit word that is read with \<open>sint\<close> where the code compares or divides.
\<close>

section \<open>State and operations\<close>

record rtp_source =
  max_seq :: u16
  cycles :: u32
  base_seq :: u32
  bad_seq :: u32
  probation :: u32
  received :: u32
  expected_prior :: u32
  received_prior :: u32
  transit :: u32
  jitter :: u32

definition RTP_SEQ_MOD :: u32 where "RTP_SEQ_MOD = 0x10000"
definition MAX_DROPOUT :: int where "MAX_DROPOUT = 3000"
definition MAX_MISORDER :: int where "MAX_MISORDER = 100"
definition MIN_SEQUENTIAL :: u32 where "MIN_SEQUENTIAL = 2"

definition source_init_seq :: "rtp_source \<Rightarrow> u16 \<Rightarrow> rtp_source" where
  "source_init_seq s seq =
     s\<lparr>base_seq := ucast seq, max_seq := seq, bad_seq := RTP_SEQ_MOD + 1, cycles := 0,
       received := 0, received_prior := 0, expected_prior := 0\<rparr>"

definition source_update_seq :: "rtp_source \<Rightarrow> u16 \<Rightarrow> bool \<times> rtp_source" where
  "source_update_seq s seq =
     (let udelta = seq - max_seq s in
      if probation s \<noteq> 0 then
        if uint seq = uint (max_seq s) + 1 then
          let s = s\<lparr>probation := probation s - 1, max_seq := seq\<rparr> in
          if probation s = 0 then
            let s = source_init_seq s seq in (True, s\<lparr>received := received s + 1\<rparr>)
          else (False, s)
        else (False, s\<lparr>probation := MIN_SEQUENTIAL - 1, max_seq := seq\<rparr>)
      else if uint udelta < MAX_DROPOUT then
        let s = (if seq < max_seq s then s\<lparr>cycles := cycles s + RTP_SEQ_MOD\<rparr> else s);
            s = s\<lparr>max_seq := seq\<rparr>
        in (True, s\<lparr>received := received s + 1\<rparr>)
      else if uint udelta \<le> uint RTP_SEQ_MOD - MAX_MISORDER then
        if ucast seq = bad_seq s then
          let s = source_init_seq s seq in (True, s\<lparr>received := received s + 1\<rparr>)
        else (False, s\<lparr>bad_seq := (ucast seq + 1) AND (RTP_SEQ_MOD - 1)\<rparr>)
      else (True, s\<lparr>received := received s + 1\<rparr>))"

definition source_calc_jitter :: "rtp_source \<Rightarrow> u32 \<Rightarrow> u32 \<Rightarrow> rtp_source" where
  "source_calc_jitter s rtp_ts arrival =
     (let tr = arrival - rtp_ts; d = tr - transit s in
      if transit s = 0 then s\<lparr>transit := tr\<rparr>
      else let s = s\<lparr>transit := tr\<rparr>; d = (if sint d < 0 then - d else d)
        in s\<lparr>jitter := jitter s + (d - drop_bit 4 (jitter s + 8))\<rparr>)"

definition source_expected :: "rtp_source \<Rightarrow> u32" where
  "source_expected s = (cycles s + ucast (max_seq s)) - base_seq s + 1"

definition source_calc_lost :: "rtp_source \<Rightarrow> int" where
  "source_calc_lost s =
     (let lost = sint (source_expected s - received s)
      in if lost > 0x7fffff then 0x7fffff else if lost < - 0x7fffff then - 0x7fffff else lost)"

definition source_calc_fraction_lost :: "rtp_source \<Rightarrow> byte \<times> rtp_source" where
  "source_calc_fraction_lost s =
     (let expected = source_expected s;
          expected_interval = expected - expected_prior s;
          s = s\<lparr>expected_prior := expected\<rparr>;
          received_interval = received s - received_prior s;
          s = s\<lparr>received_prior := received s\<rparr>;
          lost_interval = expected_interval - received_interval;
          fraction = (if expected_interval = 0 \<or> sint lost_interval \<le> 0 then 0
                      else word_of_int (sint (push_bit 8 lost_interval) sdiv sint expected_interval))
      in (fraction, s))"

section \<open>Sequence numbers\<close>

text \<open>The extended highest sequence number, as the receiver report carries it.\<close>

definition ext_seq :: "rtp_source \<Rightarrow> u32" where
  "ext_seq s = cycles s + ucast (max_seq s)"

lemma ucast_u16_diff:
  fixes seq m :: u16
  shows "seq < m \<Longrightarrow> (ucast (seq - m) :: u32) = ucast seq + 0x10000 - ucast m"
    and "\<not> seq < m \<Longrightarrow> (ucast (seq - m) :: u32) = ucast seq - ucast m"
proof -
  have *: "uint (seq - m) = (if uint m \<le> uint seq then uint seq - uint m else uint seq - uint m + 65536)"
    using uint_sub_if' [of seq m] by simp
  have u: "(ucast (seq - m) :: u32) = word_of_int (uint (seq - m))"
    "word_of_int (uint seq) = (ucast seq :: u32)" "word_of_int (uint m) = (ucast m :: u32)"
    by (rule ucast_eq, rule ucast_eq [symmetric], rule ucast_eq [symmetric])
  show "(ucast (seq - m) :: u32) = ucast seq + 0x10000 - ucast m" if "seq < m"
  proof -
    have "uint (seq - m) = uint seq + 65536 - uint m" using * that by (simp add: word_less_def)
    then show ?thesis unfolding u(1) by (simp add: u(2,3))
  qed
  show "(ucast (seq - m) :: u32) = ucast seq - ucast m" if "\<not> seq < m"
  proof -
    have "uint (seq - m) = uint seq - uint m" using * that by (simp add: word_less_def)
    then show ?thesis unfolding u(1) by (simp add: u(2,3))
  qed
qed

lemma update_ahead:
  assumes "probation s = 0" "uint (seq - max_seq s) < 3000"
  shows "\<exists>s'. source_update_seq s seq = (True, s') \<and> ext_seq s' = ext_seq s + ucast (seq - max_seq s) \<and>
    max_seq s' = seq \<and> received s' = received s + 1 \<and> base_seq s' = base_seq s \<and> probation s' = 0"
  using assms ucast_u16_diff [of seq "max_seq s"]
  by (auto simp: source_update_seq_def MAX_DROPOUT_def RTP_SEQ_MOD_def ext_seq_def Let_def)

text \<open>
  C32. Once a source is valid, a packet with a sequence number less than 3000 ahead of the highest
  one (modulo 65536) is counted as received, and the extended highest sequence number grows by
  exactly that distance, also across the wrap of the 16-bit number.
\<close>

theorem source_update_ext:
  assumes "probation s = 0" "uint (seq - max_seq s) < 3000"
  shows "\<exists>s'. source_update_seq s seq = (True, s') \<and> ext_seq s' = ext_seq s + ucast (seq - max_seq s) \<and>
    max_seq s' = seq \<and> received s' = received s + 1 \<and> base_seq s' = base_seq s"
  using update_ahead [OF assms] by blast

definition src0 :: rtp_source where
  "src0 = \<lparr>max_seq = 65534, cycles = 0, base_seq = 65534, bad_seq = 65537, probation = 0, received = 1,
     expected_prior = 0, received_prior = 0, transit = 0, jitter = 0\<rparr>"

theorem source_update_ext_witness:
  "\<exists>s'. source_update_seq src0 3 = (True, s') \<and> ext_seq src0 = 65534 \<and> ext_seq s' = 65539"
proof -
  have "uint ((3 :: u16) - max_seq src0) < 3000" "ext_seq src0 + ucast ((3 :: u16) - max_seq src0) = 65539"
    "ext_seq src0 = 65534" "probation src0 = 0" by code_simp+
  with source_update_ext [of src0 3] show ?thesis by auto
qed

lemma uint_ucast_u16 [simp]: "uint (ucast (x :: u16) :: u32) = uint x"
  using uint_lt2p [of x] by (simp add: unsigned_ucast_eq take_bit_int_eq_self_iff)

lemma ucast_succ_mask: "(ucast (seq :: u16) + 1 :: u32) AND 0xffff = ucast (seq + 1)"
proof -
  have m: "(0xffff :: u32) = mask 16" by (simp add: mask_eq_exp_minus_1)
  have "uint (ucast seq + 1 :: u32) = uint seq + 1"
    using uint_lt2p [of seq] by (simp add: uint_plus_if')
  then have "uint (take_bit 16 (ucast seq + 1 :: u32)) = (uint seq + 1) mod 65536"
    by (simp add: unsigned_take_bit_eq) (simp add: take_bit_eq_mod)
  also have "\<dots> = uint (seq + 1)" by (simp add: uint_word_ariths)
  finally have "take_bit 16 (ucast seq + 1 :: u32) = ucast (seq + 1)" by (simp add: word_uint_eq_iff)
  then show ?thesis by (simp add: m take_bit_eq_mask)
qed

text \<open>
  Two consecutive packets behind a jump of the sequence number re-synchronise the source:
  the first one is refused and remembered, the second one restarts the statistics with itself as
  the base.
\<close>

theorem source_resync:
  assumes "probation s = 0" "3000 \<le> uint (seq - max_seq s)" "uint (seq - max_seq s) < 65436"
    and "bad_seq s \<noteq> ucast seq"
  shows "\<exists>s' s''. source_update_seq s seq = (False, s') \<and> source_update_seq s' (seq + 1) = (True, s'') \<and>
    received s' = received s \<and> ext_seq s'' = ucast (seq + 1) \<and> base_seq s'' = ucast (seq + 1) \<and> received s'' = 1"
proof -
  have u: "uint (seq + 1 - max_seq s) = uint (seq - max_seq s) + 1"
    using assms(2,3) uint_plus_if' [of "seq - max_seq s" 1] by (simp add: algebra_simps)
  have b: "(ucast seq + 1 :: u32) AND 0xffff = ucast (seq + 1)" by (rule ucast_succ_mask)
  show ?thesis
    using assms u b
    by (auto simp: source_update_seq_def MAX_DROPOUT_def MAX_MISORDER_def RTP_SEQ_MOD_def
        source_init_seq_def ext_seq_def Let_def)
qed

theorem source_resync_witness:
  "\<exists>s' s''. source_update_seq src0 20000 = (False, s') \<and> source_update_seq s' 20001 = (True, s'') \<and>
     base_seq s'' = 20001 \<and> received s'' = 1"
proof -
  have "probation src0 = 0" "3000 \<le> uint ((20000 :: u16) - max_seq src0)"
    "uint ((20000 :: u16) - max_seq src0) < 65436" "bad_seq src0 \<noteq> ucast (20000 :: u16)"
    "(20000 :: u16) + 1 = 20001" "(ucast (20000 + 1 :: u16) :: u32) = 20001" by code_simp+
  with source_resync [of src0 20000] show ?thesis by auto
qed

section \<open>Loss figures\<close>

text \<open>
  C33. A source that receives every packet in order never has a loss to report, however long the
  stream is and however often its sequence number wraps.
\<close>

theorem source_lossless:
  assumes "probation s = 0" "source_expected s = received s"
  shows "source_calc_lost (fold (\<lambda>i s. snd (source_update_seq s (max_seq s + 1))) [0..<n] s) = 0"
proof -
  define nx where "nx = (\<lambda>s. snd (source_update_seq s (max_seq s + 1)))"
  have step: "probation (nx s) = 0 \<and> source_expected (nx s) = received (nx s)"
    if "probation s = 0 \<and> source_expected s = received s" for s
    using update_ahead [of s "max_seq s + 1"] that
    by (auto simp: nx_def source_expected_def add.commute simp flip: ext_seq_def)
  have "probation (fold (\<lambda>i. nx) [0..<n] s) = 0 \<and>
      source_expected (fold (\<lambda>i. nx) [0..<n] s) = received (fold (\<lambda>i. nx) [0..<n] s)"
    by (induction n) (auto simp: assms step)
  then show ?thesis by (simp add: source_calc_lost_def nx_def)
qed

theorem source_lossless_witness:
  "source_calc_lost (fold (\<lambda>i s. snd (source_update_seq s (max_seq s + 1))) [0..<100000] src0) = 0"
proof -
  have "probation src0 = 0" "source_expected src0 = received src0" by code_simp+
  then show ?thesis by (rule source_lossless)
qed

text \<open>
  The cumulative loss always fits the 24-bit signed field of a receiver report.
\<close>

theorem source_lost_24bit: "- 0x7fffff \<le> source_calc_lost s \<and> source_calc_lost s \<le> 0x7fffff"
  by (simp add: source_calc_lost_def Let_def)

lemma sint_small: "uint (w :: u32) < 0x80000000 \<Longrightarrow> sint w = uint w"
proof -
  assume "uint w < 0x80000000"
  moreover have "- (2 ^ 31) \<le> uint w" by (rule order_trans [OF _ uint_ge_0]) simp
  ultimately have "signed_take_bit 31 (uint w) = uint w" by (intro signed_take_bit_int_eq_self) simp_all
  then show ?thesis by (simp add: sint_uint)
qed

lemma fraction_word:
  assumes "uint (e :: u32) < 0x800000" "uint r < uint e"
  shows "e \<noteq> 0" "sint (e - r) = uint e - uint r" "sint e = uint e"
    "sint (push_bit 8 (e - r)) = 256 * (uint e - uint r)"
proof -
  show "e \<noteq> 0" using assms(2) uint_ge_0 [of r] by auto
  have d: "uint (e - r) = uint e - uint r" using assms(2) by (simp add: uint_sub_if')
  have lt: "uint (e - r) < 0x800000" using d assms uint_ge_0 [of r] by linarith
  then have "uint (e - r) < 0x80000000" by linarith
  then show "sint (e - r) = uint e - uint r" using sint_small d by simp
  show "sint e = uint e" using assms(1) by (intro sint_small) linarith
  have "uint (push_bit 8 x) = 256 * uint x" if "uint x < 0x800000" for x :: u32
    using that by (simp add: push_bit_eq_mult uint_word_ariths)
  then have "uint (push_bit 8 (e - r)) = 256 * uint (e - r)" using lt .
  moreover from this have "uint (push_bit 8 (e - r)) < 0x80000000"
    using lt by linarith
  ultimately show "sint (push_bit 8 (e - r)) = 256 * (uint e - uint r)"
    using d sint_small by simp
qed

lemma fraction_int:
  fixes e r :: int
  assumes "0 < r" "r < e"
  shows "0 \<le> 256 * (e - r) div e" "256 * (e - r) div e < 256"
    "(256 * (e - r)) sdiv e = 256 * (e - r) div e"
proof -
  show "0 \<le> 256 * (e - r) div e" using assms by (simp add: pos_imp_zdiv_nonneg_iff)
  have "256 * (e - r) div e * e \<le> 256 * (e - r)"
    using assms div_mult_mod_eq [of "256 * (e - r)" e] pos_mod_sign [of e "256 * (e - r)"] by linarith
  also have "\<dots> < 256 * e" using assms by simp
  finally show "256 * (e - r) div e < 256" using assms by (simp add: mult_less_cancel_right)
  show "(256 * (e - r)) sdiv e = 256 * (e - r) div e"
    using assms by (simp add: signed_divide_int_def sgn_if)
qed

text \<open>The interval since the last report: packets expected and packets received in it.\<close>

abbreviation expected_interval :: "rtp_source \<Rightarrow> u32" where
  "expected_interval s \<equiv> source_expected s - expected_prior s"

abbreviation received_interval :: "rtp_source \<Rightarrow> u32" where
  "received_interval s \<equiv> received s - received_prior s"

lemma sint_large: "0x80000000 \<le> uint (w :: u32) \<Longrightarrow> sint w \<le> 0"
proof (rule ccontr)
  assume w: "0x80000000 \<le> uint w" "\<not> sint w \<le> 0"
  have "sint w < 2 ^ 31" using sint_lt [of w] by simp
  then have "take_bit 32 (sint w) = sint w" using w(2) by (intro take_bit_int_eq_self) simp_all
  then have "uint w = sint w" using uint_sint [of w] by simp
  with w(1) \<open>sint w < 2 ^ 31\<close> show False by simp
qed

lemma fraction_none:
  fixes e r :: u32
  assumes "uint r < 0x800000" "uint e \<le> uint r"
  shows "e = 0 \<or> sint (e - r) \<le> 0"
proof (cases "uint e = uint r")
  case False
  then have "uint (e - r) = uint e - uint r + 4294967296" using assms(2) by (simp add: uint_sub_if')
  then have "0x80000000 \<le> uint (e - r)" using assms(1) uint_ge_0 [of e] by linarith
  then show ?thesis using sint_large [of "e - r"] by simp
qed (simp add: word_uint_eq_iff [symmetric])

text \<open>
  C34. While fewer than \<open>2 ^ 23\<close> packets were expected and received since the last report, the reported
  fraction is the number lost over the number expected in 256ths, rounded down and cut to eight
  bits; it is zero when no fewer packets were received than expected. The cut matters in one case only:
  when all were lost, zero is reported instead of 256. The interval starts anew.
\<close>

theorem source_fraction_exact:
  assumes "e = uint (expected_interval s)" "r = uint (received_interval s)" "e < 0x800000" "r < 0x800000"
  shows "\<exists>f s'. source_calc_fraction_lost s = (f, s') \<and> uint f = (if e \<le> r then 0 else (256 * (e - r) div e) mod 256)
    \<and> (0 < r \<and> r < e \<longrightarrow> uint f = 256 * (e - r) div e) \<and> (r = 0 \<longrightarrow> f = 0)
    \<and> expected_interval s' = 0 \<and> received_interval s' = 0"
proof (cases "e \<le> r")
  case True
  then have "expected_interval s = 0 \<or> sint (expected_interval s - received_interval s) \<le> 0"
    using fraction_none [of "received_interval s" "expected_interval s"] assms by simp
  then show ?thesis using True by (auto simp: source_calc_fraction_lost_def Let_def source_expected_def)
next
  case False
  have r0: "0 \<le> r" using assms(2) by simp
  note w = fraction_word [of "expected_interval s" "received_interval s", folded assms(1,2)]
  have d: "(256 * (e - r)) sdiv e = 256 * (e - r) div e" using False r0 by (simp add: signed_divide_int_def sgn_if)
  have f: "fst (source_calc_fraction_lost s) = word_of_int (256 * (e - r) div e)"
    using w False assms(3) d by (simp add: source_calc_fraction_lost_def Let_def)
  moreover have "(256 * (e - r) div e) mod 256 = 256 * (e - r) div e" if "0 < r"
    using fraction_int [of r e] that False by simp
  moreover have "(256 * (e - r) div e) mod 256 = 0" if "r = 0" using that False by simp
  ultimately show ?thesis using False
    by (cases "source_calc_fraction_lost s") (auto simp: uint_word_of_int word_uint_eq_iff source_calc_fraction_lost_def source_expected_def Let_def)
qed

theorem source_fraction_exact_witness:
  "\<exists>s'. source_calc_fraction_lost (src0\<lparr>max_seq := 1, cycles := 65536, received := 3\<rparr>) = (64, s') \<and>
     expected_interval s' = 0"
proof -
  let ?s = "src0\<lparr>max_seq := 1, cycles := 65536, received := 3\<rparr>"
  have v: "uint (expected_interval ?s) = 4" "uint (received_interval ?s) = 3" by code_simp+
  obtain f s' where f: "source_calc_fraction_lost ?s = (f, s')" "uint f = 256 * (4 - 3) div 4"
    "expected_interval s' = 0"
    using source_fraction_exact [OF refl refl, of ?s] v by auto
  then have "f = 64" by (simp add: word_uint_eq_iff)
  with f show ?thesis by simp
qed

text \<open>
  If all of the packets of an interval were lost, the reported fraction is zero: the
  value 256 does not fit its 8-bit field.
\<close>

theorem source_fraction_total_loss:
  assumes "0 < uint (expected_interval s)" "uint (expected_interval s) < 0x800000"
    and "received_interval s = 0"
  shows "fst (source_calc_fraction_lost s) = 0"
proof -
  let ?e = "expected_interval s"
  note w = fraction_word [OF assms(2), of 0]
  have "(256 * uint ?e) sdiv uint ?e = 256" using assms(1) by (simp add: signed_divide_int_def sgn_if)
  moreover have "(word_of_int 256 :: byte) = 0" by simp
  ultimately show ?thesis
    using w assms by (simp add: source_calc_fraction_lost_def Let_def source_expected_def)
qed

theorem source_fraction_total_loss_witness:
  "uint (expected_interval (src0\<lparr>received := 0\<rparr>)) = 1 \<and>
   fst (source_calc_fraction_lost (src0\<lparr>received := 0\<rparr>)) = 0"
proof -
  have "uint (expected_interval (src0\<lparr>received := 0\<rparr>)) = 1" "received_interval (src0\<lparr>received := 0\<rparr>) = 0"
    by code_simp+
  with source_fraction_total_loss [of "src0\<lparr>received := 0\<rparr>"] show ?thesis by simp
qed

text \<open>
  The probation test compares in \<^verbatim>\<open>int\<close>, so the sequence number 0 is not taken as the successor
  of 65535: such a pair of sequential packets does not validate the source.
\<close>

theorem source_probation_wrap:
  assumes "probation s \<noteq> 0" "max_seq s = 65535"
  shows "\<exists>s'. source_update_seq s 0 = (False, s') \<and> probation s' = 1"
  using assms by (simp add: source_update_seq_def MIN_SEQUENTIAL_def Let_def)

theorem source_probation_wrap_witness:
  "\<exists>s'. source_update_seq (src0\<lparr>probation := 1, max_seq := 65535\<rparr>) 0 = (False, s') \<and> probation s' = 1"
  using source_probation_wrap [of "src0\<lparr>probation := 1, max_seq := 65535\<rparr>"] by simp

end
