(* ===== verification/Jbuf.thy ===== *)
theory Jbuf
  imports Rtp "HOL-Library.Signed_Division" "HOL-Library.Multiset"
begin

text \<open>
  The jitter buffer, \<^verbatim>\<open>re/src/jbuf/jbuf.c\<close>: incoming RTP packets sorted by sequence number, with
  a fixed pool of frames, a fixed and an adaptive mode, and statistics.

  The lists of frames are HOL lists, head first.  A dereference of a null list element is the
  result \<open>None\<close>.  The references that the buffer takes and gives back on the payload objects
  are logged in \<open>jb_refs\<close> in the order of the calls.  The 32-bit signed computations of the
  jitter estimate are on integers, with the wrap-around \<open>i32\<close> written out at every
  operation; divisions truncate.  The clock \<^verbatim>\<open>tmr_jiffies\<close> is a parameter.  The lock is
  taken around every operation and is not represented.
\<close>

section \<open>State\<close>

definition JBUF_JITTER_PERIOD :: int where "JBUF_JITTER_PERIOD = 512"
definition JBUF_JITTER_UP_SPEED :: int where "JBUF_JITTER_UP_SPEED = 64"
definition JBUF_BUFTIME_PERIOD :: int where "JBUF_BUFTIME_PERIOD = 128"
definition JBUF_LO_BOUND :: int where "JBUF_LO_BOUND = 125"
definition JBUF_HI_BOUND :: int where "JBUF_HI_BOUND = 200"

record 'm frame =
  fr_hdr :: rtp_header
  fr_mem :: "'m option"

datatype jb_state = JS_GOOD | JS_EMPTY | JS_LOW | JS_HIGH

datatype jbuf_type = JBUF_OFF | JBUF_FIXED | JBUF_ADAPTIVE

record jitter_stat =
  js_jitter :: int
  js_ts0 :: u32
  js_tr0 :: u64
  js_st :: jb_state
  js_avbuftime :: int
  js_jtime :: int
  js_mintime :: int

record jbuf_stat =
  n_put :: u32
  n_get :: u32
  n_oos :: u32
  n_dups :: u32
  n_late :: u32
  n_lost :: u32
  n_overflow :: u32
  n_underflow :: u32
  n_flush :: u32

datatype 'm mem_call = MemRef 'm | MemDeref 'm

record 'm jbuf =
  jb_pooll :: "'m frame list"
  jb_framel :: "'m frame list"
  jb_n :: u32
  jb_min :: u32
  jb_max :: u32
  jb_wish :: u32
  jb_ptime :: u32
  jb_seq_put :: u16
  jb_seq_get :: u16
  jb_ssrc :: u32
  jb_started :: bool
  jb_running :: bool
  jb_silence :: bool
  jb_jitst :: jitter_stat
  jb_type :: jbuf_type
  jb_stat :: jbuf_stat
  jb_refs :: "'m mem_call list"

definition jitst0 :: jitter_stat where
  "jitst0 = \<lparr>js_jitter = 0, js_ts0 = 0, js_tr0 = 0, js_st = JS_GOOD, js_avbuftime = 0, js_jtime = 0,
     js_mintime = 0\<rparr>"

definition stat0 :: jbuf_stat where
  "stat0 = \<lparr>n_put = 0, n_get = 0, n_oos = 0, n_dups = 0, n_late = 0, n_lost = 0, n_overflow = 0,
     n_underflow = 0, n_flush = 0\<rparr>"

definition frame0 :: "'m frame" where
  "frame0 = \<lparr>fr_hdr = rtp_hdr0, fr_mem = None\<rparr>"

abbreviation fr_seq :: "'m frame \<Rightarrow> u16" where "fr_seq f \<equiv> rh_seq (fr_hdr f)"
abbreviation fr_ts :: "'m frame \<Rightarrow> u32" where "fr_ts f \<equiv> rh_ts (fr_hdr f)"

section \<open>Frames\<close>

text \<open>A value stored into an \<^verbatim>\<open>int32_t\<close>.\<close>

definition i32 :: "int \<Rightarrow> int" where
  "i32 x = sint (word_of_int x :: u32)"

definition seq_less :: "u16 \<Rightarrow> u16 \<Rightarrow> bool" where
  "seq_less x y \<longleftrightarrow> sint (x - y) < 0"

text \<open>\<^verbatim>\<open>mem_ref\<close> and \<^verbatim>\<open>mem_deref\<close> do nothing on a null pointer.\<close>

definition mem_ref :: "'m option \<Rightarrow> 'm jbuf \<Rightarrow> 'm jbuf" where
  "mem_ref m jb = (case m of None \<Rightarrow> jb | Some x \<Rightarrow> jb\<lparr>jb_refs := jb_refs jb @ [MemRef x]\<rparr>)"

definition mem_deref :: "'m option \<Rightarrow> 'm jbuf \<Rightarrow> 'm jbuf" where
  "mem_deref m jb = (case m of None \<Rightarrow> jb | Some x \<Rightarrow> jb\<lparr>jb_refs := jb_refs jb @ [MemDeref x]\<rparr>)"

definition frame_alloc :: "'m jbuf \<Rightarrow> ('m frame \<times> 'm jbuf) option" where
  "frame_alloc jb =
     (case jb_pooll jb of
        f # pool \<Rightarrow> Some (f, jb\<lparr>jb_pooll := pool, jb_n := jb_n jb + 1\<rparr>)
      | [] \<Rightarrow>
          (case jb_framel jb of
             [] \<Rightarrow> None
           | f0 # fs \<Rightarrow>
               let jb = jb\<lparr>jb_stat := (jb_stat jb)\<lparr>n_overflow := n_overflow (jb_stat jb) + 1\<rparr>\<rparr>;
                   jb = mem_deref (fr_mem f0) jb
               in Some (f0\<lparr>fr_mem := None\<rparr>, jb\<lparr>jb_framel := fs\<rparr>)))"

text \<open>The frame given back has been unlinked from the list of frames by the caller.\<close>

definition frame_deref :: "'m jbuf \<Rightarrow> 'm frame \<Rightarrow> 'm jbuf" where
  "frame_deref jb f =
     (let jb = mem_deref (fr_mem f) jb
      in jb\<lparr>jb_pooll := jb_pooll jb @ [f\<lparr>fr_mem := None\<rparr>], jb_n := jb_n jb - 1\<rparr>)"

section \<open>Timing\<close>

definition calc_ptime :: "'m jbuf \<Rightarrow> u32" where
  "calc_ptime jb =
     (case rev (jb_framel jb) of
        ft # ftt # _ \<Rightarrow>
          let seqd = uint (fr_seq ft) - uint (fr_seq ftt)
          in if seqd > 0 then (fr_ts ft - fr_ts ftt) div (8 * word_of_int seqd) else jb_ptime jb
      | _ \<Rightarrow> jb_ptime jb)"

definition init_jitst :: "'m jbuf \<Rightarrow> 'm jbuf" where
  "init_jitst jb =
     (let jb = jb\<lparr>jb_ptime := calc_ptime jb\<rparr>;
          jtime = i32 (sint (jb_ptime jb) * JBUF_JITTER_PERIOD);
          avbuftime = i32 (uint (jb_wish jb) * jtime);
          jitter = i32 (i32 (avbuftime * 100) * 2) sdiv (JBUF_LO_BOUND + JBUF_HI_BOUND);
          mintime = i32 (uint (jb_min jb) * jtime - jtime sdiv 3)
      in jb\<lparr>jb_jitst := jitst0\<lparr>js_jtime := jtime, js_avbuftime := avbuftime, js_jitter := jitter,
              js_mintime := mintime\<rparr>\<rparr>)"

definition calc_bufftime :: "'m jbuf \<Rightarrow> u32 \<times> 'm jbuf" where
  "calc_bufftime jb =
     (let jb = jb\<lparr>jb_ptime := calc_ptime jb\<rparr>
      in if jb_n jb \<noteq> 0
         then ((fr_ts (last (jb_framel jb)) - fr_ts (hd (jb_framel jb))) div 8 + jb_ptime jb, jb)
         else (jb_ptime jb, jb))"

definition jbuf_jitter_calc :: "u64 \<Rightarrow> 'm jbuf \<Rightarrow> u32 \<Rightarrow> 'm jbuf" where
  "jbuf_jitter_calc tr jb ts =
     (if js_ts0 (jb_jitst jb) = 0 then jb\<lparr>jb_jitst := (jb_jitst jb)\<lparr>js_ts0 := ts, js_tr0 := tr\<rparr>\<rparr>
      else let (bt, jb) = calc_bufftime jb; st = jb_jitst jb;
        buftime = i32 (uint (bt * 512));
        d = i32 ((sint tr - sint (js_tr0 st)) - (uint ts - uint (js_ts0 st)) sdiv 8);
        da = i32 (\<bar>d\<bar> * JBUF_JITTER_PERIOD);
        s = (if da > js_jitter st then JBUF_JITTER_UP_SPEED else 1);
        djit = i32 (i32 (da - js_jitter st) * s) sdiv JBUF_JITTER_PERIOD;
        jitter = i32 (js_jitter st + djit);
        jitter = (if jitter < 0 then 0 else jitter);
        avbuftime = (if js_avbuftime st \<noteq> 0
          then i32 (js_avbuftime st + i32 (buftime - js_avbuftime st) sdiv JBUF_BUFTIME_PERIOD)
          else buftime);
        bufmin = i32 (jitter * JBUF_LO_BOUND) sdiv 100;
        bufmax = i32 (jitter * JBUF_HI_BOUND) sdiv 100;
        bufmin = max bufmin (js_mintime st);
        bufmax = max bufmax (i32 (bufmin + i32 (4 * js_jtime st) sdiv 3));
        st = st\<lparr>js_jitter := jitter, js_avbuftime := avbuftime\<rparr>;
        st = (if jb_n jb < jb_max jb \<and> avbuftime < bufmin
              then st\<lparr>js_avbuftime := i32 (avbuftime + js_jtime st), js_st := JS_LOW\<rparr>
              else if jb_n jb > jb_min jb \<and> avbuftime > bufmax then st\<lparr>js_st := JS_HIGH\<rparr>
              else st\<lparr>js_st := JS_GOOD\<rparr>)
      in jb\<lparr>jb_jitst := st\<lparr>js_ts0 := ts, js_tr0 := tr\<rparr>\<rparr>)"

definition jbuf_state :: "'m jbuf \<Rightarrow> jb_state" where
  "jbuf_state jb = js_st (jb_jitst jb)"

section \<open>Operations\<close>

text \<open>
  Allocation: \<open>mok\<close> is the result of allocating the buffer, \<open>lock_err\<close> that of the lock, and \<open>fok i\<close> says
  whether the \<open>i\<close>-th frame can be allocated.
\<close>

definition jbuf_alloc :: "bool \<Rightarrow> err \<Rightarrow> (nat \<Rightarrow> bool) \<Rightarrow> u32 \<Rightarrow> u32 \<Rightarrow> err + 'm jbuf" where
  "jbuf_alloc mok lock_err fok mn mx =
     (if mn > mx then Inl EINVAL
      else if \<not> seq_less 10 20 \<or> seq_less 20 10 \<or> \<not> seq_less 65535 0 then Inl ENOSYS
      else if \<not> mok then Inl ENOMEM
      else if lock_err \<noteq> OK then Inl lock_err
      else if \<exists>i \<in> set [0..<unat mx]. \<not> fok i then Inl ENOMEM
      else Inr \<lparr>jb_pooll = replicate (unat mx) frame0, jb_framel = [], jb_n = 0, jb_min = mn, jb_max = mx,
             jb_wish = 0, jb_ptime = 20, jb_seq_put = 0, jb_seq_get = 0, jb_ssrc = 0, jb_started = False,
             jb_running = False, jb_silence = True, jb_jitst = jitst0, jb_type = JBUF_FIXED,
             jb_stat = stat0, jb_refs = []\<rparr>)"

definition jbuf_set_type :: "'m jbuf \<Rightarrow> jbuf_type \<Rightarrow> 'm jbuf" where
  "jbuf_set_type jb jbtype =
     (let jb = jb\<lparr>jb_type := jbtype\<rparr> in
      if jbtype = JBUF_ADAPTIVE then
        let jb = jb\<lparr>jb_min := max (jb_min jb) 1\<rparr>;
            jb = jb\<lparr>jb_max := max (jb_max jb) (jb_min jb + 3)\<rparr>;
            jb = jb\<lparr>jb_max := max (jb_max jb) (jb_min jb * 200 div 125)\<rparr>
        in jb\<lparr>jb_wish := max (jb_min jb) (min (jb_max jb - 1) (jb_wish jb))\<rparr>
      else jb)"

definition jbuf_set_wish :: "'m jbuf \<Rightarrow> u32 \<Rightarrow> 'm jbuf" where
  "jbuf_set_wish jb wish = jb\<lparr>jb_wish := max (jb_min jb) (min (jb_max jb - 1) wish)\<rparr>"

definition jbuf_silence :: "'m jbuf \<Rightarrow> bool \<Rightarrow> 'm jbuf" where
  "jbuf_silence jb on = jb\<lparr>jb_silence := on\<rparr>"

text \<open>The loop of \<^verbatim>\<open>jbuf_flush\<close>: each frame of the list goes back to the pool.\<close>

fun flush_frames :: "'m frame list \<Rightarrow> 'm jbuf \<Rightarrow> 'm jbuf" where
  "flush_frames [] jb = jb"
| "flush_frames (f # fs) jb = flush_frames fs (frame_deref (jb\<lparr>jb_framel := fs\<rparr>) f)"

definition jbuf_flush :: "'m jbuf \<Rightarrow> 'm jbuf" where
  "jbuf_flush jb =
     (let jb = flush_frames (jb_framel jb) jb;
          flushes = n_flush (jb_stat jb) + 1;
          jb = jb\<lparr>jb_n := 0, jb_running := False, jb_seq_get := 0, jb_stat := stat0\<lparr>n_flush := flushes\<rparr>\<rparr>
      in (init_jitst jb)\<lparr>jb_started := False\<rparr>)"

definition jbuf_destructor :: "'m jbuf \<Rightarrow> 'm jbuf" where
  "jbuf_destructor jb = (jbuf_flush jb)\<lparr>jb_pooll := []\<rparr>"

text \<open>
  The search for the position of an out-of-sequence frame, from the tail of the list backwards:
  the list is given tail first, and \<open>None\<close> is a duplicate.
\<close>

fun jbuf_insert :: "'m frame \<Rightarrow> 'm frame list \<Rightarrow> 'm frame list option" where
  "jbuf_insert f [] = Some [f]"
| "jbuf_insert f (x # xs) =
     (if seq_less (fr_seq x) (fr_seq f) then Some (f # x # xs)
      else if fr_seq f = fr_seq x then None
      else map_option ((#) x) (jbuf_insert f xs))"

abbreviation stat_inc :: "((u32 \<Rightarrow> u32) \<Rightarrow> jbuf_stat \<Rightarrow> jbuf_stat) \<Rightarrow> 'm jbuf \<Rightarrow> 'm jbuf" where
  "stat_inc upd jb \<equiv> jb\<lparr>jb_stat := upd (\<lambda>c. c + 1) (jb_stat jb)\<rparr>"

text \<open>The end of a successful \<^verbatim>\<open>jbuf_put\<close>, with the new list of frames.\<close>

definition jbuf_put_success :: "u64 \<Rightarrow> 'm jbuf \<Rightarrow> 'm frame list \<Rightarrow> rtp_header \<Rightarrow> 'm option \<Rightarrow> 'm jbuf" where
  "jbuf_put_success tr jb fs hdr mem =
     (let jb = mem_ref mem (jb\<lparr>jb_framel := fs, jb_running := True, jb_seq_put := rh_seq hdr\<rparr>)
      in if jb_type jb = JBUF_ADAPTIVE \<and> jb_started jb then jbuf_jitter_calc tr jb (rh_ts hdr) else jb)"

definition jbuf_put :: "u64 \<Rightarrow> 'm jbuf \<Rightarrow> rtp_header \<Rightarrow> 'm option \<Rightarrow> (err \<times> 'm jbuf) option" where
  "jbuf_put tr jb hdr mem =
     (let seq = rh_seq hdr;
          jb = (if jb_ssrc jb \<noteq> 0 \<and> jb_ssrc jb \<noteq> rh_ssrc hdr then jbuf_flush jb else jb);
          jb = jb\<lparr>jb_ssrc := rh_ssrc hdr\<rparr>
      in if jb_running jb \<and> jb_seq_get jb \<noteq> 0 \<and> seq_less seq (jb_seq_get jb + 1)
         then Some (ETIMEDOUT, stat_inc n_late_update jb)
         else case frame_alloc (stat_inc n_put_update jb) of
           None \<Rightarrow> None
         | Some (f0, jb) \<Rightarrow>
             let f = \<lparr>fr_hdr = hdr, fr_mem = mem\<rparr>; fs = jb_framel jb
             in if fs = [] \<or> seq_less (fr_seq (last fs)) seq
                then Some (OK, jbuf_put_success tr jb (fs @ [f]) hdr mem)
                else case jbuf_insert f (rev fs) of
                  None \<Rightarrow> Some (EALREADY, frame_deref (stat_inc n_dups_update jb) f0)
                | Some rfs \<Rightarrow> Some (OK, jbuf_put_success tr (stat_inc n_oos_update jb) (rev rfs) hdr mem))"

text \<open>Whether \<^verbatim>\<open>jbuf_get\<close> waits instead of delivering a frame, and the state changes of that decision.\<close>

definition jbuf_get_wait :: "'m jbuf \<Rightarrow> bool \<times> 'm jbuf" where
  "jbuf_get_wait jb =
     (if jb_type jb = JBUF_ADAPTIVE then
        let waits = (\<lambda>jb. jb_silence jb \<and> jb_n jb < jb_max jb - 1 \<and> jbuf_state jb = JS_LOW) in
        if \<not> jb_started jb then
          if jb_n jb < jb_wish jb then (True, jb)
          else let jb = init_jitst (jb\<lparr>jb_started := True\<rparr>) in (waits jb, jb)
        else if jb_framel jb = [] then
          (True, (stat_inc n_underflow_update jb)\<lparr>jb_jitst := (jb_jitst jb)\<lparr>js_st := JS_EMPTY\<rparr>\<rparr>)
        else (waits jb, jb)
      else if jb_n jb \<le> jb_min jb \<or> jb_framel jb = [] then (True, stat_inc n_underflow_update jb)
      else (False, jb))"

text \<open>
  The result of \<^verbatim>\<open>jbuf_get\<close>: an error code, and the header and payload when a frame is delivered.
\<close>

definition jbuf_get :: "'m jbuf \<Rightarrow> (err \<times> (rtp_header \<times> 'm option) option \<times> 'm jbuf) option" where
  "jbuf_get jb =
     (let (wait, jb) = jbuf_get_wait (stat_inc n_get_update jb) in
      if wait then Some (ENOENT, None, jb)
      else case jb_framel jb of
        [] \<Rightarrow> None
      | f # fs \<Rightarrow>
          let jb = (if jb_seq_get jb \<noteq> 0 \<and> \<not> seq_less (fr_seq f) (jb_seq_get jb) \<and>
                       sint (fr_seq f - jb_seq_get jb) > 1
                    then stat_inc n_lost_update jb else jb);
              jb = mem_ref (fr_mem f) (jb\<lparr>jb_seq_get := fr_seq f\<rparr>);
              jb = frame_deref (jb\<lparr>jb_framel := fs\<rparr>) f
          in if jb_type jb = JBUF_ADAPTIVE \<and>
                (jb_n jb > jb_min jb \<and> jbuf_state jb = JS_HIGH \<or> jb_n jb = jb_max jb)
             then Some (EAGAIN, Some (fr_hdr f, fr_mem f),
               jb\<lparr>jb_jitst := (jb_jitst jb)\<lparr>js_avbuftime := i32 (js_avbuftime (jb_jitst jb) - js_jtime (jb_jitst jb)),
                                         js_st := JS_GOOD\<rparr>\<rparr>)
             else Some (OK, Some (fr_hdr f, fr_mem f), jb))"

definition jbuf_stats :: "'m jbuf \<Rightarrow> jbuf_stat" where
  "jbuf_stats jb = jb_stat jb"

section \<open>The invariant\<close>

text \<open>The part of the buffer that the timing code does not touch.\<close>

definition jb_core where
  "jb_core jb = (jb_pooll jb, jb_framel jb, jb_n jb, jb_refs jb, jb_type jb, jb_wish jb, jb_min jb, jb_seq_get jb)"

lemma jb_core_eq: "jb_core jb = jb_core jb' \<longleftrightarrow>
  jb_pooll jb = jb_pooll jb' \<and> jb_framel jb = jb_framel jb' \<and> jb_n jb = jb_n jb' \<and> jb_refs jb = jb_refs jb' \<and>
  jb_type jb = jb_type jb' \<and> jb_wish jb = jb_wish jb' \<and> jb_min jb = jb_min jb' \<and> jb_seq_get jb = jb_seq_get jb'"
  by (simp add: jb_core_def)

lemma init_jitst_core [simp]: "jb_core (init_jitst jb) = jb_core jb"
  by (simp add: init_jitst_def jb_core_def Let_def)

lemma jbuf_jitter_calc_core [simp]: "jb_core (jbuf_jitter_calc tr jb ts) = jb_core jb"
  by (simp add: jbuf_jitter_calc_def calc_bufftime_def jb_core_def Let_def)

lemma jbuf_jitter_calc_framel: "jb_framel (jbuf_jitter_calc tr jb ts) = jb_framel jb"
  using jbuf_jitter_calc_core [of tr jb ts] by (simp only: jb_core_eq)

text \<open>Neighbouring frames are in sequence; \<open>seq_less\<close> is the order of the 16-bit circle.\<close>

definition in_seq :: "'m frame list \<Rightarrow> bool" where
  "in_seq = successively (\<lambda>f g. seq_less (fr_seq f) (fr_seq g))"

definition jb_ok :: "nat \<Rightarrow> 'm jbuf \<Rightarrow> bool" where
  "jb_ok cap jb \<longleftrightarrow> unat (jb_n jb) = length (jb_framel jb) \<and>
     length (jb_framel jb) + length (jb_pooll jb) = cap \<and> cap < 2 ^ 32 \<and> in_seq (jb_framel jb) \<and>
     (\<forall>f \<in> set (jb_pooll jb). fr_mem f = None) \<and>
     (jb_type jb = JBUF_ADAPTIVE \<longrightarrow> jb_wish jb \<noteq> 0 \<and> jb_min jb \<noteq> 0)"

lemma jb_ok_core: "jb_core jb = jb_core jb' \<Longrightarrow> jb_ok cap jb = jb_ok cap jb'"
  by (simp add: jb_ok_def jb_core_eq)

lemma mem_calls_simps [simp]:
  "jb_pooll (mem_ref x jb) = jb_pooll jb" "jb_framel (mem_ref x jb) = jb_framel jb"
  "jb_n (mem_ref x jb) = jb_n jb" "jb_type (mem_ref x jb) = jb_type jb" "jb_wish (mem_ref x jb) = jb_wish jb"
  "jb_seq_get (mem_ref x jb) = jb_seq_get jb" "jb_min (mem_ref x jb) = jb_min jb"
  "jb_started (mem_ref x jb) = jb_started jb" "jb_max (mem_ref x jb) = jb_max jb"
  "jb_jitst (mem_ref x jb) = jb_jitst jb"
  "jb_pooll (mem_deref x jb) = jb_pooll jb" "jb_framel (mem_deref x jb) = jb_framel jb"
  "jb_n (mem_deref x jb) = jb_n jb" "jb_type (mem_deref x jb) = jb_type jb" "jb_wish (mem_deref x jb) = jb_wish jb"
  "jb_seq_get (mem_deref x jb) = jb_seq_get jb" "jb_min (mem_deref x jb) = jb_min jb"
  "jb_started (mem_deref x jb) = jb_started jb" "jb_max (mem_deref x jb) = jb_max jb"
  "jb_jitst (mem_deref x jb) = jb_jitst jb"
  by (simp_all add: mem_ref_def mem_deref_def split: option.splits)

lemma sint_u16: "sint (w :: u16) = (if uint w < 32768 then uint w else uint w - 65536)"
proof -
  have "sint w = (uint w + 32768) mod 65536 - 32768"
    using int_word_sint [where ?'a = 16, of "uint w"] by simp
  moreover have "(u + 32768) mod 65536 = (if u < 32768 then u + 32768 else u - 32768)"
    if "0 \<le> u" "u < 65536" for u :: int
    using that mod_pos_pos_trivial [of "u - 32768" 65536] mod_add_self2 [of "u - 32768" 65536]
    by (auto simp: add.commute)
  moreover have "0 \<le> uint w" "uint w < 65536" using uint_lt2p [of w] by simp_all
  ultimately show ?thesis by simp
qed

text \<open>The offset of \<open>y\<close> behind \<open>x\<close> on the circle decides the order.\<close>

lemma seq_less_iff: "seq_less x y \<longleftrightarrow> x \<noteq> y \<and> uint (y - x) \<le> 32768"
proof -
  have "uint (x - y) = (if x = y then 0 else 65536 - uint (y - x))"
    using uint_sub_if' [of x y] uint_sub_if' [of y x] by (auto simp: word_uint_eq_iff)
  moreover have "uint (y - x) < 65536" "x \<noteq> y \<Longrightarrow> 0 < uint (y - x)"
    using uint_lt2p [of "y - x"] uint_ge_0 [of "y - x"] by (auto simp: less_le uint_0_iff)
  ultimately show ?thesis by (auto simp: seq_less_def sint_u16)
qed

lemma seq_less_total: "\<not> seq_less x y \<Longrightarrow> x \<noteq> y \<Longrightarrow> seq_less y x"
proof -
  have "uint (x - y) = 65536 - uint (y - x)" if "x \<noteq> y"
    using that uint_sub_if' [of x y] uint_sub_if' [of y x] by (auto simp: word_uint_eq_iff)
  then show "\<not> seq_less x y \<Longrightarrow> x \<noteq> y \<Longrightarrow> seq_less y x" by (auto simp: seq_less_iff)
qed

subsection \<open>Insertion\<close>

lemma in_seq_append:
  "in_seq (fs @ gs) \<longleftrightarrow> in_seq fs \<and> in_seq gs \<and>
     (fs = [] \<or> gs = [] \<or> seq_less (fr_seq (last fs)) (fr_seq (hd gs)))"
  unfolding in_seq_def by (rule successively_append_iff)

lemma in_seq_simps [simp]: "in_seq []" "in_seq [f]"
  by (simp_all add: in_seq_def)

text \<open>
  An inserted frame splits the list: the part behind it is later, the frame before it is
  earlier, and nothing else changes.
\<close>

lemma jbuf_insert_split:
  "jbuf_insert f rfs = Some rgs \<Longrightarrow>
     \<exists>as bs. rev rfs = as @ bs \<and> rev rgs = as @ f # bs \<and>
       (as = [] \<or> seq_less (fr_seq (last as)) (fr_seq f)) \<and> (\<forall>b \<in> set bs. seq_less (fr_seq f) (fr_seq b))"
proof (induction rfs arbitrary: rgs)
  case (Cons x xs)
  show ?case
  proof (cases "seq_less (fr_seq x) (fr_seq f)")
    case True
    then show ?thesis using Cons.prems by (intro exI [of _ "rev (x # xs)"] exI [of _ "[]"]) auto
  next
    case False
    with Cons.prems obtain rs where rs: "jbuf_insert f xs = Some rs" "rgs = x # rs"
      and ne: "fr_seq f \<noteq> fr_seq x" by (auto split: if_splits)
    from Cons.IH [OF rs(1)] obtain as bs where "rev xs = as @ bs" "rev rs = as @ f # bs"
      "as = [] \<or> seq_less (fr_seq (last as)) (fr_seq f)" "\<forall>b \<in> set bs. seq_less (fr_seq f) (fr_seq b)"
      by blast
    with rs ne seq_less_total [OF False] show ?thesis
      by (intro exI [of _ as] exI [of _ "bs @ [x]"]) auto
  qed
qed auto

lemma jbuf_insert_in_seq:
  assumes "jbuf_insert f (rev fs) = Some rgs" "in_seq fs"
  shows "in_seq (rev rgs)" "mset rgs = add_mset f (mset fs)" "length rgs = Suc (length fs)"
proof -
  from jbuf_insert_split [OF assms(1)] obtain as bs where s: "fs = as @ bs" "rev rgs = as @ f # bs"
    "as = [] \<or> seq_less (fr_seq (last as)) (fr_seq f)" "\<forall>b \<in> set bs. seq_less (fr_seq f) (fr_seq b)"
    by auto
  show "in_seq (rev rgs)"
    using assms(2) s in_seq_append [of "[f]" bs] by (cases bs) (auto simp: in_seq_append)
  have "mset (rev rgs) = add_mset f (mset fs)" unfolding s(1,2) by simp
  then show "mset rgs = add_mset f (mset fs)" by simp
  have "length (rev rgs) = Suc (length fs)" unfolding s(1,2) by simp
  then show "length rgs = Suc (length fs)" by simp
qed

subsection \<open>References\<close>

definition net :: "'m mem_call list \<Rightarrow> 'm \<Rightarrow> int" where
  "net log x = int (count_list log (MemRef x)) - int (count_list log (MemDeref x))"

definition held :: "'m frame list \<Rightarrow> 'm multiset" where
  "held fs = mset (List.map_filter fr_mem fs)"

lemma net_simps [simp]:
  "net [] x = 0" "net (log @ log') x = net log x + net log' x"
  "net [MemRef y] x = (if x = y then 1 else 0)" "net [MemDeref y] x = (if x = y then -1 else 0)"
  by (auto simp: net_def)

lemma held_simps [simp]:
  "held [] = {#}" "held (fs @ gs) = held fs + held gs"
  "held (f # fs) = (case fr_mem f of None \<Rightarrow> {#} | Some x \<Rightarrow> {#x#}) + held fs"
  by (auto simp: held_def map_filter_def split: option.splits)

lemma held_mset: "mset fs = mset gs \<Longrightarrow> held fs = held gs"
proof -
  have "held fs = image_mset (the \<circ> fr_mem) (filter_mset (\<lambda>f. fr_mem f \<noteq> None) (mset fs))" for fs :: "'a frame list"
    by (induction fs) (auto split: option.splits)
  then show "mset fs = mset gs \<Longrightarrow> held fs = held gs" by simp
qed

text \<open>
  The references taken and not given back are those of the buffered frames and those of the
  payloads \<open>d\<close> that were delivered.
\<close>

definition refs_ok :: "'m list \<Rightarrow> 'm jbuf \<Rightarrow> bool" where
  "refs_ok d jb \<longleftrightarrow> (\<forall>x. net (jb_refs jb) x = int (count (held (jb_framel jb) + mset d) x))"

lemma refs_ok_core: "jb_core jb = jb_core jb' \<Longrightarrow> refs_ok d jb = refs_ok d jb'"
  by (simp add: refs_ok_def jb_core_eq)

lemma net_mem_calls [simp]:
  "net (jb_refs (mem_ref mo jb)) x = net (jb_refs jb) x + (if mo = Some x then 1 else 0)"
  "net (jb_refs (mem_deref mo jb)) x = net (jb_refs jb) x - (if mo = Some x then 1 else 0)"
  by (auto simp: mem_ref_def mem_deref_def split: option.splits)

definition jb_inv :: "nat \<Rightarrow> 'm list \<Rightarrow> 'm jbuf \<Rightarrow> bool" where
  "jb_inv cap d jb \<longleftrightarrow> jb_ok cap jb \<and> refs_ok d jb"

lemma jb_inv_core: "jb_core jb = jb_core jb' \<Longrightarrow> jb_inv cap d jb = jb_inv cap d jb'"
  by (simp add: jb_inv_def jb_ok_core [of jb jb'] refs_ok_core [of jb jb'])

subsection \<open>The invariant is kept\<close>

text \<open>One frame of the pool is in the hands of the caller.\<close>

definition jb_mid :: "nat \<Rightarrow> 'm list \<Rightarrow> 'm jbuf \<Rightarrow> bool" where
  "jb_mid cap d jb \<longleftrightarrow> unat (jb_n jb) = Suc (length (jb_framel jb)) \<and>
     Suc (length (jb_framel jb) + length (jb_pooll jb)) = cap \<and> cap < 2 ^ 32 \<and> in_seq (jb_framel jb) \<and>
     (\<forall>f \<in> set (jb_pooll jb). fr_mem f = None) \<and>
     (jb_type jb = JBUF_ADAPTIVE \<longrightarrow> jb_wish jb \<noteq> 0 \<and> jb_min jb \<noteq> 0) \<and> refs_ok d jb"

lemma unat_inc: "unat (n :: u32) < 2 ^ 32 - 1 \<Longrightarrow> unat (n + 1) = Suc (unat n)"
  by (simp add: unat_word_ariths)

lemma unat_dec: "unat (n :: u32) = Suc k \<Longrightarrow> unat (n - 1) = k"
  by (simp add: unat_sub_if')

lemma frame_alloc_mid:
  assumes "jb_inv cap d jb" "0 < cap"
  shows "\<exists>f jb'. frame_alloc jb = Some (f, jb') \<and> jb_mid cap d jb' \<and> fr_mem f = None \<and>
    (jb_pooll jb = [] \<longrightarrow> jb_framel jb' = tl (jb_framel jb)) \<and>
    (jb_pooll jb \<noteq> [] \<longrightarrow> jb_framel jb' = jb_framel jb)"
proof (cases "jb_pooll jb")
  case (Cons f pool)
  then show ?thesis using assms unat_inc [of "jb_n jb"]
    by (auto simp: frame_alloc_def jb_inv_def jb_ok_def jb_mid_def refs_ok_def)
next
  case Nil
  with assms obtain f0 fs where fs: "jb_framel jb = f0 # fs"
    by (cases "jb_framel jb") (auto simp: jb_inv_def jb_ok_def)
  have "in_seq fs" using assms(1) fs in_seq_append [of "[f0]" fs] by (simp add: jb_inv_def jb_ok_def)
  with Nil fs assms show ?thesis
    by (auto simp: frame_alloc_def jb_inv_def jb_ok_def jb_mid_def refs_ok_def Let_def split: option.splits)
qed

lemma frame_deref_inv:
  assumes "jb_mid cap d jb" "fr_mem f = None"
  shows "jb_inv cap d (frame_deref jb f)"
  using assms unat_dec [of "jb_n jb"]
  by (auto simp: frame_deref_def jb_mid_def jb_inv_def jb_ok_def refs_ok_def Let_def mem_deref_def)

lemma put_success_inv:
  assumes "jb_mid cap d jb" "in_seq fs" "mset fs = add_mset \<lparr>fr_hdr = hdr, fr_mem = mem\<rparr> (mset (jb_framel jb))"
  shows "jb_inv cap d (jbuf_put_success tr jb fs hdr mem)"
    "jb_framel (jbuf_put_success tr jb fs hdr mem) = fs"
    "jb_seq_get (jbuf_put_success tr jb fs hdr mem) = jb_seq_get jb"
    "jb_pooll (jbuf_put_success tr jb fs hdr mem) = jb_pooll jb"
proof -
  define jb1 where "jb1 = mem_ref mem (jb\<lparr>jb_framel := fs, jb_running := True, jb_seq_put := rh_seq hdr\<rparr>)"
  have c: "jb_core (jbuf_put_success tr jb fs hdr mem) = jb_core jb1"
    by (simp add: jbuf_put_success_def Let_def jb1_def)
  have "held fs = held (\<lparr>fr_hdr = hdr, fr_mem = mem\<rparr> # jb_framel jb)"
    using assms(3) by (intro held_mset) simp
  moreover have "length fs = Suc (length (jb_framel jb))"
    using arg_cong [OF assms(3), of size] by simp
  ultimately have "jb_inv cap d jb1"
    using assms(1,2)
    by (auto simp: jb1_def jb_mid_def jb_inv_def jb_ok_def refs_ok_def split: option.splits)
  then show "jb_inv cap d (jbuf_put_success tr jb fs hdr mem)" by (simp add: jb_inv_core [OF c])
  show "jb_framel (jbuf_put_success tr jb fs hdr mem) = fs"
    "jb_seq_get (jbuf_put_success tr jb fs hdr mem) = jb_seq_get jb"
    "jb_pooll (jbuf_put_success tr jb fs hdr mem) = jb_pooll jb"
    using c by (simp_all add: jb_core_eq) (simp_all add: jb1_def)
qed

lemma flush_frames_inv:
  "jb_inv cap d jb \<Longrightarrow> jb_framel jb = fs \<Longrightarrow>
     jb_inv cap d (flush_frames fs jb) \<and> jb_framel (flush_frames fs jb) = []"
proof (induction fs arbitrary: jb)
  case (Cons f fs)
  have "in_seq fs" using Cons.prems in_seq_append [of "[f]" fs] by (simp add: jb_inv_def jb_ok_def)
  moreover have "unat (jb_n jb - 1) = length fs"
    using Cons.prems by (intro unat_dec) (simp add: jb_inv_def jb_ok_def)
  ultimately have "jb_inv cap d (frame_deref (jb\<lparr>jb_framel := fs\<rparr>) f)"
    using Cons.prems
    by (auto simp: jb_inv_def jb_ok_def refs_ok_def frame_deref_def Let_def split: option.splits)
  moreover have "jb_framel (frame_deref (jb\<lparr>jb_framel := fs\<rparr>) f) = fs"
    by (simp add: frame_deref_def Let_def)
  ultimately show ?case using Cons.IH by simp
qed simp

lemma jbuf_flush_inv:
  assumes "jb_inv cap d jb"
  shows "jb_inv cap d (jbuf_flush jb)" "jb_framel (jbuf_flush jb) = []" "jb_seq_get (jbuf_flush jb) = 0"
    "jb_running (jbuf_flush jb) = False"
proof -
  define jb1 where "jb1 = flush_frames (jb_framel jb) jb"
  have f: "jb_inv cap d jb1" "jb_framel jb1 = []"
    using flush_frames_inv [OF assms refl] by (auto simp: jb1_def)
  define jb2 where "jb2 = jb1\<lparr>jb_n := 0, jb_running := False, jb_seq_get := 0,
    jb_stat := stat0\<lparr>n_flush := n_flush (jb_stat jb1) + 1\<rparr>\<rparr>"
  have e: "jbuf_flush jb = (init_jitst jb2)\<lparr>jb_started := False\<rparr>"
    by (simp add: jbuf_flush_def jb2_def jb1_def Let_def)
  then have c: "jb_core (jbuf_flush jb) = jb_core jb2"
    using init_jitst_core [of jb2] by (simp add: jb_core_def)
  have "jb_inv cap d jb2" using f by (auto simp: jb2_def jb_inv_def jb_ok_def refs_ok_def)
  then show "jb_inv cap d (jbuf_flush jb)" by (simp add: jb_inv_core [OF c])
  show "jb_framel (jbuf_flush jb) = []" "jb_seq_get (jbuf_flush jb) = 0"
    using c f by (simp_all add: jb_core_eq jb2_def)
  show "jb_running (jbuf_flush jb) = False"
    by (simp add: e init_jitst_def jb2_def Let_def)
qed

text \<open>What \<^verbatim>\<open>jbuf_put\<close> does once the packet was not refused as late.\<close>

lemma put_frame_inv:
  assumes "jb_mid cap d jb" "fr_mem f0 = None"
    and "r = (let f = \<lparr>fr_hdr = hdr, fr_mem = mem\<rparr>; fs = jb_framel jb
             in if fs = [] \<or> seq_less (fr_seq (last fs)) (rh_seq hdr)
                then Some (OK, jbuf_put_success tr jb (fs @ [f]) hdr mem)
                else case jbuf_insert f (rev fs) of
                  None \<Rightarrow> Some (EALREADY, frame_deref (stat_inc n_dups_update jb) f0)
                | Some rfs \<Rightarrow> Some (OK, jbuf_put_success tr (stat_inc n_oos_update jb) (rev rfs) hdr mem))"
  shows "\<exists>e jb'. r = Some (e, jb') \<and> jb_inv cap d jb'"
proof -
  let ?f = "\<lparr>fr_hdr = hdr, fr_mem = mem\<rparr>"
  have q: "in_seq (jb_framel jb)" using assms(1) by (simp add: jb_mid_def)
  have mid: "jb_mid cap d (stat_inc upd jb)" for upd using assms(1) by (simp add: jb_mid_def refs_ok_def)
  show ?thesis
  proof (cases "jb_framel jb = [] \<or> seq_less (fr_seq (last (jb_framel jb))) (rh_seq hdr)")
    case True
    then have "in_seq (jb_framel jb @ [?f])" using q by (auto simp: in_seq_append)
    then show ?thesis using True put_success_inv(1) [OF assms(1), of "jb_framel jb @ [?f]" hdr mem tr] assms(3)
      by (simp add: Let_def)
  next
    case False
    show ?thesis
    proof (cases "jbuf_insert ?f (rev (jb_framel jb))")
      case None
      then show ?thesis using False assms(3) frame_deref_inv [OF mid [of n_dups_update] assms(2)]
        by (simp add: Let_def)
    next
      case (Some rgs)
      note i = jbuf_insert_in_seq [OF Some q]
      have "mset (rev rgs) = add_mset ?f (mset (jb_framel (stat_inc n_oos_update jb)))" using i(2) by simp
      from put_success_inv(1) [OF mid [of n_oos_update] i(1) this] False Some assms(3) show ?thesis by (simp add: Let_def)
    qed
  qed
qed

lemma jbuf_put_inv:
  assumes "jb_inv cap d jb" "0 < cap"
  shows "\<exists>e jb'. jbuf_put tr jb hdr mem = Some (e, jb') \<and> jb_inv cap d jb'"
proof -
  define jb1 where "jb1 = (if jb_ssrc jb \<noteq> 0 \<and> jb_ssrc jb \<noteq> rh_ssrc hdr then jbuf_flush jb else jb)\<lparr>jb_ssrc := rh_ssrc hdr\<rparr>"
  have "jb_inv cap d (jb1\<lparr>jb_stat := x\<rparr>)" for x
    using assms(1) jbuf_flush_inv(1) [OF assms(1)] by (auto simp: jb1_def jb_inv_def jb_ok_def refs_ok_def)
  note inv = this
  show ?thesis
  proof (cases "jb_running jb1 \<and> jb_seq_get jb1 \<noteq> 0 \<and> seq_less (rh_seq hdr) (jb_seq_get jb1 + 1)")
    case True
    then show ?thesis using inv by (auto simp: jbuf_put_def Let_def jb1_def)
  next
    case False
    obtain f0 jb2 where "frame_alloc (stat_inc n_put_update jb1) = Some (f0, jb2)" "jb_mid cap d jb2"
      "fr_mem f0 = None"
      using frame_alloc_mid [OF inv assms(2)] by blast
    then show ?thesis
      using False put_frame_inv [OF _ _ refl, of cap d jb2 f0 hdr mem tr]
      unfolding jbuf_put_def Let_def jb1_def [symmetric] by auto
  qed
qed

definition delivered :: "(rtp_header \<times> 'm option) option \<Rightarrow> 'm list" where
  "delivered r = (case r of Some (hdr, Some x) \<Rightarrow> [x] | _ \<Rightarrow> [])"

lemma jbuf_get_wait_core:
  assumes "jb_ok cap jb" "jbuf_get_wait jb = (w, jb')"
  shows "jb_core jb' = jb_core jb" "\<not> w \<Longrightarrow> jb_framel jb \<noteq> []"
proof -
  have "jb_core (init_jitst (jb\<lparr>jb_started := True\<rparr>)) = jb_core jb"
    by (simp add: jb_core_def init_jitst_def Let_def)
  then show "jb_core jb' = jb_core jb"
    using assms(2) by (auto simp: jbuf_get_wait_def Let_def split: if_splits) (simp_all add: jb_core_def)
  have n: "jb_framel jb \<noteq> []" if "\<not> jb_n jb < jb_wish jb" "jb_wish jb \<noteq> 0"
  proof -
    have "jb_n jb \<noteq> 0" using that by (auto simp: word_neq_0_conv)
    then show ?thesis using assms(1) by (auto simp: jb_ok_def unat_eq_0)
  qed
  show "jb_framel jb \<noteq> []" if "\<not> w"
    using assms that n by (auto simp: jbuf_get_wait_def Let_def jb_ok_def split: if_splits)
qed

lemma jbuf_get_inv:
  assumes "jb_inv cap d jb"
  shows "\<exists>e r jb'. jbuf_get jb = Some (e, r, jb') \<and> jb_inv cap (d @ delivered r) jb'"
proof -
  define jb0 where "jb0 = stat_inc n_get_update jb"
  have i0: "jb_inv cap d jb0" using assms by (simp add: jb0_def jb_inv_def jb_ok_def refs_ok_def)
  obtain w jb1 where w: "jbuf_get_wait jb0 = (w, jb1)" by (metis surj_pair)
  note c = jbuf_get_wait_core [OF _ w, of cap]
  have i1: "jb_inv cap d jb1" using i0 jb_inv_core [of jb1 jb0] c(1) by (simp add: jb_inv_def)
  show ?thesis
  proof (cases w)
    case True
    then show ?thesis using w i1 by (simp add: jbuf_get_def delivered_def flip: jb0_def)
  next
    case False
    then obtain f fs where fs: "jb_framel jb1 = f # fs"
      using c i0 by (auto simp: jb_inv_def jb_core_eq neq_Nil_conv)
    have q: "in_seq fs" using i1 fs in_seq_append [of "[f]" fs] by (simp add: jb_inv_def jb_ok_def)
    have n: "unat (jb_n jb1 - 1) = length fs" using i1 fs by (intro unat_dec) (simp add: jb_inv_def jb_ok_def)
    have "jb_inv cap (d @ delivered (Some (fr_hdr f, fr_mem f)))
        (frame_deref ((mem_ref (fr_mem f) (jb\<lparr>jb_seq_get := fr_seq f\<rparr>))\<lparr>jb_framel := fs\<rparr>) f)"
      if "jb_core jb = jb_core jb1" for jb
      using i1 fs q n that
      by (auto simp: frame_deref_def delivered_def jb_inv_def jb_ok_def refs_ok_def Let_def jb_core_eq
          split: option.splits)
    note step = this
    show ?thesis
    proof -
      define jb2 where "jb2 = (if jb_seq_get jb1 \<noteq> 0 \<and> \<not> seq_less (fr_seq f) (jb_seq_get jb1) \<and>
          sint (fr_seq f - jb_seq_get jb1) > 1 then stat_inc n_lost_update jb1 else jb1)"
      define jb3 where "jb3 = frame_deref ((mem_ref (fr_mem f) (jb2\<lparr>jb_seq_get := fr_seq f\<rparr>))\<lparr>jb_framel := fs\<rparr>) f"
      have "jb_inv cap (d @ delivered (Some (fr_hdr f, fr_mem f))) jb3"
        unfolding jb3_def by (rule step) (simp add: jb2_def jb_core_def)
      moreover from this have "jb_inv cap (d @ delivered (Some (fr_hdr f, fr_mem f))) (jb3\<lparr>jb_jitst := x\<rparr>)" for x
        by (simp add: jb_inv_def jb_ok_def refs_ok_def)
      ultimately show ?thesis
        using w False fs
        unfolding jbuf_get_def Let_def jb0_def [symmetric] by (simp flip: jb2_def) (simp flip: jb3_def)
    qed
  qed
qed

lemma max_word_ne: "(a :: u32) \<noteq> 0 \<Longrightarrow> max a b \<noteq> 0"
  by (auto simp: max_def)

lemma jbuf_set_inv:
  assumes "jb_inv cap d jb"
  shows "jb_inv cap d (jbuf_set_type jb t)" "jb_inv cap d (jbuf_set_wish jb w)" "jb_inv cap d (jbuf_silence jb b)"
proof -
  have "max (a :: u32) 1 \<noteq> 0" for a by (auto simp: max_def)
  then show "jb_inv cap d (jbuf_set_type jb t)"
    using assms by (auto simp: jbuf_set_type_def jb_inv_def jb_ok_def refs_ok_def Let_def max_word_ne)
  show "jb_inv cap d (jbuf_set_wish jb w)" "jb_inv cap d (jbuf_silence jb b)"
    using assms
    by (auto simp: jbuf_set_wish_def jbuf_silence_def jb_inv_def jb_ok_def refs_ok_def max_word_ne)
qed

lemma jbuf_alloc_inv:
  assumes "jbuf_alloc mok le fok mn mx = Inr jb"
  shows "jb_inv (unat mx) [] jb"
  using assms uint_lt2p [of mx] unsigned_less [of mx, where 'a = nat]
  by (auto simp: jbuf_alloc_def jb_inv_def jb_ok_def refs_ok_def frame0_def Let_def split: if_splits)

lemma jbuf_alloc_seq_get: "jbuf_alloc mok le fok mn mx = Inr jb \<Longrightarrow> jb_seq_get jb = 0"
  by (auto simp: jbuf_alloc_def split: if_splits)

section \<open>Buffers in operation\<close>

text \<open>A buffer and the payloads it delivered, under any sequence of calls with any packets and times.\<close>

inductive jbuf_step :: "'m jbuf \<times> 'm list \<Rightarrow> 'm jbuf \<times> 'm list \<Rightarrow> bool" where
  put: "jbuf_put tr jb hdr mem = Some (e, jb') \<Longrightarrow> jbuf_step (jb, d) (jb', d)"
| get: "jbuf_get jb = Some (e, r, jb') \<Longrightarrow> jbuf_step (jb, d) (jb', d @ delivered r)"
| flush: "jbuf_step (jb, d) (jbuf_flush jb, d)"
| set_type: "jbuf_step (jb, d) (jbuf_set_type jb t, d)"
| set_wish: "jbuf_step (jb, d) (jbuf_set_wish jb w, d)"
| silence: "jbuf_step (jb, d) (jbuf_silence jb b, d)"

definition jbuf_init :: "nat \<Rightarrow> 'm jbuf \<times> 'm list \<Rightarrow> bool" where
  "jbuf_init cap r \<longleftrightarrow> (\<exists>mok lock_err fok mn mx. jbuf_alloc mok lock_err fok mn mx = Inr (fst r) \<and> unat mx = cap) \<and>
     snd r = []"

definition jbuf_good :: "nat \<Rightarrow> 'm jbuf \<times> 'm list \<Rightarrow> bool" where
  "jbuf_good cap r \<longleftrightarrow> jb_inv cap (snd r) (fst r) \<and> (cap = 0 \<longrightarrow> jb_seq_get (fst r) = 0)"

text \<open>A buffer without frames has nothing to deliver, and no frame for a packet.\<close>

lemma jbuf_empty:
  assumes "jb_inv 0 d jb" "jb_seq_get jb = 0"
  shows "jbuf_put tr jb hdr mem = None" "jbuf_get jb = Some (e, r, jb') \<Longrightarrow> jb_seq_get jb' = 0"
proof -
  define jb1 where "jb1 = (if jb_ssrc jb \<noteq> 0 \<and> jb_ssrc jb \<noteq> rh_ssrc hdr then jbuf_flush jb else jb)\<lparr>jb_ssrc := rh_ssrc hdr\<rparr>"
  have "jb_inv 0 d jb1" "jb_seq_get jb1 = 0"
    using assms jbuf_flush_inv [OF assms(1)] by (auto simp: jb1_def jb_inv_def jb_ok_def refs_ok_def)
  then have "frame_alloc (stat_inc n_put_update jb1) = None" by (simp add: frame_alloc_def jb_inv_def jb_ok_def)
  with \<open>jb_seq_get jb1 = 0\<close> show "jbuf_put tr jb hdr mem = None"
    unfolding jbuf_put_def Let_def jb1_def [symmetric] by simp
next
  assume g: "jbuf_get jb = Some (e, r, jb')"
  define jb0 where "jb0 = stat_inc n_get_update jb"
  have i0: "jb_ok 0 jb0" using assms(1) by (simp add: jb0_def jb_inv_def jb_ok_def)
  obtain w jb1 where w: "jbuf_get_wait jb0 = (w, jb1)" by (metis surj_pair)
  note c = jbuf_get_wait_core [OF i0 w]
  have "w" using c(2) i0 by (auto simp: jb_ok_def)
  then have "jb' = jb1" using g w by (simp add: jbuf_get_def flip: jb0_def)
  then show "jb_seq_get jb' = 0" using c(1) assms(2) by (simp add: jb_core_eq jb0_def)
qed

lemma jbuf_sets_seq_get [simp]:
  "jb_seq_get (jbuf_set_type jb t) = jb_seq_get jb" "jb_seq_get (jbuf_set_wish jb w) = jb_seq_get jb"
  "jb_seq_get (jbuf_silence jb b) = jb_seq_get jb"
  by (simp_all add: jbuf_set_type_def jbuf_set_wish_def jbuf_silence_def Let_def)

lemma jbuf_step_good: "jbuf_step r r' \<Longrightarrow> jbuf_good cap r \<Longrightarrow> jbuf_good cap r'"
proof (induction rule: jbuf_step.induct)
  case (put tr jb hdr mem e jb' d)
  then show ?case using jbuf_put_inv [of cap d jb tr hdr mem] jbuf_empty(1) [of d jb tr hdr mem]
    by (cases "cap = 0") (auto simp: jbuf_good_def)
next
  case (get jb e r jb' d)
  then show ?case using jbuf_get_inv [of cap d jb] jbuf_empty(2) [of d jb] by (auto simp: jbuf_good_def)
qed (auto simp: jbuf_good_def intro: jbuf_flush_inv jbuf_set_inv)

interpretation jbinv: invariant_system "jbuf_init cap" jbuf_step "jbuf_good cap"
  for cap
proof unfold_locales
  show "jbuf_good cap r" if "jbuf_init cap r" for r :: "'a jbuf \<times> 'a list"
    using that by (auto simp: jbuf_init_def jbuf_good_def intro: jbuf_alloc_inv jbuf_alloc_seq_get)
qed (rule jbuf_step_good)

text \<open>
  C19. In every run of a jitter buffer: the frame counter is the number of buffered frames, buffered and free frames together are the frames allocated at the
  start, and neighbouring frames are in sequence.
\<close>

theorem jbuf_reachable_ok:
  assumes "reach (jbuf_init cap) jbuf_step (jb, d)"
  shows "unat (jb_n jb) = length (jb_framel jb) \<and> length (jb_framel jb) + length (jb_pooll jb) = cap \<and>
    successively (\<lambda>f g. seq_less (fr_seq f) (fr_seq g)) (jb_framel jb)"
  using jbinv.reach_inv [OF assms] by (simp add: jbuf_good_def jb_inv_def jb_ok_def in_seq_def)

text \<open>
  C35. In every such run a get returns, and a put returns exactly when the buffer was allocated with
  at least one frame. A buffer of no frames, which \<^verbatim>\<open>jbuf_alloc\<close> accepts, makes every put follow the
  null head of its empty list.
\<close>

theorem jbuf_no_null:
  assumes "reach (jbuf_init cap) jbuf_step (jb, d)"
  shows "jbuf_get jb \<noteq> None \<and> (jbuf_put tr jb hdr mem = None \<longleftrightarrow> cap = 0)"
proof -
  have "jb_inv cap d jb" "cap = 0 \<longrightarrow> jb_seq_get jb = 0" using jbinv.reach_inv [OF assms] by (simp_all add: jbuf_good_def)
  with jbuf_put_inv [of cap d jb tr hdr mem] jbuf_get_inv [of cap d jb] jbuf_empty(1) [of d jb tr hdr mem] show ?thesis
    by (cases "cap = 0") auto
qed

text \<open>
  C3. No reference to a payload is lost or given back twice: in every such run, the references
  the buffer took and did not give back are exactly those of the frames it holds and of the
  payloads it delivered; once the buffer is destroyed only the delivered ones are left.
\<close>

theorem jbuf_refs_balanced:
  assumes "reach (jbuf_init cap) jbuf_step (jb, d)"
  shows "net (jb_refs jb) x = int (count (held (jb_framel jb)) x) + int (count_list d x) \<and>
    net (jb_refs (jbuf_destructor jb)) x = int (count_list d x)"
proof -
  have "jb_inv cap d jb" using jbinv.reach_inv [OF assms] by (simp add: jbuf_good_def)
  with jbuf_flush_inv [OF this] show ?thesis
    by (simp add: jb_inv_def refs_ok_def count_mset jbuf_destructor_def)
qed

text \<open>The run of the witnesses: a buffer of two frames, two packets out of order, and one delivery.\<close>

definition pkt :: "u16 \<Rightarrow> rtp_header" where
  "pkt seq = rtp_hdr0\<lparr>rh_seq := seq, rh_ts := 160 * ucast seq, rh_ssrc := 9\<rparr>"

definition jb0 :: "nat jbuf" where
  "jb0 = projr (jbuf_alloc True OK (\<lambda>i. True) 0 2)"

definition jb1 :: "nat jbuf" where
  "jb1 = snd (the (jbuf_put 0 jb0 (pkt 5) (Some 50)))"

definition jb2 :: "nat jbuf" where
  "jb2 = snd (the (jbuf_put 0 jb1 (pkt 4) (Some 40)))"

definition jb3 :: "nat jbuf" where
  "jb3 = snd (snd (the (jbuf_get jb2)))"

lemma jb_run: "reach (jbuf_init 2) jbuf_step (jb2, [])" "reach (jbuf_init 2) jbuf_step (jb3, [40])"
proof -
  have "\<not> isl (jbuf_alloc True OK (\<lambda>i. True) 0 2 :: err + nat jbuf)" by code_simp
  then have "jbuf_alloc True OK (\<lambda>i. True) 0 2 = Inr jb0" unfolding jb0_def by (auto simp: isl_def)
  then have "jbuf_init 2 (jb0, [])" by (fastforce simp: jbuf_init_def)
  then have r0: "reach (jbuf_init 2) jbuf_step (jb0, [])" by (rule reach_init)
  have "jbuf_put 0 jb0 (pkt 5) (Some 50) \<noteq> None" "jbuf_put 0 jb1 (pkt 4) (Some 40) \<noteq> None"
    "jbuf_get jb2 \<noteq> None" "delivered (fst (snd (the (jbuf_get jb2)))) = [40]" by code_simp+
  then have p: "jbuf_put 0 jb0 (pkt 5) (Some 50) = Some (fst (the (jbuf_put 0 jb0 (pkt 5) (Some 50))), jb1)"
    "jbuf_put 0 jb1 (pkt 4) (Some 40) = Some (fst (the (jbuf_put 0 jb1 (pkt 4) (Some 40))), jb2)"
    "jbuf_get jb2 = Some (fst (the (jbuf_get jb2)), fst (snd (the (jbuf_get jb2))), jb3)"
    "delivered (fst (snd (the (jbuf_get jb2)))) = [40]"
    unfolding jb1_def jb2_def jb3_def by auto
  show r2: "reach (jbuf_init 2) jbuf_step (jb2, [])"
    by (rule reach_step [OF reach_step [OF r0 put [OF p(1)]] put [OF p(2)]])
  show "reach (jbuf_init 2) jbuf_step (jb3, [40])"
    using reach_step [OF r2 get [OF p(3)]] p(4) by simp
qed

theorem jbuf_reachable_ok_witness:
  "reach (jbuf_init 2) jbuf_step (jb2, []) \<and> map fr_seq (jb_framel jb2) = [4, 5] \<and> unat (jb_n jb2) = 2"
proof -
  have f: "map fr_seq (jb_framel jb2) = [4, 5]" by code_simp
  then have "length (jb_framel jb2) = 2" using length_map [of fr_seq "jb_framel jb2"] by simp
  with f jb_run(1) jbuf_reachable_ok [OF jb_run(1)] show ?thesis by simp
qed

theorem jbuf_no_null_witness:
  "reach (jbuf_init 2) jbuf_step (jb2, []) \<and> jbuf_put 0 jb2 (pkt 6) None \<noteq> None \<and> jbuf_get jb2 \<noteq> None"
  using jbuf_no_null [OF jb_run(1), of 0 "pkt 6" None] jb_run(1) by simp

theorem jbuf_refs_balanced_witness:
  "reach (jbuf_init 2) jbuf_step (jb3, [40]) \<and> net (jb_refs jb3) 40 = 1 \<and> net (jb_refs jb3) 50 = 1"
proof -
  have "List.map_filter fr_mem (jb_framel jb3) = [50]" by code_simp
  then have "held (jb_framel jb3) = {#50#}" by (simp add: held_def)
  with jb_run(2) jbuf_refs_balanced [OF jb_run(2)] show ?thesis by simp
qed

section \<open>Order\<close>

text \<open>A delivered frame was the head of the list.\<close>

lemma jbuf_get_head:
  assumes "jb_ok cap jb" "jbuf_get jb = Some (e, Some (h, m), jb')"
  shows "\<exists>f. jb_framel jb = f # jb_framel jb' \<and> fr_hdr f = h"
proof -
  define jb0 where "jb0 = stat_inc n_get_update jb"
  have i0: "jb_ok cap jb0" using assms(1) by (simp add: jb0_def jb_ok_def)
  obtain w jb1 where w: "jbuf_get_wait jb0 = (w, jb1)" by (metis surj_pair)
  have "jb_framel jb1 = jb_framel jb"
    using jbuf_get_wait_core(1) [OF i0 w] by (simp add: jb_core_eq jb0_def)
  with assms(2) w show ?thesis
    unfolding jbuf_get_def jb0_def [symmetric]
    by (auto simp: Let_def frame_deref_def split: if_splits list.splits)
qed

text \<open>
  The distance of a frame behind a base, and a window of half the circle, in which the circular
  order is the order of the distances.
\<close>

definition dist :: "u16 \<Rightarrow> u16 \<Rightarrow> int" where
  "dist b s = uint (s - b)"

lemma seq_less_dist: "dist b x < 32768 \<Longrightarrow> dist b y < 32768 \<Longrightarrow> seq_less x y \<longleftrightarrow> dist b x < dist b y"
proof -
  assume w: "dist b x < 32768" "dist b y < 32768"
  have "y - x = (y - b) - (x - b)" by simp
  then have d: "uint (y - x) = (if dist b x \<le> dist b y then dist b y - dist b x else dist b y - dist b x + 65536)"
    using uint_sub_if' [of "y - b" "x - b"] by (simp add: dist_def)
  have "x = y \<longleftrightarrow> dist b x = dist b y" by (auto simp: dist_def word_uint_eq_iff [symmetric])
  moreover have "0 \<le> dist b x" "0 \<le> dist b y" by (simp_all add: dist_def)
  ultimately show ?thesis using w d by (auto simp: seq_less_iff)
qed

lemma in_seq_sorted:
  "\<forall>f \<in> set fs. dist b (fr_seq f) < 32768 \<Longrightarrow> in_seq fs \<longleftrightarrow> sorted_wrt (<) (map (\<lambda>f. dist b (fr_seq f)) fs)"
proof -
  assume w: "\<forall>f \<in> set fs. dist b (fr_seq f) < 32768"
  have "in_seq fs \<longleftrightarrow> successively (\<lambda>f g. dist b (fr_seq f) < dist b (fr_seq g)) fs"
    unfolding in_seq_def using w by (intro successively_cong) (auto simp: seq_less_dist)
  also have "\<dots> \<longleftrightarrow> successively (<) (map (\<lambda>f. dist b (fr_seq f)) fs)" by (simp add: successively_map)
  also have "\<dots> \<longleftrightarrow> sorted_wrt (<) (map (\<lambda>f. dist b (fr_seq f)) fs)"
    by (rule successively_conv_sorted_wrt) simp
  finally show ?thesis .
qed

lemma jbuf_insert_None: "jbuf_insert f fs = None \<Longrightarrow> \<exists>x \<in> set fs. fr_seq x = fr_seq f"
  by (induction fs) (auto split: if_splits)

lemma sorted_wrt_distinct_map: "sorted_wrt (<) (map h (as @ f # bs)) \<Longrightarrow> \<forall>x \<in> set (as @ bs). h x \<noteq> (h f :: int)"
  by (auto simp: sorted_wrt_append)

lemma put_frame_window:
  assumes mid: "jb_mid cap d jb"
    and w: "\<forall>f \<in> set (jb_framel jb). dist b (fr_seq f) < 32768" "dist b (rh_seq hdr) < 32768"
    and f: "f = \<lparr>fr_hdr = hdr, fr_mem = mem\<rparr>"
  shows "if rh_seq hdr \<in> fr_seq ` set (jb_framel jb)
    then jb_framel jb \<noteq> [] \<and> \<not> seq_less (fr_seq (last (jb_framel jb))) (rh_seq hdr) \<and>
      jbuf_insert f (rev (jb_framel jb)) = None
    else \<exists>fs. sorted_wrt (<) (map (\<lambda>f. dist b (fr_seq f)) fs) \<and> set fs = insert f (set (jb_framel jb)) \<and>
      (if jb_framel jb = [] \<or> seq_less (fr_seq (last (jb_framel jb))) (rh_seq hdr) then fs = jb_framel jb @ [f]
       else jbuf_insert f (rev (jb_framel jb)) = Some (rev fs))"
proof -
  let ?fs = "jb_framel jb"
  let ?h = "\<lambda>f. dist b (fr_seq f)"
  have q: "in_seq ?fs" using mid by (simp add: jb_mid_def)
  have srt: "in_seq gs \<Longrightarrow> sorted_wrt (<) (map ?h gs)" if "set gs = insert f (set ?fs)" for gs
    using in_seq_sorted [of gs b] that w f by auto
  have new: "rh_seq hdr \<notin> fr_seq ` set ?fs" if "sorted_wrt (<) (map ?h (as @ f # bs))" "?fs = as @ bs" for as bs
    using sorted_wrt_distinct_map [OF that(1)] that(2) f by (auto simp: image_iff)
  show ?thesis
  proof (cases "?fs = [] \<or> seq_less (fr_seq (last ?fs)) (rh_seq hdr)")
    case True
    then have "in_seq (?fs @ [f])" using q f by (auto simp: in_seq_append)
    then have s: "sorted_wrt (<) (map ?h (?fs @ [f]))" by (intro srt) auto
    then have "rh_seq hdr \<notin> fr_seq ` set ?fs" using new [of ?fs "[]"] by simp
    with s True show ?thesis by (auto intro!: exI [of _ "?fs @ [f]"])
  next
    case False
    show ?thesis
    proof (cases "jbuf_insert f (rev ?fs)")
      case None
      then have "rh_seq hdr \<in> fr_seq ` set ?fs"
        using jbuf_insert_None [OF None] f by (auto simp: image_iff) metis
      with None False show ?thesis by simp
    next
      case (Some rgs)
      from jbuf_insert_split [OF Some] obtain as bs where s: "?fs = as @ bs" "rev rgs = as @ f # bs" by auto
      have "sorted_wrt (<) (map ?h (rev rgs))"
        using jbuf_insert_in_seq(1) [OF Some q] by (intro srt) (auto simp: s)
      moreover from this have "rh_seq hdr \<notin> fr_seq ` set ?fs" using new [of as bs] s by simp
      moreover have "set (rev rgs) = insert f (set ?fs)" by (auto simp: s)
      ultimately show ?thesis using False Some by (auto intro!: exI [of _ "rev rgs"])
    qed
  qed
qed



text \<open>
  C36. Two deliveries in a row are in sequence.
\<close>

theorem jbuf_get_in_order:
  assumes "reach (jbuf_init cap) jbuf_step (jb, d)"
    and "jbuf_get jb = Some (e1, Some (h1, m1), jb')" "jbuf_get jb' = Some (e2, Some (h2, m2), jb'')"
  shows "seq_less (rh_seq h1) (rh_seq h2)"
proof -
  have "jb_inv cap d jb" using jbinv.reach_inv [OF assms(1)] by (simp add: jbuf_good_def)
  moreover from this obtain e r jb1 where "jbuf_get jb = Some (e, r, jb1)" "jb_inv cap (d @ delivered r) jb1"
    using jbuf_get_inv by blast
  ultimately have i: "jb_ok cap jb" "jb_ok cap jb'" using assms(2) by (auto simp: jb_inv_def)
  have "\<exists>f. jb_framel jb = f # jb_framel jb' \<and> fr_hdr f = h1"
    by (rule jbuf_get_head [OF i(1) assms(2)])
  moreover have "\<exists>f. jb_framel jb' = f # jb_framel jb'' \<and> fr_hdr f = h2"
    by (rule jbuf_get_head [OF i(2) assms(3)])
  ultimately show ?thesis using i(1) by (auto simp: jb_ok_def in_seq_def)
qed

theorem jbuf_get_in_order_witness:
  "\<exists>h1 h2 m1 m2 jb' jb''. jbuf_get jb2 = Some (OK, Some (h1, m1), jb') \<and>
     jbuf_get jb' = Some (OK, Some (h2, m2), jb'') \<and> seq_less (rh_seq h1) (rh_seq h2)"
proof -
  let ?g1 = "jbuf_get jb2" and ?g2 = "jbuf_get (snd (snd (the (jbuf_get jb2))))"
  have "?g1 \<noteq> None" "?g2 \<noteq> None" "fst (the ?g1) = OK" "fst (the ?g2) = OK"
    "fst (snd (the ?g1)) \<noteq> None" "fst (snd (the ?g2)) \<noteq> None" by code_simp+
  then obtain h1 m1 jb' h2 m2 jb'' where g: "?g1 = Some (OK, Some (h1, m1), jb')"
    "jbuf_get jb' = Some (OK, Some (h2, m2), jb'')" by fastforce
  with jbuf_get_in_order [OF jb_run(1) g] show ?thesis by blast
qed

section \<open>Two shortcomings\<close>

text \<open>
  A duplicate that arrives at a full buffer is refused, but the oldest frame has already
  been dropped to make room for it.
\<close>

theorem jbuf_dup_evicts:
  "map fr_seq (jb_framel jb2) = [4, 5] \<and> jb_pooll jb2 = [] \<and>
   map_option fst (jbuf_put 0 jb2 (pkt 5) (Some 51)) = Some EALREADY \<and>
   map_option (\<lambda>r. map fr_seq (jb_framel (snd r))) (jbuf_put 0 jb2 (pkt 5) (Some 51)) = Some [5]"
  by code_simp

text \<open>
  The sequence number 0 is also the mark for "nothing delivered yet": after the frame with
  number 0 was delivered, a packet from before it is accepted instead of refused as late.
\<close>

theorem jbuf_late_after_zero:
  "let jb = snd (the (jbuf_put 0 jb0 (pkt 0) (Some 1))); jb' = snd (snd (the (jbuf_get jb)))
   in map_option (\<lambda>r. map_option (rh_seq \<circ> fst) (fst (snd r))) (jbuf_get jb) = Some (Some 0) \<and>
      map_option fst (jbuf_put 0 jb' (pkt 65535) (Some 2)) = Some OK"
  by code_simp

end
