(* ===== verification/CoreJson.thy ===== *)
theory CoreJson
  imports Prelude "HOL-Library.Char_ord"
begin

text \<open>
  The JSON library \<^verbatim>\<open>barertc/src/brtc/core_json.c\<close>: a validator and a search that walk over the
  characters of a buffer with index arithmetic and build no tree.

  A buffer \<^verbatim>\<open>const char *\<close> is the function from an offset to the character there, so that
  \<^verbatim>\<open>&buf[start]\<close> is \<open>at buf start\<close>. The size of the buffer is the argument \<open>mx\<close>; nothing in the
  model stops a function from reading beyond it, and that none depends on what is there is
  a theorem. A function that returns true and advances \<^verbatim>\<open>*start\<close>, or returns false and leaves it
  alone, gives the new index as an option; one that also moves it on failure gives a pair. Sizes
  are natural numbers: no index exceeds the size of the buffer by more than one.
\<close>

section \<open>Characters\<close>

type_synonym buffer = "nat \<Rightarrow> char"

definition at :: "buffer \<Rightarrow> nat \<Rightarrow> buffer" where
  "at buf n = (\<lambda>k. buf (n + k))"

text \<open>The characters of a string with the terminating null character.\<close>

definition chars :: "string \<Rightarrow> buffer" where
  "chars s k = (if k < length s then s ! k else CHR 0x00)"

abbreviation u8 :: "char \<Rightarrow> byte" where "u8 c \<equiv> of_char c"

definition isascii :: "char \<Rightarrow> bool" where "isascii c \<longleftrightarrow> c \<le> CHR 0x7F"
definition iscntrl :: "char \<Rightarrow> bool" where "iscntrl c \<longleftrightarrow> isascii c \<and> c < CHR '' ''"
definition isdigit :: "char \<Rightarrow> bool" where "isdigit c \<longleftrightarrow> CHR ''0'' \<le> c \<and> c \<le> CHR ''9''"
definition isspace :: "char \<Rightarrow> bool" where
  "isspace c \<longleftrightarrow> c = CHR '' '' \<or> c = CHR 0x09 \<or> c = CHR 0x0A \<or> c = CHR 0x0D"
definition isOpenBracket :: "char \<Rightarrow> bool" where "isOpenBracket c \<longleftrightarrow> c = CHR ''{'' \<or> c = CHR ''[''"
definition isCloseBracket :: "char \<Rightarrow> bool" where "isCloseBracket c \<longleftrightarrow> c = CHR ''}'' \<or> c = CHR '']''"
definition isMatchingBracket :: "char \<Rightarrow> char \<Rightarrow> bool" where
  "isMatchingBracket x y \<longleftrightarrow> x = CHR ''{'' \<and> y = CHR ''}'' \<or> x = CHR ''['' \<and> y = CHR '']''"

function skipSpace :: "buffer \<Rightarrow> nat \<Rightarrow> nat \<Rightarrow> nat" where
  "skipSpace buf i mx = (if i < mx \<and> isspace (buf i) then skipSpace buf (Suc i) mx else i)"
  by pat_completeness auto
termination by (relation "measure (\<lambda>(buf, i, mx). mx - i)") auto

declare skipSpace.simps [simp del]

section \<open>UTF-8\<close>

lemma bit_0x80: "(n :: byte) AND 0x80 \<noteq> 0 \<longleftrightarrow> bit n 7"
proof -
  have m: "(0x80 :: byte) = 2 ^ 7" by simp
  have "x \<noteq> 0 \<longleftrightarrow> (\<exists>k. bit x k)" for x :: byte by (metis bit_0_eq bit_word_eqI bot_apply bot_bool_def)
  then have "n AND 2 ^ 7 \<noteq> 0 \<longleftrightarrow> bit n 7" by (simp only: bit_and_iff bit_exp_iff) auto
  then show ?thesis by (simp only: m)
qed

text \<open>The loop of \<^verbatim>\<open>countHighBits\<close>: the leading ones are shifted out at the top.\<close>

function highBits :: "byte \<Rightarrow> nat \<Rightarrow> nat" where
  "highBits n i = (if n AND 0x80 \<noteq> 0 then highBits (push_bit 1 (n AND 0x7F)) (Suc i) else i)"
  by pat_completeness auto

termination
proof (relation "measure (\<lambda>(n, i). card {k. k < 8 \<and> bit n k})")
  fix n :: byte and i
  assume "n AND 0x80 \<noteq> 0"
  then have "bit n 7" by (simp add: bit_0x80)
  have "{k. k < 8 \<and> bit (push_bit 1 (n AND 0x7F)) k} \<subseteq> Suc ` ({k. k < 8 \<and> bit n k} - {7})"
  proof
    fix k assume "k \<in> {k. k < 8 \<and> bit (push_bit 1 (n AND 0x7F)) k}"
    then have "1 \<le> k" "k < 8" "bit n (k - 1)"
      by (simp_all only: mem_Collect_eq bit_push_bit_iff bit_and_iff)
    then have "k - 1 \<in> {k. k < 8 \<and> bit n k} - {7}" "k = Suc (k - 1)" by auto
    then show "k \<in> Suc ` ({k. k < 8 \<and> bit n k} - {7})" by blast
  qed
  then have "card {k. k < 8 \<and> bit (push_bit 1 (n AND 0x7F)) k} \<le> card (Suc ` ({k. k < 8 \<and> bit n k} - {7}))"
    by (intro card_mono) auto
  also have "\<dots> \<le> card ({k. k < 8 \<and> bit n k} - {7})" by (intro card_image_le) auto
  also have "\<dots> < card {k. k < 8 \<and> bit n k}"
    using \<open>bit n 7\<close> by (intro card_Diff1_less) auto
  finally show "((push_bit 1 (n AND 0x7F), Suc i), (n, i)) \<in> measure (\<lambda>(n, i). card {k. k < 8 \<and> bit n k})"
    by simp
qed simp

declare highBits.simps [simp del]

definition countHighBits :: "byte \<Rightarrow> nat" where
  "countHighBits c = highBits c 0"

definition shortestUTF8 :: "nat \<Rightarrow> u32 \<Rightarrow> bool" where
  "shortestUTF8 len v =
     (let (mn, mx) = (if len = 2 then (push_bit 7 1, push_bit 11 1 - 1)
                      else if len = 3 then (push_bit 11 1, push_bit 16 1 - 1)
                      else (push_bit 16 1, 0x10FFFF))
      in v \<ge> mn \<and> v \<le> mx \<and> (v < 0xD800 \<or> v > 0xDFFF))"

text \<open>
  The loop over the trailing bytes: \<open>j\<close> are still expected. The result is the value of \<open>j\<close>, the
  index and the code point when the loop ends.
\<close>

fun utf8_trail :: "buffer \<Rightarrow> nat \<Rightarrow> nat \<Rightarrow> nat \<Rightarrow> u32 \<Rightarrow> nat \<times> nat \<times> u32" where
  "utf8_trail buf mx 0 i v = (0, i, v)"
| "utf8_trail buf mx (Suc j) i v =
     (let i = Suc i in
      if i \<ge> mx then (Suc j, i, v)
      else let c = u8 (buf i) in
        if c AND 0xC0 \<noteq> 0x80 then (Suc j, i, v)
        else utf8_trail buf mx j i (push_bit 6 v OR ucast (c AND 0x3F)))"

definition skipUTF8MultiByte :: "buffer \<Rightarrow> nat \<Rightarrow> nat \<Rightarrow> nat option" where
  "skipUTF8MultiByte buf start mx =
     (let c = u8 (buf start) in
      if c > 0xC1 \<and> c < 0xF5 then
        let bitCount = countHighBits c;
            v = ucast c AND (push_bit (7 - bitCount) 1 - 1);
            (j, i, v) = utf8_trail buf mx (bitCount - 1) start v
        in if j = 0 \<and> shortestUTF8 bitCount v then Some (Suc i) else None
      else None)"

definition skipUTF8 :: "buffer \<Rightarrow> nat \<Rightarrow> nat \<Rightarrow> nat option" where
  "skipUTF8 buf start mx =
     (if start < mx then
        if isascii (buf start) then Some (Suc start) else skipUTF8MultiByte buf start mx
      else None)"

section \<open>Escapes and strings\<close>

definition NOT_A_HEX_CHAR :: byte where "NOT_A_HEX_CHAR = 0x10"

definition hexToInt :: "char \<Rightarrow> byte" where
  "hexToInt c =
     (if CHR ''a'' \<le> c \<and> c \<le> CHR ''f'' then u8 c - u8 CHR ''a'' + 10
      else if CHR ''A'' \<le> c \<and> c \<le> CHR ''F'' then u8 c - u8 CHR ''A'' + 10
      else if isdigit c then u8 c - u8 CHR ''0''
      else NOT_A_HEX_CHAR)"

definition SIZE_MAX :: nat where "SIZE_MAX = 2 ^ 64 - 1"
definition HEX_ESCAPE_LENGTH :: nat where "HEX_ESCAPE_LENGTH = 6"

function hexDigits :: "buffer \<Rightarrow> nat \<Rightarrow> nat \<Rightarrow> u16 \<Rightarrow> nat \<times> u16" where
  "hexDigits buf i e v =
     (if i < e then
        let n = hexToInt (buf i) in
        if n = NOT_A_HEX_CHAR then (i, v) else hexDigits buf (Suc i) e (push_bit 4 v OR ucast n)
      else (i, v))"
  by pat_completeness auto
termination by (relation "measure (\<lambda>(buf, i, e, v). e - i)") auto

declare hexDigits.simps [simp del]

definition skipOneHexEscape :: "buffer \<Rightarrow> nat \<Rightarrow> nat \<Rightarrow> (nat \<times> u16) option" where
  "skipOneHexEscape buf start mx =
     (let e = (if start \<le> SIZE_MAX - HEX_ESCAPE_LENGTH then start + HEX_ESCAPE_LENGTH else SIZE_MAX);
          (i, v) = (if e < mx \<and> buf start = CHR 0x5C \<and> buf (start + 1) = CHR ''u''
                    then hexDigits buf (start + 2) e 0 else (start, 0))
      in if i = e \<and> v > 0 then Some (i, v) else None)"

definition isHighSurrogate :: "u16 \<Rightarrow> bool" where "isHighSurrogate x \<longleftrightarrow> x \<ge> 0xD800 \<and> x \<le> 0xDBFF"
definition isLowSurrogate :: "u16 \<Rightarrow> bool" where "isLowSurrogate x \<longleftrightarrow> x \<ge> 0xDC00 \<and> x \<le> 0xDFFF"

definition skipHexEscape :: "buffer \<Rightarrow> nat \<Rightarrow> nat \<Rightarrow> nat option" where
  "skipHexEscape buf start mx =
     (case skipOneHexEscape buf start mx of
        None \<Rightarrow> None
      | Some (i, v) \<Rightarrow>
          if isHighSurrogate v then
            (case skipOneHexEscape buf i mx of
               Some (i, v) \<Rightarrow> if isLowSurrogate v then Some i else None
             | None \<Rightarrow> None)
          else if isLowSurrogate v then None
          else Some i)"

definition skipEscape :: "buffer \<Rightarrow> nat \<Rightarrow> nat \<Rightarrow> nat option" where
  "skipEscape buf start mx =
     (if start < mx - 1 \<and> buf start = CHR 0x5C then
        let c = buf (start + 1) in
        if c = CHR 0x00 then None
        else if c = CHR ''u'' then skipHexEscape buf start mx
        else if c \<in> {CHR 0x22, CHR 0x5C, CHR ''/'', CHR ''b'', CHR ''f'', CHR ''n'', CHR ''r'', CHR ''t''}
        then Some (start + 2)
        else if iscntrl c then Some (start + 2)
        else None
      else None)"

subsection \<open>Progress\<close>

text \<open>A skip that succeeds moves forward and stays inside the buffer.\<close>

lemma skipSpace_bounds: "i \<le> skipSpace buf i mx \<and> (i \<le> mx \<longrightarrow> skipSpace buf i mx \<le> mx)"
proof (induction buf i mx rule: skipSpace.induct)
  case (1 buf i mx)
  then show ?case by (subst (1 2) skipSpace.simps) auto
qed

lemma utf8_trail_bounds:
  "utf8_trail buf mx j i v = (j', i', v') \<Longrightarrow> i \<le> i' \<and> (j' = 0 \<longrightarrow> i < mx \<longrightarrow> i' < mx)"
  by (induction j arbitrary: i v) (force simp: Let_def split: if_splits)+

lemma skipUTF8_bounds: "skipUTF8 buf i mx = Some k \<Longrightarrow> i < k \<and> k \<le> mx"
  by (force simp: skipUTF8_def skipUTF8MultiByte_def Let_def split: if_splits prod.splits
      dest: utf8_trail_bounds)

lemma hexDigits_bounds: "hexDigits buf i e v = (k, w) \<Longrightarrow> i \<le> k"
proof (induction buf i e v rule: hexDigits.induct)
  case (1 buf i e v)
  then show ?case by (subst (asm) hexDigits.simps) (fastforce simp: Let_def split: if_splits)
qed

lemma skipOneHexEscape_bounds: "skipOneHexEscape buf i mx = Some (k, v) \<Longrightarrow> i < k \<and> k < mx"
  by (auto simp: skipOneHexEscape_def HEX_ESCAPE_LENGTH_def Let_def split: if_splits prod.splits
      dest: hexDigits_bounds)

lemma skipEscape_bounds: "skipEscape buf i mx = Some k \<Longrightarrow> i < k \<and> k \<le> mx"
  by (auto simp: skipEscape_def skipHexEscape_def Let_def split: if_splits option.splits prod.splits
      dest!: skipOneHexEscape_bounds)

subsection \<open>Strings\<close>

function stringChars :: "buffer \<Rightarrow> nat \<Rightarrow> nat \<Rightarrow> nat option" where
  "stringChars buf i mx =
     (if i < mx then
        if buf i = CHR 0x22 then Some (Suc i)
        else if buf i = CHR 0x5C then
          (case skipEscape buf i mx of None \<Rightarrow> None | Some i \<Rightarrow> stringChars buf i mx)
        else if iscntrl (buf i) then None
        else (case skipUTF8 buf i mx of None \<Rightarrow> None | Some i \<Rightarrow> stringChars buf i mx)
      else None)"
  by pat_completeness auto
termination
  by (relation "measure (\<lambda>(buf, i, mx). mx - i)") (auto dest: skipEscape_bounds skipUTF8_bounds)

declare stringChars.simps [simp del]

definition skipString :: "buffer \<Rightarrow> nat \<Rightarrow> nat \<Rightarrow> nat option" where
  "skipString buf start mx =
     (if start < mx \<and> buf start = CHR 0x22 then stringChars buf (Suc start) mx else None)"

section \<open>Literals and numbers\<close>

definition strnEq :: "buffer \<Rightarrow> buffer \<Rightarrow> nat \<Rightarrow> bool" where
  "strnEq a b n = list_all (\<lambda>i. a i = b i) [0..<n]"

definition skipLiteral :: "buffer \<Rightarrow> nat \<Rightarrow> nat \<Rightarrow> string \<Rightarrow> nat option" where
  "skipLiteral buf start mx literal =
     (if start < mx \<and> length literal \<le> mx - start \<and> strnEq (at buf start) (chars literal) (length literal)
      then Some (start + length literal) else None)"

definition orelse :: "'a option \<Rightarrow> 'a option \<Rightarrow> 'a option" where
  "orelse x y = (case x of None \<Rightarrow> y | Some v \<Rightarrow> Some v)"

definition skipAnyLiteral :: "buffer \<Rightarrow> nat \<Rightarrow> nat \<Rightarrow> nat option" where
  "skipAnyLiteral buf start mx =
     orelse (skipLiteral buf start mx ''true'')
       (orelse (skipLiteral buf start mx ''false'') (skipLiteral buf start mx ''null''))"

definition MAX_INDEX_VALUE :: int where "MAX_INDEX_VALUE = 0x7FFFFFF7"
definition MAX_FACTOR :: int where "MAX_FACTOR = MAX_INDEX_VALUE div 10"

text \<open>
  The loop of \<^verbatim>\<open>skipDigits\<close>. The flag \<open>out\<close> says whether the caller wants the value
  (\<^verbatim>\<open>outValue != NULL\<close>). The value is an \<^verbatim>\<open>int32_t\<close> whose overflow would be undefined, so it is an
  integer here, and that it stays in range is a theorem.
\<close>

function digits :: "buffer \<Rightarrow> nat \<Rightarrow> nat \<Rightarrow> bool \<Rightarrow> int \<Rightarrow> nat \<times> int" where
  "digits buf i mx out v =
     (if i < mx \<and> isdigit (buf i) then
        digits buf (Suc i) mx out
          (if out \<and> v > -1 then if v \<le> MAX_FACTOR then v * 10 + sint (hexToInt (buf i)) else -1 else v)
      else (i, v))"
  by pat_completeness auto
termination by (relation "measure (\<lambda>(buf, i, mx, out, v). mx - i)") auto

declare digits.simps [simp del]

definition skipDigits :: "buffer \<Rightarrow> nat \<Rightarrow> nat \<Rightarrow> bool \<Rightarrow> (nat \<times> int) option" where
  "skipDigits buf start mx out =
     (let (i, v) = digits buf start mx out 0 in if i > start then Some (i, v) else None)"

definition skipDecimals :: "buffer \<Rightarrow> nat \<Rightarrow> nat \<Rightarrow> nat" where
  "skipDecimals buf start mx =
     (if start < mx \<and> buf start = CHR ''.''
      then case skipDigits buf (Suc start) mx False of Some (i, _) \<Rightarrow> i | None \<Rightarrow> start
      else start)"

definition skipExponent :: "buffer \<Rightarrow> nat \<Rightarrow> nat \<Rightarrow> nat" where
  "skipExponent buf start mx =
     (if start < mx \<and> (buf start = CHR ''e'' \<or> buf start = CHR ''E'') then
        let i = Suc start;
            i = (if i < mx \<and> (buf i = CHR ''-'' \<or> buf i = CHR ''+'') then Suc i else i)
        in case skipDigits buf i mx False of Some (i, _) \<Rightarrow> i | None \<Rightarrow> start
      else start)"

text \<open>The sign and the integer part of a number.\<close>

definition skipInteger :: "buffer \<Rightarrow> nat \<Rightarrow> nat \<Rightarrow> nat option" where
  "skipInteger buf start mx =
     (let i = (if start < mx \<and> buf start = CHR ''-'' then Suc start else start) in
      if i < mx then
        if buf i = CHR ''0'' then Some (Suc i) else map_option fst (skipDigits buf i mx False)
      else None)"

definition skipNumber :: "buffer \<Rightarrow> nat \<Rightarrow> nat \<Rightarrow> nat option" where
  "skipNumber buf start mx =
     (case skipInteger buf start mx of
        None \<Rightarrow> None
      | Some i \<Rightarrow> Some (skipExponent buf (skipDecimals buf i mx) mx))"

definition skipAnyScalar :: "buffer \<Rightarrow> nat \<Rightarrow> nat \<Rightarrow> nat option" where
  "skipAnyScalar buf start mx =
     orelse (skipString buf start mx) (orelse (skipAnyLiteral buf start mx) (skipNumber buf start mx))"

definition skipSpaceAndComma :: "buffer \<Rightarrow> nat \<Rightarrow> nat \<Rightarrow> bool \<times> nat" where
  "skipSpaceAndComma buf start mx =
     (let i = skipSpace buf start mx in
      if i < mx \<and> buf i = CHR '','' then
        let k = skipSpace buf (Suc i) mx in
        if k < mx \<and> \<not> isCloseBracket (buf k) then (True, k) else (False, i)
      else (False, i))"

subsection \<open>Progress\<close>

lemma stringChars_bounds: "stringChars buf i mx = Some k \<Longrightarrow> i < k \<and> k \<le> mx"
proof (induction buf i mx rule: stringChars.induct)
  case (1 buf i mx)
  then show ?case
    unfolding stringChars.simps [of buf i mx]
    by (fastforce split: if_splits option.splits dest: skipEscape_bounds skipUTF8_bounds)
qed

lemma skipString_bounds: "skipString buf i mx = Some k \<Longrightarrow> Suc i < k \<and> k \<le> mx"
  by (auto simp: skipString_def split: if_splits dest: stringChars_bounds)

lemma digits_bounds:
  "digits buf i mx out v = (k, w) \<Longrightarrow> i \<le> k \<and> (i \<le> mx \<longrightarrow> k \<le> mx)"
proof (induction buf i mx out v rule: digits.induct)
  case (1 buf i mx out v)
  then show ?case unfolding digits.simps [of buf i mx out v] by (fastforce split: if_splits)
qed

lemma skipDigits_bounds: "skipDigits buf i mx out = Some (k, v) \<Longrightarrow> i \<le> mx \<Longrightarrow> i < k \<and> k \<le> mx"
  by (auto simp: skipDigits_def split: if_splits prod.splits dest: digits_bounds)

lemma skipDecimals_bounds: "i \<le> mx \<Longrightarrow> i \<le> skipDecimals buf i mx \<and> skipDecimals buf i mx \<le> mx"
  by (auto simp: skipDecimals_def split: option.splits dest: skipDigits_bounds)

lemma skipExponent_bounds: "i \<le> mx \<Longrightarrow> i \<le> skipExponent buf i mx \<and> skipExponent buf i mx \<le> mx"
  by (auto simp: skipExponent_def Let_def split: option.splits dest: skipDigits_bounds)

lemma skipInteger_bounds: "skipInteger buf i mx = Some k \<Longrightarrow> i < k \<and> k \<le> mx"
  by (auto simp: skipInteger_def Let_def split: if_splits dest: skipDigits_bounds)

lemma skipNumber_bounds:
  assumes "skipNumber buf i mx = Some k" shows "i < k \<and> k \<le> mx"
proof -
  from assms obtain j where j: "skipInteger buf i mx = Some j" "k = skipExponent buf (skipDecimals buf j mx) mx"
    by (auto simp: skipNumber_def split: option.splits)
  with skipInteger_bounds [OF j(1)] skipDecimals_bounds [of j mx buf]
    skipExponent_bounds [of "skipDecimals buf j mx" mx buf]
  show ?thesis by linarith
qed

lemma skipAnyLiteral_bounds: "skipAnyLiteral buf i mx = Some k \<Longrightarrow> i < k \<and> k \<le> mx"
  by (auto simp: skipAnyLiteral_def orelse_def skipLiteral_def split: if_splits option.splits)

lemma skipAnyScalar_bounds: "skipAnyScalar buf i mx = Some k \<Longrightarrow> i < k \<and> k \<le> mx"
  by (auto simp: skipAnyScalar_def orelse_def split: option.splits
      dest: skipString_bounds skipAnyLiteral_bounds skipNumber_bounds)

lemma skipSpaceAndComma_bounds:
  assumes "skipSpaceAndComma buf i mx = (b, k)"
  shows "i \<le> k \<and> (i \<le> mx \<longrightarrow> k \<le> mx) \<and> (b \<longrightarrow> i < k \<and> k < mx)"
  using assms skipSpace_bounds [of i buf mx] skipSpace_bounds [of "Suc (skipSpace buf i mx)" buf mx]
  by (auto simp: skipSpaceAndComma_def Let_def split: if_splits)

section \<open>Collections\<close>

function skipArrayScalars :: "buffer \<Rightarrow> nat \<Rightarrow> nat \<Rightarrow> nat" where
  "skipArrayScalars buf i mx =
     (if i < mx then
        case skipAnyScalar buf i mx of
          None \<Rightarrow> i
        | Some i \<Rightarrow> let (comma, i) = skipSpaceAndComma buf i mx
                   in if comma then skipArrayScalars buf i mx else i
      else i)"
  by pat_completeness auto
termination
  by (relation "measure (\<lambda>(buf, i, mx). mx - i)") (auto dest!: skipAnyScalar_bounds skipSpaceAndComma_bounds [OF sym])

declare skipArrayScalars.simps [simp del]

text \<open>
  The loop of \<^verbatim>\<open>skipObjectScalars\<close>; \<open>start\<close> is the index the caller sees, which is set after each
  complete pair and before a nested collection.
\<close>

function objectScalars :: "buffer \<Rightarrow> nat \<Rightarrow> nat \<Rightarrow> nat \<Rightarrow> nat" where
  "objectScalars buf start i mx =
     (if i < mx then
        case skipString buf i mx of
          None \<Rightarrow> start
        | Some i \<Rightarrow>
            let i = skipSpace buf i mx in
            if i < mx \<and> buf i \<noteq> CHR '':'' then start
            else
              let i = skipSpace buf (Suc i) mx in
              if i < mx \<and> isOpenBracket (buf i) then i
              else case skipAnyScalar buf i mx of
                None \<Rightarrow> start
              | Some i \<Rightarrow> let (comma, i) = skipSpaceAndComma buf i mx
                         in if comma then objectScalars buf i i mx else i
      else start)"
  by pat_completeness auto
termination
proof (relation "measure (\<lambda>(buf, start, i, mx). mx - i)", goal_cases)
  case (2 buf start i mx k1 k2 k3 k4 p comma k5)
  then show ?case
    using skipString_bounds [of buf i mx k1] skipSpace_bounds [of k1 buf mx]
      skipSpace_bounds [of "Suc k2" buf mx] skipAnyScalar_bounds [of buf k3 mx k4]
      skipSpaceAndComma_bounds [of buf k4 mx comma k5]
    by (auto)
qed simp

declare objectScalars.simps [simp del]

definition skipObjectScalars :: "buffer \<Rightarrow> nat \<Rightarrow> nat \<Rightarrow> nat" where
  "skipObjectScalars buf start mx = objectScalars buf start start mx"

definition skipScalars :: "buffer \<Rightarrow> nat \<Rightarrow> nat \<Rightarrow> char \<Rightarrow> nat" where
  "skipScalars buf start mx mode =
     (let i = skipSpace buf start mx in
      if mode = CHR ''['' then skipArrayScalars buf i mx else skipObjectScalars buf i mx)"

lemma skipArrayScalars_bounds: "i \<le> skipArrayScalars buf i mx \<and> (i \<le> mx \<longrightarrow> skipArrayScalars buf i mx \<le> mx)"
proof (induction buf i mx rule: skipArrayScalars.induct)
  case (1 buf i mx)
  then show ?case
    unfolding skipArrayScalars.simps [of buf i mx]
    by (fastforce simp: Let_def split: option.split prod.split dest: skipAnyScalar_bounds skipSpaceAndComma_bounds)
qed

lemma objectScalars_bounds:
  "start \<le> i \<Longrightarrow> start \<le> objectScalars buf start i mx \<and> (start \<le> mx \<longrightarrow> objectScalars buf start i mx \<le> mx)"
proof (induction buf start i mx rule: objectScalars.induct)
  case (1 buf start i mx)
  show ?case
  proof (cases "i < mx \<and> skipString buf i mx \<noteq> None")
    case False
    then show ?thesis using 1(2) unfolding objectScalars.simps [of buf start i mx] by auto
  next
    case True
    then obtain k1 where k1: "skipString buf i mx = Some k1" by auto
    define k2 k3 where k: "k2 = skipSpace buf k1 mx" "k3 = skipSpace buf (Suc k2) mx"
    have b: "i < k1" "k1 \<le> k2" "k2 < k3" "k1 \<le> mx"
      using skipString_bounds [OF k1] skipSpace_bounds [of k1 buf mx] skipSpace_bounds [of "Suc k2" buf mx]
      by (auto simp: k)
    show ?thesis
      using 1 True k1 b unfolding objectScalars.simps [of buf start i mx]
      by (fastforce simp: Let_def k split: option.split prod.split dest: skipAnyScalar_bounds skipSpaceAndComma_bounds)
  qed
qed

lemma skipScalars_bounds: "i \<le> skipScalars buf i mx mode \<and> (i \<le> mx \<longrightarrow> skipScalars buf i mx mode \<le> mx)"
  using skipSpace_bounds [of i buf mx] skipArrayScalars_bounds [of "skipSpace buf i mx" buf mx]
    objectScalars_bounds [of "skipSpace buf i mx" "skipSpace buf i mx" buf mx]
  by (auto simp: skipScalars_def skipObjectScalars_def Let_def)

datatype JSONStatus_t = JSONPartial | JSONSuccess | JSONIllegalDocument | JSONMaxDepthExceeded
  | JSONNotFound | JSONNullParameter | JSONBadParameter

definition JSON_MAX_DEPTH :: int where "JSON_MAX_DEPTH = 32"

text \<open>
  The loop of \<^verbatim>\<open>skipCollection\<close>: \<open>stack\<close> is the array of the open brackets, of which the entries
  up to \<open>depth\<close> are in use.
\<close>

function collection :: "buffer \<Rightarrow> nat \<Rightarrow> nat \<Rightarrow> int \<Rightarrow> char list \<Rightarrow> JSONStatus_t \<times> nat" where
  "collection buf i mx depth stack =
     (if i < mx then
        let c = buf i; i = Suc i in
        if c = CHR ''{'' \<or> c = CHR ''['' then
          let depth = depth + 1 in
          if depth = JSON_MAX_DEPTH then (JSONMaxDepthExceeded, i)
          else
            let stack = stack[nat depth := c]
            in collection buf (skipScalars buf i mx (stack ! nat depth)) mx depth stack
        else if c = CHR ''}'' \<or> c = CHR '']'' then
          if depth > 0 \<and> isMatchingBracket (stack ! nat depth) c then
            let depth = depth - 1;
                (comma, i) = skipSpaceAndComma buf i mx;
                i = (if comma then skipScalars buf i mx (stack ! nat depth) else i)
            in collection buf i mx depth stack
          else (if depth = 0 then JSONSuccess else JSONIllegalDocument, i)
        else (JSONIllegalDocument, i)
      else (JSONPartial, i))"
  by pat_completeness auto
termination
proof (relation "measure (\<lambda>(buf, i, mx, depth, stack). mx - i)", goal_cases)
  case (2 buf i mx depth stack c i' depth' stack')
  then show ?case using skipScalars_bounds [of "Suc i" buf mx "stack' ! nat depth'"] by auto
next
  case (3 buf i mx depth stack c i' depth' p comma k l)
  then show ?case using skipSpaceAndComma_bounds [of buf "Suc i" mx comma k]
    skipScalars_bounds [of k buf mx "stack ! nat depth'"] by (auto split: if_splits)
qed simp

declare collection.simps [simp del]

definition skipCollection :: "buffer \<Rightarrow> nat \<Rightarrow> nat \<Rightarrow> JSONStatus_t \<times> nat" where
  "skipCollection buf start mx =
     (let (ret, i) = collection buf start mx (-1) (replicate (nat JSON_MAX_DEPTH) (CHR 0x00))
      in (ret, if ret = JSONSuccess then i else start))"

definition JSON_Validate :: "buffer option \<Rightarrow> nat \<Rightarrow> JSONStatus_t" where
  "JSON_Validate buf mx =
     (case buf of
        None \<Rightarrow> JSONNullParameter
      | Some buf \<Rightarrow>
          if mx = 0 then JSONBadParameter
          else
            let i = skipSpace buf 0 mx;
                (ret, i) = (case skipAnyScalar buf i mx of
                              Some i \<Rightarrow> (JSONSuccess, i)
                            | None \<Rightarrow> skipCollection buf i mx)
            in if ret = JSONSuccess \<and> i < mx then
                 if skipSpace buf i mx \<noteq> mx then JSONIllegalDocument else ret
               else ret)"

section \<open>Search\<close>

text \<open>The next value: the index behind it, where it starts, and its length.\<close>

definition nextValue :: "buffer \<Rightarrow> nat \<Rightarrow> nat \<Rightarrow> (nat \<times> nat \<times> nat) option" where
  "nextValue buf start mx =
     (case skipAnyScalar buf start mx of
        Some i \<Rightarrow> Some (i, start, i - start)
      | None \<Rightarrow> (case skipCollection buf start mx of
                   (JSONSuccess, i) \<Rightarrow> Some (i, start, i - start)
                 | _ \<Rightarrow> None))"

text \<open>The next pair: the index behind it, then start and length of the key and of the value.\<close>

definition nextKeyValuePair :: "buffer \<Rightarrow> nat \<Rightarrow> nat \<Rightarrow> (nat \<times> (nat \<times> nat) \<times> (nat \<times> nat)) option" where
  "nextKeyValuePair buf start mx =
     (case skipString buf start mx of
        None \<Rightarrow> None
      | Some i \<Rightarrow>
          let key = start + 1; keyLength = i - start - 2; i = skipSpace buf i mx in
          if i < mx \<and> buf i = CHR '':'' then
            case nextValue buf (skipSpace buf (Suc i) mx) mx of
              None \<Rightarrow> None
            | Some (i, v, vLength) \<Rightarrow> Some (i, (key, keyLength), (v, vLength))
          else None)"

subsection \<open>The steps of the collection loop\<close>

definition push :: "char list \<Rightarrow> int \<Rightarrow> char \<Rightarrow> char list" where
  "push stack depth c = stack[nat (depth + 1) := c]"

lemma collection_end: "\<not> i < mx \<Longrightarrow> collection buf i mx depth stack = (JSONPartial, i)"
  by (subst collection.simps) simp

lemma collection_open:
  "i < mx \<Longrightarrow> isOpenBracket (buf i) \<Longrightarrow> collection buf i mx depth stack =
    (if depth + 1 = JSON_MAX_DEPTH then (JSONMaxDepthExceeded, Suc i)
     else collection buf (skipScalars buf (Suc i) mx (push stack depth (buf i) ! nat (depth + 1))) mx (depth + 1)
       (push stack depth (buf i)))"
  by (subst collection.simps) (simp add: isOpenBracket_def push_def Let_def)

definition afterClose :: "buffer \<Rightarrow> nat \<Rightarrow> nat \<Rightarrow> char \<Rightarrow> nat" where
  "afterClose buf i mx mode =
     (let (comma, i) = skipSpaceAndComma buf i mx in if comma then skipScalars buf i mx mode else i)"

lemma collection_close:
  "i < mx \<Longrightarrow> isCloseBracket (buf i) \<Longrightarrow> collection buf i mx depth stack =
    (if depth > 0 \<and> isMatchingBracket (stack ! nat depth) (buf i)
     then collection buf (afterClose buf (Suc i) mx (stack ! nat (depth - 1))) mx (depth - 1) stack
     else (if depth = 0 then JSONSuccess else JSONIllegalDocument, Suc i))"
  by (subst collection.simps)
    (auto simp: isCloseBracket_def afterClose_def Let_def split: prod.splits)

lemma collection_other:
  "i < mx \<Longrightarrow> \<not> isOpenBracket (buf i) \<Longrightarrow> \<not> isCloseBracket (buf i) \<Longrightarrow>
    collection buf i mx depth stack = (JSONIllegalDocument, Suc i)"
  by (subst collection.simps) (simp add: isOpenBracket_def isCloseBracket_def Let_def)

lemma afterClose_bounds: "i \<le> afterClose buf i mx mode \<and> (i \<le> mx \<longrightarrow> afterClose buf i mx mode \<le> mx)"
proof -
  obtain comma j where "skipSpaceAndComma buf i mx = (comma, j)" by fastforce
  with skipSpaceAndComma_bounds [OF this] skipScalars_bounds [of j buf mx mode] show ?thesis
    by (auto simp: afterClose_def)
qed

lemma collection_bounds:
  "collection buf i mx depth stack = (ret, k) \<Longrightarrow> i \<le> k \<and> (i \<le> mx \<longrightarrow> k \<le> mx) \<and> (ret = JSONSuccess \<longrightarrow> i < k)"
proof (induction "mx - i" arbitrary: i depth stack rule: less_induct)
  case less
  consider "\<not> i < mx" | "i < mx" "isOpenBracket (buf i)" | "i < mx" "isCloseBracket (buf i)"
    | "i < mx" "\<not> isOpenBracket (buf i)" "\<not> isCloseBracket (buf i)" by blast
  then show ?case
  proof cases
    case 2
    let ?j = "skipScalars buf (Suc i) mx (push stack depth (buf i) ! nat (depth + 1))"
    have "Suc i \<le> ?j" "?j \<le> mx" using skipScalars_bounds [of "Suc i" buf mx] 2(1) by auto
    moreover from this 2(1) have "mx - ?j < mx - i" by linarith
    ultimately show ?thesis using less.hyps [of ?j "depth + 1" "push stack depth (buf i)"] less.prems 2
      by (auto simp: collection_open split: if_splits)
  next
    case 3
    let ?j = "afterClose buf (Suc i) mx (stack ! nat (depth - 1))"
    have "Suc i \<le> ?j" "?j \<le> mx" using afterClose_bounds [of "Suc i" buf mx] 3(1) by auto
    moreover from this 3(1) have "mx - ?j < mx - i" by linarith
    ultimately show ?thesis using less.hyps [of ?j "depth - 1" stack] less.prems 3
      by (auto simp: collection_close split: if_splits)
  qed (use less.prems in \<open>auto simp: collection_end collection_other\<close>)
qed

lemma skipCollection_bounds:
  "skipCollection buf i mx = (JSONSuccess, k) \<Longrightarrow> i \<le> mx \<Longrightarrow> i < k \<and> k \<le> mx"
  by (auto simp: skipCollection_def split: prod.splits if_splits dest: collection_bounds)

lemma nextValue_bounds:
  "nextValue buf i mx = Some (k, v, n) \<Longrightarrow> i \<le> mx \<Longrightarrow> v = i \<and> n = k - i \<and> i < k \<and> k \<le> mx"
  by (auto simp: nextValue_def split: option.splits prod.splits JSONStatus_t.splits
      dest: skipAnyScalar_bounds skipCollection_bounds)

lemma nextKeyValuePair_bounds:
  assumes "nextKeyValuePair buf i mx = Some (k, (key, keyLength), (v, n))"
  shows "key = Suc i \<and> key + keyLength < v \<and> 0 < n \<and> v + n = k \<and> k \<le> mx"
proof -
  from assms obtain j where j: "skipString buf i mx = Some j" by (auto simp: nextKeyValuePair_def split: option.splits)
  let ?c = "skipSpace buf j mx"
  from assms j have c: "?c < mx" and nv: "nextValue buf (skipSpace buf (Suc ?c) mx) mx = Some (k, v, n)"
    and kk: "key = Suc i" "keyLength = j - i - 2"
    by (auto simp: nextKeyValuePair_def Let_def split: option.splits if_splits)
  have "skipSpace buf (Suc ?c) mx \<le> mx" using skipSpace_bounds [of "Suc ?c" buf mx] c by simp
  from nextValue_bounds [OF nv this] kk skipString_bounds [OF j] skipSpace_bounds [of j buf mx]
    skipSpace_bounds [of "Suc ?c" buf mx]
  show ?thesis by auto
qed

lemma nextValue_progress: "nextValue buf i mx = Some (k, r) \<Longrightarrow> i < mx \<Longrightarrow> i < k \<and> k \<le> mx"
  using nextValue_bounds [of buf i mx k "fst r" "snd r"] by simp

lemma nextKeyValuePair_progress: "nextKeyValuePair buf i mx = Some (k, r) \<Longrightarrow> i < k \<and> k \<le> mx"
  by (cases r; cases "fst r") (auto dest!: nextKeyValuePair_bounds)

subsection \<open>Objects, arrays and queries\<close>

text \<open>The loops of \<^verbatim>\<open>objectSearch\<close> and \<^verbatim>\<open>arraySearch\<close>: start and length of the value found.\<close>

function objectPairs :: "buffer \<Rightarrow> nat \<Rightarrow> nat \<Rightarrow> buffer \<Rightarrow> nat \<Rightarrow> (nat \<times> nat) option" where
  "objectPairs buf i mx query queryLength =
     (if i < mx then
        case nextKeyValuePair buf i mx of
          None \<Rightarrow> None
        | Some (i, (key, keyLength), v) \<Rightarrow>
            if queryLength = keyLength \<and> strnEq query (at buf key) keyLength then Some v
            else let (comma, i) = skipSpaceAndComma buf i mx
                 in if comma then objectPairs buf i mx query queryLength else None
      else None)"
  by pat_completeness auto
termination
  by (relation "measure (\<lambda>(buf, i, mx, query, queryLength). mx - i)")
    (auto dest!: nextKeyValuePair_progress skipSpaceAndComma_bounds [OF sym])

declare objectPairs.simps [simp del]

definition objectSearch :: "buffer \<Rightarrow> nat \<Rightarrow> buffer \<Rightarrow> nat \<Rightarrow> (nat \<times> nat) option" where
  "objectSearch buf mx query queryLength =
     (let i = skipSpace buf 0 mx in
      if i < mx \<and> buf i = CHR ''{'' then objectPairs buf (skipSpace buf (Suc i) mx) mx query queryLength
      else None)"

function arrayValues :: "buffer \<Rightarrow> nat \<Rightarrow> nat \<Rightarrow> u32 \<Rightarrow> u32 \<Rightarrow> (nat \<times> nat) option" where
  "arrayValues buf i mx queryIndex currentIndex =
     (if i < mx then
        case nextValue buf i mx of
          None \<Rightarrow> None
        | Some (i, v) \<Rightarrow>
            if currentIndex = queryIndex then Some v
            else let (comma, i) = skipSpaceAndComma buf i mx
                 in if comma then arrayValues buf i mx queryIndex (currentIndex + 1) else None
      else None)"
  by pat_completeness auto
termination
  by (relation "measure (\<lambda>(buf, i, mx, queryIndex, currentIndex). mx - i)")
    (auto dest!: nextValue_progress skipSpaceAndComma_bounds [OF sym])

declare arrayValues.simps [simp del]

definition arraySearch :: "buffer \<Rightarrow> nat \<Rightarrow> u32 \<Rightarrow> (nat \<times> nat) option" where
  "arraySearch buf mx queryIndex =
     (let i = skipSpace buf 0 mx in
      if i < mx \<and> buf i = CHR ''['' then arrayValues buf (skipSpace buf (Suc i) mx) mx queryIndex 0
      else None)"

definition isSeparator :: "char \<Rightarrow> bool" where "isSeparator c \<longleftrightarrow> c = CHR ''.''"

function queryPart :: "buffer \<Rightarrow> nat \<Rightarrow> nat \<Rightarrow> nat" where
  "queryPart buf i mx =
     (if i < mx \<and> \<not> isSeparator (buf i) \<and> buf i \<noteq> CHR ''['' then queryPart buf (Suc i) mx else i)"
  by pat_completeness auto
termination by (relation "measure (\<lambda>(buf, i, mx). mx - i)") auto

declare queryPart.simps [simp del]

text \<open>The index behind the part; its length is the distance.\<close>

definition skipQueryPart :: "buffer \<Rightarrow> nat \<Rightarrow> nat \<Rightarrow> (nat \<times> nat) option" where
  "skipQueryPart buf start mx =
     (let i = queryPart buf start mx in if i > start then Some (i, i - start) else None)"

text \<open>
  One part of a query: the index behind it and what the search for it gives, or the error.
\<close>

definition searchPart :: "buffer \<Rightarrow> nat \<Rightarrow> buffer \<Rightarrow> nat \<Rightarrow> nat \<Rightarrow> JSONStatus_t + nat \<times> (nat \<times> nat) option" where
  "searchPart buf len query queryLength i =
     (if query i = CHR ''['' then
        let (i, queryIndex) = (case skipDigits query (Suc i) queryLength True of
                                 Some (i, v) \<Rightarrow> (i, v) | None \<Rightarrow> (Suc i, -1))
        in if queryIndex < 0 \<or> i \<ge> queryLength \<or> query i \<noteq> CHR '']'' then Inl JSONBadParameter
           else Inr (Suc i, arraySearch buf len (word_of_int queryIndex))
      else
        case skipQueryPart query i queryLength of
          None \<Rightarrow> Inl JSONBadParameter
        | Some (k, keyLength) \<Rightarrow>
            if k = queryLength - 1 then Inl JSONBadParameter
            else Inr (k, objectSearch buf len (at query i) keyLength))"

lemma queryPart_bounds: "i \<le> queryPart buf i mx \<and> (i \<le> mx \<longrightarrow> queryPart buf i mx \<le> mx)"
proof (induction buf i mx rule: queryPart.induct)
  case (1 buf i mx)
  then show ?case by (subst (1 2) queryPart.simps) auto
qed

lemma searchPart_bounds: "searchPart buf len query queryLength i = Inr (k, r) \<Longrightarrow> i < queryLength \<Longrightarrow> i < k \<and> k \<le> queryLength"
  using queryPart_bounds [of i query queryLength]
  by (fastforce simp: searchPart_def skipQueryPart_def Let_def split: if_splits option.splits prod.splits
      dest: skipDigits_bounds)

function multiSearchFrom :: "buffer \<Rightarrow> buffer \<Rightarrow> nat \<Rightarrow> nat \<Rightarrow> nat \<Rightarrow> nat \<Rightarrow> JSONStatus_t + nat \<times> nat" where
  "multiSearchFrom buf query queryLength i start len =
     (if i < queryLength then
        case searchPart (at buf start) len query queryLength i of
          Inl e \<Rightarrow> Inl e
        | Inr (i, None) \<Rightarrow> Inl JSONNotFound
        | Inr (i, Some (v, len)) \<Rightarrow>
            multiSearchFrom buf query queryLength
              (if i < queryLength \<and> isSeparator (query i) then Suc i else i) (start + v) len
      else Inr (start, len))"
  by pat_completeness auto
termination
  by (relation "measure (\<lambda>(buf, query, queryLength, i, start, len). queryLength - i)")
    (auto dest!: searchPart_bounds)

declare multiSearchFrom.simps [simp del]

definition multiSearch :: "buffer \<Rightarrow> nat \<Rightarrow> buffer \<Rightarrow> nat \<Rightarrow> JSONStatus_t + nat \<times> nat" where
  "multiSearch buf mx query queryLength = multiSearchFrom buf query queryLength 0 0 mx"

datatype JSONTypes_t = JSONInvalid | JSONString | JSONNumber | JSONTrue | JSONFalse | JSONNull
  | JSONObject | JSONArray

definition getType :: "char \<Rightarrow> JSONTypes_t" where
  "getType c =
     (if c = CHR 0x22 then JSONString
      else if c = CHR ''{'' then JSONObject
      else if c = CHR ''['' then JSONArray
      else if c = CHR ''t'' then JSONTrue
      else if c = CHR ''f'' then JSONFalse
      else if c = CHR ''n'' then JSONNull
      else JSONNumber)"

text \<open>
  The result is the status, or the offset of the value in the buffer, its length and its type.
  \<open>out_ok\<close> says that neither \<^verbatim>\<open>outValue\<close> nor \<^verbatim>\<open>outValueLength\<close> is null.
\<close>

definition JSON_SearchConst :: "buffer option \<Rightarrow> nat \<Rightarrow> buffer option \<Rightarrow> nat \<Rightarrow> bool
    \<Rightarrow> JSONStatus_t + nat \<times> nat \<times> JSONTypes_t" where
  "JSON_SearchConst buf mx query queryLength out_ok =
     (case (buf, query) of
        (Some buf, Some query) \<Rightarrow>
          if \<not> out_ok then Inl JSONNullParameter
          else if mx = 0 \<or> queryLength = 0 then Inl JSONBadParameter
          else (case multiSearch buf mx query queryLength of
                  Inl e \<Rightarrow> Inl e
                | Inr (v, len) \<Rightarrow>
                    let t = getType (buf v)
                    in Inr (if t = JSONString then (v + 1, len - 2, t) else (v, len, t)))
      | _ \<Rightarrow> Inl JSONNullParameter)"

definition JSON_SearchT :: "buffer option \<Rightarrow> nat \<Rightarrow> buffer option \<Rightarrow> nat \<Rightarrow> bool
    \<Rightarrow> JSONStatus_t + nat \<times> nat \<times> JSONTypes_t" where
  "JSON_SearchT buf mx query queryLength out_ok = JSON_SearchConst buf mx query queryLength out_ok"

section \<open>Iteration\<close>

record JSONPair_t =
  jp_key :: "nat option"
  jp_keyLength :: nat
  jp_value :: nat
  jp_valueLength :: nat
  jp_jsonType :: JSONTypes_t

text \<open>The status, or the advanced \<open>next\<close> with start and length of key and value.\<close>

definition iterate :: "buffer \<Rightarrow> nat \<Rightarrow> nat \<Rightarrow> nat \<Rightarrow> JSONStatus_t + nat \<times> (nat \<times> nat) \<times> (nat \<times> nat)" where
  "iterate buf mx start nxt =
     (if start < mx then
        let found = (if buf start = CHR ''['' then
                       Inr (case nextValue buf nxt mx of
                              None \<Rightarrow> None | Some (i, v) \<Rightarrow> Some (i, (0, 0), v))
                     else if buf start = CHR ''{'' then Inr (nextKeyValuePair buf nxt mx)
                     else Inl JSONIllegalDocument)
        in case found of
             Inl e \<Rightarrow> Inl e
           | Inr None \<Rightarrow> Inl JSONNotFound
           | Inr (Some (i, kv)) \<Rightarrow> Inr (snd (skipSpaceAndComma buf i mx), kv)
      else Inl JSONNotFound)"

text \<open>
  \<^verbatim>\<open>JSON_Iterate\<close> moves \<^verbatim>\<open>*start\<close> and \<^verbatim>\<open>*next\<close> over white space even when it then fails: the result is
  the new pair of indices, with the status or the pair found.
\<close>

definition JSON_Iterate :: "buffer option \<Rightarrow> nat \<Rightarrow> nat \<Rightarrow> nat
    \<Rightarrow> (nat \<times> nat) \<times> (JSONStatus_t + JSONPair_t)" where
  "JSON_Iterate buf mx start nxt =
     (case buf of
        None \<Rightarrow> ((start, nxt), Inl JSONNullParameter)
      | Some buf \<Rightarrow>
          if mx = 0 \<or> start \<ge> mx \<or> nxt > mx then ((start, nxt), Inl JSONBadParameter)
          else
            let start = skipSpace buf start mx;
                nxt = (if nxt \<le> start then skipSpace buf (start + 1) mx else nxt)
            in case iterate buf mx start nxt of
                 Inl e \<Rightarrow> ((start, nxt), Inl e)
               | Inr (nxt, (key, keyLength), (v, vLength)) \<Rightarrow>
                   let t = getType (buf v);
                       (v, vLength) = (if t = JSONString then (v + 1, vLength - 2) else (v, vLength))
                   in ((start, nxt),
                       Inr \<lparr>jp_key = (if key = 0 then None else Some key), jp_keyLength = keyLength,
                            jp_value = v, jp_valueLength = vLength, jp_jsonType = t\<rparr>))"

end
