(* ===== verification/JsonGrammar.thy ===== *)
theory JsonGrammar
  imports CoreJson
begin

text \<open>
  What the functions of \<^verbatim>\<open>core_json.c\<close> accept, stated against the text of the document instead of
  indices: UTF-8 by the encoding of code points, and JSON by its grammar.
\<close>

section \<open>Text in a buffer\<close>

definition holds :: "buffer \<Rightarrow> nat \<Rightarrow> string \<Rightarrow> bool" where
  "holds buf i s \<longleftrightarrow> (\<forall>k < length s. buf (i + k) = s ! k)"

lemma holds_Cons [simp]: "holds buf i (c # s) \<longleftrightarrow> buf i = c \<and> holds buf (Suc i) s"
  by (auto simp: holds_def All_less_Suc2)

lemma holds_Nil [simp]: "holds buf i []"
  by (simp add: holds_def)

lemma holds_append [simp]: "holds buf i (s @ t) \<longleftrightarrow> holds buf i s \<and> holds buf (i + length s) t"
  by (induction s arbitrary: i) auto

lemma holds_chars [simp]: "holds (chars s) 0 s"
  by (simp add: holds_def chars_def)

section \<open>UTF-8\<close>

text \<open>The Unicode scalar values and their encoding.\<close>

definition scalar_value :: "nat \<Rightarrow> bool" where
  "scalar_value cp \<longleftrightarrow> cp \<le> 0x10FFFF \<and> \<not> (0xD800 \<le> cp \<and> cp \<le> 0xDFFF)"

definition utf8_bytes :: "nat \<Rightarrow> string" where
  "utf8_bytes cp =
     (if cp < 0x80 then [char_of cp]
      else if cp < 0x800 then [char_of (0xC0 + cp div 64), char_of (0x80 + cp mod 64)]
      else if cp < 0x10000 then
        [char_of (0xE0 + cp div 4096), char_of (0x80 + cp div 64 mod 64), char_of (0x80 + cp mod 64)]
      else
        [char_of (0xF0 + cp div 262144), char_of (0x80 + cp div 4096 mod 64),
         char_of (0x80 + cp div 64 mod 64), char_of (0x80 + cp mod 64)])"

abbreviation code :: "char \<Rightarrow> nat" where "code c \<equiv> of_char c"

lemma isdigit_code: "isdigit c \<longleftrightarrow> 48 \<le> code c \<and> code c \<le> 57"
  by (auto simp: isdigit_def less_eq_char_def)

lemma u8_code: "u8 c = of_nat (code c)"
  by (simp add: of_nat_of_char)

lemma unat_u8 [simp]: "unat (u8 c) = code c"
  using nat_of_char_less_256 [of c] by (simp add: u8_code unat_of_nat take_bit_eq_mod del: nat_of_char_less_256)

lemma char_eq: "n < 256 \<Longrightarrow> c = char_of n \<longleftrightarrow> code c = n"
  by (auto simp: eq_commute [of c] char_of_eq_iff take_bit_nat_eq_self)

lemma lead_all:
  "list_all (\<lambda>n. countHighBits (of_nat n) = (if n < 0xE0 then 2 else if n < 0xF0 then 3 else 4)) [0xC2..<0xF5]"
  by code_simp

lemma lead_byte:
  "0xC2 \<le> code c \<Longrightarrow> code c < 0xF5 \<Longrightarrow>
    countHighBits (u8 c) = (if code c < 0xE0 then 2 else if code c < 0xF0 then 3 else 4)"
  using lead_all unfolding list_all_iff u8_code by (drule_tac x = "code c" in bspec) (simp_all only: set_upt atLeastLessThan_iff)

lemma trail_byte: "(u8 c AND 0xC0 = 0x80) = (0x80 \<le> code c \<and> code c < 0xC0)"
proof -
  have "(0xC0 :: byte) = NOT (mask 6)" by (simp add: mask_eq_exp_minus_1)
  moreover have "u8 c AND NOT (mask 6) = push_bit 6 (drop_bit 6 (u8 c))"
    by (rule bit_eqI) (auto simp: bit_simps simp flip: drop_bit_eq_div push_bit_eq_mult)
  ultimately have "unat (u8 c AND 0xC0) = push_bit 6 (drop_bit 6 (code c)) mod 256"
    by (simp only: unsigned_push_bit_eq unsigned_drop_bit_eq unat_u8 take_bit_eq_mod) simp
  then have "unat (u8 c AND 0xC0) = code c div 64 * 64"
    using nat_of_char_less_256 [of c] by (simp add: drop_bit_eq_div push_bit_eq_mult mult.commute)
  moreover have "(u8 c AND 0xC0 = 0x80) = (unat (u8 c AND 0xC0) = 128)" by (simp only: word_unat_eq_iff) simp
  moreover have "(x div 64 * 64 = 128) = (0x80 \<le> x \<and> x < 0xC0)" for x :: nat by auto
  ultimately show ?thesis by (simp only:)
qed

lemma mask_byte: "unat (u8 c AND 0x3F) = code c mod 64"
proof -
  have "(0x3F :: byte) = mask 6" by (simp add: mask_eq_exp_minus_1)
  then have "u8 c AND 0x3F = take_bit 6 (u8 c)" by (simp only: take_bit_eq_mask)
  then have "unat (u8 c AND 0x3F) = take_bit 6 (code c)" by (simp only: unsigned_take_bit_eq unat_u8)
  then show ?thesis by (simp add: take_bit_eq_mod)
qed

lemma unat_trail:
  assumes "unat (v :: u32) < 2 ^ 26" "unat (b :: byte) < 64"
  shows "unat (push_bit 6 v OR ucast b) = unat v * 64 + unat b"
proof -
  have "unat (push_bit 6 v OR ucast b) = push_bit 6 (unat v) OR unat b"
  proof -
    have "take_bit 32 (push_bit 6 (unat v)) = push_bit 6 (unat v)" "take_bit 32 (unat b) = unat b"
      using assms by (simp_all add: take_bit_nat_eq_self push_bit_eq_mult)
    then show ?thesis by (simp add: unsigned_or_eq unsigned_push_bit_eq unsigned_ucast_eq)
  qed
  also have "\<dots> = push_bit 6 (unat v) + unat b"
  proof (rule disjunctive_add [symmetric])
    fix n
    have "take_bit 6 (unat b) = unat b" using assms(2) by (simp add: take_bit_nat_eq_self)
    then show "\<not> bit (push_bit 6 (unat v)) n \<or> \<not> bit (unat b) n"
      by (metis bit_push_bit_iff bit_take_bit_iff not_le)
  qed
  finally show ?thesis by (simp add: push_bit_eq_mult)
qed

lemma shortestUTF8_nat:
  "shortestUTF8 n v \<longleftrightarrow>
    (if n = 2 then 0x80 else if n = 3 then 0x800 else 0x10000) \<le> unat v \<and>
    unat v \<le> (if n = 2 then 0x7FF else if n = 3 then 0xFFFF else 0x10FFFF) \<and> (unat v < 0xD800 \<or> unat v > 0xDFFF)"
  by (simp add: shortestUTF8_def word_le_nat_alt word_less_nat_alt push_bit_eq_mult)

lemma lead_value:
  assumes "n \<le> 7" shows "unat (ucast (u8 c) AND (push_bit n 1 - 1) :: u32) = code c mod 2 ^ n"
proof -
  have "(push_bit n 1 - 1 :: u32) = mask n" by (simp add: mask_eq_exp_minus_1 push_bit_eq_mult)
  then have "unat (ucast (u8 c) AND (push_bit n 1 - 1) :: u32) = take_bit n (unat (ucast (u8 c) :: u32))"
    by (simp only: take_bit_eq_mask [symmetric] unsigned_take_bit_eq)
  also have "unat (ucast (u8 c) :: u32) = code c"
    using nat_of_char_less_256 [of c] by (simp add: unsigned_ucast_eq take_bit_nat_eq_self del: nat_of_char_less_256)
  finally show ?thesis by (simp add: take_bit_eq_mod)
qed

text \<open>The continuation bytes, and the code point with one more of them.\<close>

abbreviation cont :: "char \<Rightarrow> bool" where "cont c \<equiv> 0x80 \<le> code c \<and> code c < 0xC0"

lemma utf8_trail_step:
  assumes "unat v < 2 ^ 26"
  obtains w where "unat w = unat v * 64 + code (buf (Suc i)) mod 64"
    "utf8_trail buf mx (Suc j) i v =
       (if Suc i < mx \<and> cont (buf (Suc i)) then utf8_trail buf mx j (Suc i) w else (Suc j, Suc i, v))"
proof
  let ?w = "push_bit 6 v OR ucast (u8 (buf (Suc i)) AND 0x3F)"
  show "unat ?w = unat v * 64 + code (buf (Suc i)) mod 64"
    using unat_trail [OF assms, of "u8 (buf (Suc i)) AND 0x3F"] by (simp add: mask_byte)
  show "utf8_trail buf mx (Suc j) i v =
       (if Suc i < mx \<and> cont (buf (Suc i)) then utf8_trail buf mx j (Suc i) ?w else (Suc j, Suc i, v))"
    by (simp add: trail_byte Let_def)
qed

text \<open>The value of \<open>j\<close> more continuation bytes behind index \<open>i\<close>.\<close>

fun trail_value :: "buffer \<Rightarrow> nat \<Rightarrow> nat \<Rightarrow> nat \<Rightarrow> nat" where
  "trail_value buf 0 i a = a"
| "trail_value buf (Suc j) i a = trail_value buf j (Suc i) (a * 64 + code (buf (Suc i)) mod 64)"

lemma trail_value_num:
  "trail_value buf 2 i a = trail_value buf 1 (Suc i) (a * 64 + code (buf (Suc i)) mod 64)"
  "trail_value buf 3 i a = trail_value buf 2 (Suc i) (a * 64 + code (buf (Suc i)) mod 64)"
  by (simp_all add: numeral_2_eq_2 numeral_3_eq_3)

lemma utf8_trail_iff:
  assumes "Suc (unat v) * 64 ^ j \<le> 2 ^ 32" "i < mx"
  shows "(\<exists>w. utf8_trail buf mx j i v = (0, k, w) \<and> P (unat w)) \<longleftrightarrow>
    k = i + j \<and> k < mx \<and> (\<forall>t < j. cont (buf (Suc i + t))) \<and> P (trail_value buf j i (unat v))"
  using assms
proof (induction j arbitrary: v i)
  case (Suc j)
  have "(64 :: nat) ^ 1 \<le> 64 ^ Suc j" by (rule power_increasing) simp_all
  then have "Suc (unat v) * 64 \<le> Suc (unat v) * 64 ^ Suc j" by (simp only: power_one_right mult_le_mono2)
  also note Suc.prems(1)
  finally have v: "unat v < 2 ^ 26" by simp
  obtain w where w: "unat w = unat v * 64 + code (buf (Suc i)) mod 64"
    "utf8_trail buf mx (Suc j) i v =
     (if Suc i < mx \<and> cont (buf (Suc i)) then utf8_trail buf mx j (Suc i) w else (Suc j, Suc i, v))"
    using utf8_trail_step [OF v] by blast
  have "Suc (unat w) \<le> Suc (unat v) * 64" using w(1) mod_less_divisor [of 64 "code (buf (Suc i))"] by simp
  then have "Suc (unat w) * 64 ^ j \<le> Suc (unat v) * 64 * 64 ^ j" by (rule mult_le_mono1)
  also have "\<dots> \<le> 2 ^ 32" using Suc.prems(1) by (simp only: power_Suc mult.assoc)
  finally have "Suc (unat w) * 64 ^ j \<le> 2 ^ 32" .
  from Suc.IH [OF this, of "Suc i"] w show ?case by (auto simp: All_less_Suc2)
qed auto

definition lead_len :: "nat \<Rightarrow> nat" where
  "lead_len c = (if c < 0xE0 then 2 else if c < 0xF0 then 3 else 4)"

definition utf8_range :: "nat \<Rightarrow> nat \<Rightarrow> bool" where
  "utf8_range n v \<longleftrightarrow> (if n = 2 then 0x80 else if n = 3 then 0x800 else 0x10000) \<le> v \<and>
     v \<le> (if n = 2 then 0x7FF else if n = 3 then 0xFFFF else 0x10FFFF) \<and> (v < 0xD800 \<or> v > 0xDFFF)"

lemma skipUTF8MultiByte_iff:
  assumes "i < mx"
  shows "skipUTF8MultiByte buf i mx = Some k \<longleftrightarrow>
    0xC2 \<le> code (buf i) \<and> code (buf i) < 0xF5 \<and>
    (let n = lead_len (code (buf i)) in
      k = i + n \<and> k \<le> mx \<and> (\<forall>t < n - 1. cont (buf (Suc i + t))) \<and>
      utf8_range n (trail_value buf (n - 1) i (code (buf i) mod 2 ^ (7 - n))))"
proof (cases "0xC2 \<le> code (buf i) \<and> code (buf i) < 0xF5")
  case False
  then have "skipUTF8MultiByte buf i mx = None"
    by (auto simp: skipUTF8MultiByte_def Let_def word_less_nat_alt)
  with False show ?thesis by (auto simp: Let_def)
next
  case True
  define n where "n = countHighBits (u8 (buf i))"
  define v where "v = (ucast (u8 (buf i)) AND (push_bit (7 - n) 1 - 1) :: u32)"
  have n: "n = lead_len (code (buf i))" using lead_byte True by (simp add: n_def lead_len_def)
  then have n': "n = 2 \<or> n = 3 \<or> n = 4" by (simp add: lead_len_def)
  have v: "unat v = code (buf i) mod 2 ^ (7 - n)" unfolding v_def by (rule lead_value) simp
  have "Suc (unat v) * 64 ^ (n - 1) \<le> 2 ^ 32"
  proof -
    have "Suc (unat v) \<le> 2 ^ (7 - n)" unfolding v by (simp add: Suc_leI)
    then have "Suc (unat v) * 64 ^ (n - 1) \<le> 2 ^ (7 - n) * 64 ^ (n - 1)" by (rule mult_le_mono1)
    also have "\<dots> \<le> 2 ^ 32" using n' by auto
    finally show ?thesis .
  qed
  note t = utf8_trail_iff [OF this assms, of buf "k - 1" "\<lambda>x. k > 0 \<and> utf8_range n x"]
  have "skipUTF8MultiByte buf i mx = Some k \<longleftrightarrow>
    (\<exists>w. utf8_trail buf mx (n - 1) i v = (0, k - 1, w) \<and> k > 0 \<and> shortestUTF8 n w)"
    using True unfolding skipUTF8MultiByte_def Let_def n_def [symmetric] v_def [symmetric]
    by (auto simp: word_less_nat_alt split: prod.splits)
  also have "\<dots> \<longleftrightarrow> k - 1 = i + (n - 1) \<and> k - 1 < mx \<and> (\<forall>t < n - 1. cont (buf (Suc i + t))) \<and>
      k > 0 \<and> utf8_range n (trail_value buf (n - 1) i (unat v))"
    using t by (simp only: shortestUTF8_nat utf8_range_def)
  also have "k - 1 = i + (n - 1) \<and> k - 1 < mx \<and> Q \<and> k > 0 \<and> R \<longleftrightarrow> k = i + n \<and> k \<le> mx \<and> Q \<and> R" for Q R
    using n' by auto
  finally show ?thesis using True by (simp only: Let_def n v simp_thms)
qed

lemma isascii_code: "isascii c \<longleftrightarrow> code c < 0x80"
  by (auto simp: isascii_def less_eq_char_def)

lemma utf8_mods:
  "y < 64 \<Longrightarrow> (0x80 + y) mod 64 = (y :: nat)" "x < 32 \<Longrightarrow> (0xC0 + x) mod 32 = (x :: nat)"
  "x < 16 \<Longrightarrow> (0xE0 + x) mod 16 = (x :: nat)" "x < 8 \<Longrightarrow> (0xF0 + x) mod 8 = (x :: nat)"
  using mod_mult_self3 [of 2 64 y] mod_mult_self3 [of 6 32 x] mod_mult_self3 [of 14 16 x] mod_mult_self3 [of 30 8 x]
  by simp_all

lemma utf8_digits:
  assumes "(y :: nat) < 64" "z < 64" "w < 64"
  shows "(x * 64 + y) div 64 = x" "((x * 64 + y) * 64 + z) div 4096 = x"
    "(((x * 64 + y) * 64 + z) * 64 + w) div 262144 = x"
    "((x * 64 + y) * 64 + z) div 64 mod 64 = y" "(((x * 64 + y) * 64 + z) * 64 + w) div 4096 mod 64 = y"
    "(((x * 64 + y) * 64 + z) * 64 + w) div 64 mod 64 = z" "(a * 64 + w) mod 64 = w"
proof -
  have d: "(a * 64 + b) div 64 = a" "(a * 64 + b) mod 64 = b" if "b < 64" for a b :: nat using that by simp_all
  have e: "n div 4096 = n div 64 div 64" for n :: nat using div_mult2_eq [of n 64 64] by simp
  show "((x * 64 + y) * 64 + z) div 64 mod 64 = y" "(((x * 64 + y) * 64 + z) * 64 + w) div 4096 mod 64 = y"
    "(((x * 64 + y) * 64 + z) * 64 + w) div 64 mod 64 = z" "(a * 64 + w) mod 64 = w"
    using assms by (simp_all only: d e)
qed (use assms in simp_all)

text \<open>Decoding the bytes of a multi-byte form and encoding the value gives the bytes back.\<close>

lemma utf8_encode_value:
  assumes c: "0xC2 \<le> code (buf i)" "code (buf i) < 0xF5"
    and n: "n = lead_len (code (buf i))" and v: "v = trail_value buf (n - 1) i (code (buf i) mod 2 ^ (7 - n))"
    and t: "\<forall>t < n - 1. cont (buf (Suc i + t))" and r: "utf8_range n v"
  shows "length (utf8_bytes v) = n" "holds buf i (utf8_bytes v)"
proof -
  obtain x where x: "code (buf i) = (if n = 2 then 0xC0 else if n = 3 then 0xE0 else 0xF0) + x"
    "x < 2 ^ (7 - n)" and n': "n = 2 \<or> n = 3 \<or> n = 4"
  proof
    show "code (buf i) = (if n = 2 then 0xC0 else if n = 3 then 0xE0 else 0xF0) +
      (code (buf i) - (if n = 2 then 0xC0 else if n = 3 then 0xE0 else 0xF0))"
      "code (buf i) - (if n = 2 then 0xC0 else if n = 3 then 0xE0 else 0xF0) < 2 ^ (7 - n)"
      "n = 2 \<or> n = 3 \<or> n = 4"
      using c n by (auto simp: lead_len_def)
  qed
  have y: "\<exists>y < 64. code (buf (Suc i + t)) = 0x80 + y" if "t < n - 1" for t
    using t that by (intro exI [of _ "code (buf (Suc i + t)) - 0x80"]) auto
  show "length (utf8_bytes v) = n" using r n' by (auto simp: utf8_range_def utf8_bytes_def)
  from n' show "holds buf i (utf8_bytes v)"
  proof (elim disjE)
    assume n: "n = 2"
    obtain y where y: "y < 64" "code (buf (Suc i)) = 0x80 + y" using y [of 0] n by auto
    have "v = x * 64 + y" using v n x y by (simp add: utf8_mods)
    then show ?thesis using r n x y by (simp add: utf8_bytes_def utf8_range_def char_eq utf8_digits)
  next
    assume n: "n = 3"
    obtain y z where y: "y < 64" "code (buf (Suc i)) = 0x80 + y" "z < 64" "code (buf (Suc (Suc i))) = 0x80 + z"
      using y [of 0] y [of 1] n by auto
    have "v = (x * 64 + y) * 64 + z" using v n x y by (simp add: trail_value_num utf8_mods)
    then have "v div 4096 = x" "v div 64 mod 64 = y" "v mod 64 = z" using y by (simp_all only: utf8_digits)
    then show ?thesis using r n x y by (simp add: utf8_bytes_def utf8_range_def char_eq)
  next
    assume n: "n = 4"
    obtain y z w where y: "y < 64" "code (buf (Suc i)) = 0x80 + y" "z < 64" "code (buf (Suc (Suc i))) = 0x80 + z"
      "w < 64" "code (buf (Suc (Suc (Suc i)))) = 0x80 + w"
      using y [of 0] y [of 1] y [of 2] n by auto
    have "v = ((x * 64 + y) * 64 + z) * 64 + w" using v n x y by (simp add: trail_value_num utf8_mods)
    then have "v div 262144 = x" "v div 4096 mod 64 = y" "v div 64 mod 64 = z" "v mod 64 = w"
      using y by (simp_all only: utf8_digits)
    then show ?thesis using r n x y by (simp add: utf8_bytes_def utf8_range_def char_eq)
  qed
qed

lemma all_less_num:
  "(\<forall>t < 2. P t) \<longleftrightarrow> P (0 :: nat) \<and> P 1" "(\<forall>t < 3. P t) \<longleftrightarrow> P (0 :: nat) \<and> P 1 \<and> P 2"
  by (simp_all add: numeral_2_eq_2 numeral_3_eq_3 All_less_Suc2)

lemma utf8_value_encode:
  assumes "scalar_value cp" "0x80 \<le> cp" "holds buf i (utf8_bytes cp)" "n = length (utf8_bytes cp)"
  shows "0xC2 \<le> code (buf i) \<and> code (buf i) < 0xF5 \<and> lead_len (code (buf i)) = n \<and>
    (\<forall>t < n - 1. cont (buf (Suc i + t))) \<and>
    trail_value buf (n - 1) i (code (buf i) mod 2 ^ (7 - n)) = cp \<and> utf8_range n cp"
proof -
  have r: "cp \<le> 0x10FFFF" "cp < 0xD800 \<or> 0xDFFF < cp" using assms(1) by (auto simp: scalar_value_def)
  have e: "cp div 4096 = cp div 64 div 64" "cp div 262144 = cp div 64 div 64 div 64"
    using div_mult2_eq [of cp 64 64] div_mult2_eq [of cp 4096 64] by simp_all
  consider "cp < 0x800" | "0x800 \<le> cp" "cp < 0x10000" | "0x10000 \<le> cp" by linarith
  then show ?thesis
  proof cases
    case 1
    define x where "x = cp div 64"
    have b: "code (buf i) = 0xC0 + x" "code (buf (Suc i)) = 0x80 + cp mod 64" "n = 2" "2 \<le> x" "x < 32" "cp = x * 64 + cp mod 64"
      using 1 assms(2,3,4) by (simp_all add: utf8_bytes_def x_def char_eq)
    then show ?thesis using 1 assms(2) r by (simp add: lead_len_def utf8_range_def utf8_mods)
  next
    case 2
    define x y where "x = cp div 64 div 64" and "y = cp div 64 mod 64"
    have b: "code (buf i) = 0xE0 + x" "code (buf (Suc i)) = 0x80 + y" "code (buf (Suc (Suc i))) = 0x80 + cp mod 64"
      "n = 3" "x < 16" "y < 64"
      using 2 assms(3,4) by (simp_all add: utf8_bytes_def x_def y_def char_eq e)
    have "(x * 64 + y) * 64 + cp mod 64 = cp" by (simp only: x_def y_def div_mult_mod_eq)
    with 2 r b show ?thesis
      by (simp add: lead_len_def utf8_range_def utf8_mods trail_value_num all_less_num)
  next
    case 3
    define x y z where "x = cp div 64 div 64 div 64" and "y = cp div 64 div 64 mod 64" and "z = cp div 64 mod 64"
    have b: "code (buf i) = 0xF0 + x" "code (buf (Suc i)) = 0x80 + y" "code (buf (Suc (Suc i))) = 0x80 + z"
      "code (buf (Suc (Suc (Suc i)))) = 0x80 + cp mod 64" "n = 4" "x < 5" "y < 64" "z < 64"
      using 3 r assms(3,4) by (simp_all add: utf8_bytes_def x_def y_def z_def char_eq e)
    have "((x * 64 + y) * 64 + z) * 64 + cp mod 64 = cp" by (simp only: x_def y_def z_def div_mult_mod_eq)
    with 3 r b show ?thesis
      by (simp add: lead_len_def utf8_range_def utf8_mods trail_value_num all_less_num)
  qed
qed

lemma skipUTF8_iff:
  "skipUTF8 buf i mx = Some k \<longleftrightarrow>
    (\<exists>cp. scalar_value cp \<and> k = i + length (utf8_bytes cp) \<and> k \<le> mx \<and> holds buf i (utf8_bytes cp))"
proof (cases "i < mx")
  case False
  then have "\<not> i + length (utf8_bytes cp) \<le> mx" for cp by (simp add: utf8_bytes_def)
  with False show ?thesis by (auto simp: skipUTF8_def)
next
  case True
  show ?thesis
  proof (cases "isascii (buf i)")
    case ascii: True
    have enc: "utf8_bytes (code (buf i)) = [buf i]" "scalar_value (code (buf i))"
      using ascii by (simp_all add: isascii_code utf8_bytes_def scalar_value_def)
    have cp: "cp = code (buf i)" if "scalar_value cp" "holds buf i (utf8_bytes cp)" for cp
      using utf8_value_encode [of cp buf i, OF that(1) _ that(2) refl] ascii that(2)
      by (cases "cp < 0x80") (auto simp: isascii_code utf8_bytes_def)
    have "skipUTF8 buf i mx = Some (Suc i)" using True ascii by (simp add: skipUTF8_def)
    moreover have "(\<exists>cp. scalar_value cp \<and> k = i + length (utf8_bytes cp) \<and> k \<le> mx \<and> holds buf i (utf8_bytes cp)) \<longleftrightarrow>
      k = i + 1 \<and> k \<le> mx"
      using enc cp by (metis holds_Cons holds_Nil One_nat_def list.size(3,4) plus_nat.add_0)
    ultimately show ?thesis using True by auto
  next
    case False
    have lo: "\<not> cp < 0x80" if "holds buf i (utf8_bytes cp)" for cp
      using that False by (auto simp: utf8_bytes_def isascii_code)
    have "skipUTF8 buf i mx = skipUTF8MultiByte buf i mx" using True False by (simp add: skipUTF8_def)
    moreover have "skipUTF8MultiByte buf i mx = Some k \<longleftrightarrow>
      (\<exists>cp. scalar_value cp \<and> k = i + length (utf8_bytes cp) \<and> k \<le> mx \<and> holds buf i (utf8_bytes cp))" (is "?L \<longleftrightarrow> ?R")
    proof
      assume ?L
      then show ?R
        using utf8_encode_value [of buf i, OF _ _ refl refl] unfolding skipUTF8MultiByte_iff [OF True] Let_def
        by (intro exI [of _ "trail_value buf (lead_len (code (buf i)) - 1) i
              (code (buf i) mod 2 ^ (7 - lead_len (code (buf i))))"])
          (auto simp: scalar_value_def utf8_range_def split: if_splits)
    next
      assume ?R
      then obtain cp where "scalar_value cp" "k = i + length (utf8_bytes cp)" "k \<le> mx" "holds buf i (utf8_bytes cp)" by blast
      with lo [of cp] utf8_value_encode [of cp buf i, OF _ _ _ refl] show ?L
        unfolding skipUTF8MultiByte_iff [OF True] Let_def by simp
    qed
    ultimately show ?thesis by simp
  qed
qed

text \<open>
  C38. \<^verbatim>\<open>skipUTF8\<close> accepts exactly the UTF-8 encodings of the Unicode scalar values, and skips exactly
  the bytes of one of them: no overlong form, no surrogate and nothing above U+10FFFF, and never
  a byte behind the end of the buffer.
\<close>

theorem skipUTF8_exact:
  "skipUTF8 buf i mx = Some k \<longleftrightarrow>
    (\<exists>cp. scalar_value cp \<and> k = i + length (utf8_bytes cp) \<and> k \<le> mx \<and> holds buf i (utf8_bytes cp))"
  by (rule skipUTF8_iff)

section \<open>The grammar of JSON\<close>

definition jws :: "string \<Rightarrow> bool" where "jws w \<longleftrightarrow> list_all isspace w"

definition hex4 :: "string \<Rightarrow> u16 \<Rightarrow> bool" where
  "hex4 ds v \<longleftrightarrow> length ds = 4 \<and> list_all (\<lambda>c. hexToInt c \<noteq> NOT_A_HEX_CHAR) ds \<and>
     v = foldl (\<lambda>v c. push_bit 4 v OR ucast (hexToInt c)) 0 ds"

text \<open>
  The characters between the quotes. Beyond ECMA-404 the library wants well-formed UTF-8, paired
  surrogates, and no \<^verbatim>\<open>\u0000\<close>.
\<close>

inductive jchars :: "string \<Rightarrow> bool" where
  nil: "jchars []"
| plain: "scalar_value cp \<Longrightarrow> 0x20 \<le> cp \<Longrightarrow> cp \<noteq> 0x22 \<Longrightarrow> cp \<noteq> 0x5C \<Longrightarrow> jchars s \<Longrightarrow> jchars (utf8_bytes cp @ s)"
| esc: "c \<in> {CHR 0x22, CHR 0x5C, CHR ''/'', CHR ''b'', CHR ''f'', CHR ''n'', CHR ''r'', CHR ''t''} \<Longrightarrow> jchars s \<Longrightarrow>
    jchars (CHR 0x5C # c # s)"
| uni: "hex4 ds v \<Longrightarrow> v \<noteq> 0 \<Longrightarrow> \<not> isHighSurrogate v \<Longrightarrow> \<not> isLowSurrogate v \<Longrightarrow> jchars s \<Longrightarrow>
    jchars (CHR 0x5C # CHR ''u'' # ds @ s)"
| pair: "hex4 ds v \<Longrightarrow> isHighSurrogate v \<Longrightarrow> hex4 es w \<Longrightarrow> isLowSurrogate w \<Longrightarrow> jchars s \<Longrightarrow>
    jchars (CHR 0x5C # CHR ''u'' # ds @ CHR 0x5C # CHR ''u'' # es @ s)"

definition jstring :: "string \<Rightarrow> string \<Rightarrow> bool" where
  "jstring k s \<longleftrightarrow> jchars k \<and> s = CHR 0x22 # k @ [CHR 0x22]"

definition jdigits :: "string \<Rightarrow> bool" where "jdigits s \<longleftrightarrow> s \<noteq> [] \<and> list_all isdigit s"

definition jint :: "string \<Rightarrow> bool" where
  "jint s \<longleftrightarrow> (\<exists>sg ds. s = sg @ ds \<and> (sg = [] \<or> sg = ''-'') \<and> (ds = ''0'' \<or> jdigits ds \<and> hd ds \<noteq> CHR ''0''))"

definition jfrac :: "string \<Rightarrow> bool" where
  "jfrac s \<longleftrightarrow> s = [] \<or> (\<exists>ds. s = CHR ''.'' # ds \<and> jdigits ds)"

definition jexp :: "string \<Rightarrow> bool" where
  "jexp s \<longleftrightarrow> s = [] \<or> (\<exists>e sg ds. s = e # sg @ ds \<and> (e = CHR ''e'' \<or> e = CHR ''E'') \<and>
     (sg = [] \<or> sg = ''-'' \<or> sg = ''+'') \<and> jdigits ds)"

definition jnumber :: "string \<Rightarrow> bool" where
  "jnumber s \<longleftrightarrow> (\<exists>i f e. s = i @ f @ e \<and> jint i \<and> jfrac f \<and> jexp e)"

definition jscalar :: "string \<Rightarrow> bool" where
  "jscalar s \<longleftrightarrow> (\<exists>k. jstring k s) \<or> s \<in> {''true'', ''false'', ''null''} \<or> jnumber s"

text \<open>
  Values, the elements of an array and the members of an object (with the list of their keys and
  values). The number bounds the nesting of arrays and objects.
\<close>

inductive jvalue :: "nat \<Rightarrow> string \<Rightarrow> bool"
  and jelems :: "nat \<Rightarrow> string \<Rightarrow> bool"
  and jmembers :: "nat \<Rightarrow> (string \<times> string) list \<Rightarrow> string \<Rightarrow> bool" where
  scalar: "jscalar s \<Longrightarrow> jvalue d s"
| arr0: "jws w \<Longrightarrow> jvalue (Suc d) (''['' @ w @ '']'')"
| arr: "jws w \<Longrightarrow> jelems d es \<Longrightarrow> jvalue (Suc d) (''['' @ w @ es @ '']'')"
| obj0: "jws w \<Longrightarrow> jvalue (Suc d) (''{'' @ w @ ''}'')"
| obj: "jws w \<Longrightarrow> jmembers d kvs ms \<Longrightarrow> jvalue (Suc d) (''{'' @ w @ ms @ ''}'')"
| one: "jvalue d v \<Longrightarrow> jws w \<Longrightarrow> jelems d (v @ w)"
| more: "jvalue d v \<Longrightarrow> jws w \<Longrightarrow> jws w' \<Longrightarrow> jelems d es \<Longrightarrow> jelems d (v @ w @ '','' @ w' @ es)"
| mem: "jstring k ks \<Longrightarrow> jws w1 \<Longrightarrow> jws w2 \<Longrightarrow> jvalue d v \<Longrightarrow> jws w3 \<Longrightarrow>
    jmembers d [(k, v)] (ks @ w1 @ '':'' @ w2 @ v @ w3)"
| mems: "jstring k ks \<Longrightarrow> jws w1 \<Longrightarrow> jws w2 \<Longrightarrow> jvalue d v \<Longrightarrow> jws w3 \<Longrightarrow> jws w4 \<Longrightarrow> jmembers d kvs ms \<Longrightarrow>
    jmembers d ((k, v) # kvs) (ks @ w1 @ '':'' @ w2 @ v @ w3 @ '','' @ w4 @ ms)"

section \<open>Scalars are skipped exactly\<close>

lemma skipSpace_exact:
  assumes "holds buf i w" "jws w" "i + length w \<le> mx" "i + length w = mx \<or> \<not> isspace (buf (i + length w))"
  shows "skipSpace buf i mx = i + length w"
  using assms
proof (induction w arbitrary: i)
  case Nil
  then show ?case by (subst skipSpace.simps) auto
next
  case (Cons c w)
  then show ?case by (subst skipSpace.simps) (auto simp: jws_def)
qed

lemma hexDigits_exact:
  assumes "holds buf i ds" "list_all (\<lambda>c. hexToInt c \<noteq> NOT_A_HEX_CHAR) ds"
  shows "hexDigits buf i (i + length ds) v = (i + length ds, foldl (\<lambda>v c. push_bit 4 v OR ucast (hexToInt c)) v ds)"
  using assms
proof (induction ds arbitrary: i v)
  case Nil
  then show ?case by (subst hexDigits.simps) simp
next
  case (Cons c ds)
  from Cons.IH [of "Suc i"] Cons.prems show ?case by (subst hexDigits.simps) simp
qed

lemma skipOneHexEscape_exact:
  assumes "holds buf i (CHR 0x5C # CHR ''u'' # ds)" "hex4 ds v" "v \<noteq> 0" "i + 6 < mx" "mx \<le> SIZE_MAX"
  shows "skipOneHexEscape buf i mx = Some (i + 6, v)"
proof -
  have "hexDigits buf (Suc (Suc i)) (i + 6) 0 = (i + 6, v)"
    using hexDigits_exact [of buf "Suc (Suc i)" ds 0] assms(1,2) by (simp add: hex4_def add.commute)
  with assms show ?thesis
    by (auto simp: skipOneHexEscape_def HEX_ESCAPE_LENGTH_def Let_def word_neq_0_conv)
qed

lemma utf8_first:
  assumes "scalar_value cp" "0x20 \<le> cp" "cp \<noteq> 0x22" "cp \<noteq> 0x5C" "holds buf i (utf8_bytes cp)"
  shows "buf i \<noteq> CHR 0x22 \<and> buf i \<noteq> CHR 0x5C \<and> \<not> iscntrl (buf i)"
proof -
  have "code (buf i) = cp \<or> 0xC2 \<le> code (buf i)"
    using utf8_value_encode [of cp buf i, OF assms(1) _ assms(5) refl] assms(5)
    by (cases "cp < 0x80") (auto simp: utf8_bytes_def)
  with assms(2-4) show ?thesis by (auto simp: iscntrl_def less_char_def)
qed

lemma stringChars_exact:
  assumes "jchars s" "holds buf i (s @ [CHR 0x22])" "i + length s < mx" "mx \<le> SIZE_MAX"
  shows "stringChars buf i mx = Some (Suc (i + length s))"
  using assms
proof (induction arbitrary: i)
  case nil
  then show ?case by (subst stringChars.simps) simp
next
  case (plain cp s)
  have "skipUTF8 buf i mx = Some (i + length (utf8_bytes cp))"
    using plain by (auto simp: skipUTF8_iff)
  moreover have "buf i \<noteq> CHR 0x22 \<and> buf i \<noteq> CHR 0x5C \<and> \<not> iscntrl (buf i)"
    using utf8_first [of cp buf i] plain by simp
  ultimately show ?case using plain by (subst stringChars.simps) simp
next
  case (esc c s)
  then have "skipEscape buf i mx = Some (i + 2)" by (auto simp: skipEscape_def Let_def)
  with esc show ?case by (subst stringChars.simps) simp
next
  case (uni ds v s)
  have "skipOneHexEscape buf i mx = Some (i + 6, v)"
    using uni by (intro skipOneHexEscape_exact) (auto simp: hex4_def)
  with uni have "skipEscape buf i mx = Some (i + 6)" by (auto simp: skipEscape_def skipHexEscape_def Let_def hex4_def)
  with uni.IH [of "i + 6"] uni.hyps uni.prems show ?case by (subst stringChars.simps) (simp add: hex4_def ac_simps)
next
  case (pair ds v es w s)
  have "v \<noteq> 0" "w \<noteq> 0" using pair by (auto simp: isHighSurrogate_def isLowSurrogate_def)
  then have "skipOneHexEscape buf i mx = Some (i + 6, v)" "skipOneHexEscape buf (i + 6) mx = Some (i + 12, w)"
    using pair skipOneHexEscape_exact [of buf i ds v mx] skipOneHexEscape_exact [of buf "i + 6" es w mx]
    by (auto simp: hex4_def ac_simps)
  with pair have "skipEscape buf i mx = Some (i + 12)" by (auto simp: skipEscape_def skipHexEscape_def Let_def hex4_def)
  with pair.IH [of "i + 12"] pair.hyps pair.prems show ?case
    by (subst stringChars.simps) (simp add: hex4_def ac_simps)
qed

lemma digits_exact:
  assumes "holds buf i ds" "list_all isdigit ds" "i + length ds \<le> mx" "i + length ds = mx \<or> \<not> isdigit (buf (i + length ds))"
  shows "digits buf i mx False v = (i + length ds, v)"
  using assms
proof (induction ds arbitrary: i)
  case Nil
  then show ?case by (subst digits.simps) auto
next
  case (Cons c ds)
  then show ?case by (subst digits.simps) auto
qed

lemma skipDigits_exact:
  assumes "holds buf i ds" "jdigits ds" "i + length ds \<le> mx" "i + length ds = mx \<or> \<not> isdigit (buf (i + length ds))"
  shows "skipDigits buf i mx False = Some (i + length ds, 0)"
  using digits_exact [of buf i ds mx 0] assms by (simp add: skipDigits_def jdigits_def)

text \<open>What may follow a number: the end of the buffer or no character of a number.\<close>

definition numEnd :: "buffer \<Rightarrow> nat \<Rightarrow> nat \<Rightarrow> bool" where
  "numEnd buf i mx \<longleftrightarrow> i = mx \<or> \<not> isdigit (buf i) \<and> buf i \<notin> {CHR ''.'', CHR ''e'', CHR ''E''}"

lemma jdigits_hd: "jdigits ds \<Longrightarrow> holds buf i ds \<Longrightarrow> isdigit (buf i)"
  by (cases ds) (auto simp: jdigits_def)

lemma not_isdigit: "\<not> isdigit CHR ''.''" "\<not> isdigit CHR ''e''" "\<not> isdigit CHR ''E''" "\<not> isdigit CHR ''-''" "\<not> isdigit CHR ''+''"
  by (simp_all add: isdigit_def)

lemma skipExponent_exact:
  assumes "holds buf i e" "jexp e" "i + length e \<le> mx" "numEnd buf (i + length e) mx"
  shows "skipExponent buf i mx = i + length e"
proof (cases "e = []")
  case True
  then show ?thesis using assms(4) by (auto simp: skipExponent_def numEnd_def)
next
  case False
  with assms(2) obtain c sg ds where e: "e = c # sg @ ds" "c = CHR ''e'' \<or> c = CHR ''E''"
    "sg = [] \<or> sg = ''-'' \<or> sg = ''+''" "jdigits ds" by (auto simp: jexp_def)
  have "ds \<noteq> []" using e(4) by (simp add: jdigits_def)
  moreover have d: "isdigit (buf (Suc i + length sg))" using jdigits_hd [OF e(4), of buf "Suc i + length sg"] assms(1) e(1) by simp
  moreover have "skipDigits buf (Suc i + length sg) mx False = Some (i + length e, 0)"
    using skipDigits_exact [of buf "Suc i + length sg" ds mx] e assms by (auto simp: numEnd_def)
  ultimately show ?thesis using e assms not_isdigit by (fastforce simp: skipExponent_def Let_def)
qed

lemma skipDecimals_exact:
  assumes "holds buf i f" "jfrac f" "i + length f \<le> mx" "i + length f = mx \<or> \<not> isdigit (buf (i + length f)) \<and> buf (i + length f) \<noteq> CHR ''.''"
  shows "skipDecimals buf i mx = i + length f"
proof (cases "f = []")
  case True
  then show ?thesis using assms(4) by (auto simp: skipDecimals_def)
next
  case False
  with assms(2) obtain ds where f: "f = CHR ''.'' # ds" "jdigits ds" by (auto simp: jfrac_def)
  have "skipDigits buf (Suc i) mx False = Some (i + length f, 0)"
    using skipDigits_exact [of buf "Suc i" ds mx] f assms by auto
  then show ?thesis using f assms by (simp add: skipDecimals_def)
qed

lemma skipInteger_exact:
  assumes "holds buf i s" "jint s" "i + length s \<le> mx" "i + length s = mx \<or> \<not> isdigit (buf (i + length s))"
  shows "skipInteger buf i mx = Some (i + length s)"
proof -
  from assms(2) obtain sg ds where s: "s = sg @ ds" "sg = [] \<or> sg = ''-''" "ds = ''0'' \<or> jdigits ds \<and> hd ds \<noteq> CHR ''0''"
    by (auto simp: jint_def)
  obtain c cs where c: "ds = c # cs" "isdigit c" using s(3) by (cases ds) (auto simp: jdigits_def isdigit_def)
  have n: "c \<noteq> CHR ''-''" using c(2) by (auto simp: isdigit_def)
  have d: "skipDigits buf (i + length sg) mx False = Some (i + length s, 0)" if "c \<noteq> CHR ''0''"
    using skipDigits_exact [of buf "i + length sg" ds mx] s c that assms by auto
  from s(2) show ?thesis using assms s(1,3) c n d by (auto simp: skipInteger_def Let_def)
qed

lemma jfrac_first: "jfrac f \<Longrightarrow> f \<noteq> [] \<Longrightarrow> holds buf i f \<Longrightarrow> buf i = CHR ''.''"
  and jexp_first: "jexp e \<Longrightarrow> e \<noteq> [] \<Longrightarrow> holds buf i e \<Longrightarrow> buf i = CHR ''e'' \<or> buf i = CHR ''E''"
  by (auto simp: jfrac_def jexp_def)

lemma skipNumber_exact:
  assumes "holds buf i s" "jnumber s" "i + length s \<le> mx" "numEnd buf (i + length s) mx"
  shows "skipNumber buf i mx = Some (i + length s)"
proof -
  from assms(2) obtain n f e where s: "s = n @ f @ e" "jint n" "jfrac f" "jexp e" by (auto simp: jnumber_def)
  let ?j = "i + length n" and ?k = "i + length n + length f"
  have h: "holds buf i n" "holds buf ?j f" "holds buf ?k e" and l: "?k + length e = i + length s" using assms(1) s(1) by simp_all
  have k: "?k = mx \<or> \<not> isdigit (buf ?k) \<and> buf ?k \<noteq> CHR ''.''"
    using jexp_first [OF s(4) _ h(3)] assms(4) s(1) not_isdigit by (cases "e = []") (auto simp: numEnd_def add.assoc)
  have j: "?j = mx \<or> \<not> isdigit (buf ?j)"
    using jfrac_first [OF s(3) _ h(2)] k not_isdigit by (cases "f = []") auto
  have "skipInteger buf i mx = Some ?j" by (rule skipInteger_exact [OF h(1) s(2)]) (use j assms(3) s(1) in auto)
  moreover have "skipDecimals buf ?j mx = ?k" by (rule skipDecimals_exact [OF h(2) s(3)]) (use k assms(3) s(1) in auto)
  moreover have "skipExponent buf ?k mx = i + length s"
    using skipExponent_exact [OF h(3) s(4)] assms(3,4) l by simp
  ultimately show ?thesis by (simp add: skipNumber_def)
qed

lemma strnEq_iff: "strnEq a b n \<longleftrightarrow> (\<forall>k < n. a k = b k)"
  by (auto simp: strnEq_def list_all_iff)

lemma strnEq_holds: "strnEq (at buf i) (chars s) (length s) \<longleftrightarrow> holds buf i s"
  by (simp add: strnEq_iff holds_def chars_def at_def)

lemma skipLiteral_holds:
  "skipLiteral buf i mx s = (if i < mx \<and> length s \<le> mx - i \<and> holds buf i s then Some (i + length s) else None)"
  by (simp add: skipLiteral_def strnEq_holds)

text \<open>The first character decides which kind of scalar it can be.\<close>

lemma jnumber_first: "jnumber s \<Longrightarrow> holds buf i s \<Longrightarrow> isdigit (buf i) \<or> buf i = CHR ''-''"
proof -
  assume "jnumber s" "holds buf i s"
  then obtain n where n: "jint n" "holds buf i n" by (auto simp: jnumber_def)
  then obtain sg ds where "n = sg @ ds" "sg = [] \<or> sg = ''-''" "ds = ''0'' \<or> jdigits ds" by (auto simp: jint_def)
  with n(2) jdigits_hd [of ds buf i] show ?thesis by (auto simp: isdigit_def)
qed

lemma skipString_first: "buf i \<noteq> CHR 0x22 \<Longrightarrow> skipString buf i mx = None"
  by (simp add: skipString_def)

lemma skipAnyLiteral_first: "buf i \<notin> {CHR ''t'', CHR ''f'', CHR ''n''} \<Longrightarrow> skipAnyLiteral buf i mx = None"
  by (auto simp: skipAnyLiteral_def orelse_def skipLiteral_holds)

lemma skipNumber_first: "\<not> isdigit (buf i) \<Longrightarrow> buf i \<noteq> CHR ''-'' \<Longrightarrow> skipNumber buf i mx = None"
  by (auto simp: skipNumber_def skipInteger_def skipDigits_def isdigit_def digits.simps [of buf i mx False 0])

lemma skipAnyScalar_exact:
  assumes "holds buf i s" "jscalar s" "i + length s \<le> mx" "numEnd buf (i + length s) mx" "mx \<le> SIZE_MAX"
  shows "skipAnyScalar buf i mx = Some (i + length s)"
proof -
  consider k where "jstring k s" | "s \<in> {''true'', ''false'', ''null''}" | "jnumber s"
    using assms(2) by (auto simp: jscalar_def)
  then show ?thesis
  proof cases
    case 1
    then have "skipString buf i mx = Some (i + length s)"
      using stringChars_exact [of k buf "Suc i" mx] assms by (auto simp: jstring_def skipString_def)
    then show ?thesis by (simp add: skipAnyScalar_def orelse_def)
  next
    case 2
    then have "skipString buf i mx = None" using assms(1) by (auto intro: skipString_first)
    moreover have "skipAnyLiteral buf i mx = Some (i + length s)"
    proof -
      have "s = ''true'' \<or> s = ''false'' \<or> s = ''null''" using 2 by simp
      then show ?thesis using assms(1,3)
        by (elim disjE) (simp_all add: skipAnyLiteral_def skipLiteral_holds orelse_def)
    qed
    ultimately show ?thesis by (simp add: skipAnyScalar_def orelse_def)
  next
    case 3
    have "skipString buf i mx = None" "skipAnyLiteral buf i mx = None"
      using jnumber_first [OF 3 assms(1)] by (auto simp: isdigit_def intro!: skipString_first skipAnyLiteral_first)
    then show ?thesis using skipNumber_exact [OF assms(1) 3 assms(3,4)] by (simp add: skipAnyScalar_def orelse_def)
  qed
qed

end
