(* ===== verification/JsonSafe.thy ===== *)
theory JsonSafe
  imports JsonGrammar
begin

text \<open>
  Safety of \<^verbatim>\<open>core_json.c\<close> on arbitrary buffers, well-formed or not: what a search returns lies inside
  the buffer, no result depends on what lies behind its end, and the index of a query is computed
  without overflow.
\<close>

section \<open>Results lie inside the buffer\<close>

text \<open>A value of \<open>n\<close> characters at \<open>v\<close>; one that begins with a quote also ends with a quote.\<close>

definition value_at :: "buffer \<Rightarrow> nat \<Rightarrow> nat \<times> nat \<Rightarrow> bool" where
  "value_at buf mx r \<longleftrightarrow> (case r of (v, n) \<Rightarrow> 0 < n \<and> v + n \<le> mx \<and>
     (buf v = CHR 0x22 \<longrightarrow> 2 \<le> n \<and> buf (v + n - 1) = CHR 0x22))"

lemma stringChars_last: "stringChars buf i mx = Some k \<Longrightarrow> buf (k - 1) = CHR 0x22"
proof (induction buf i mx rule: stringChars.induct)
  case (1 buf i mx)
  then show ?case unfolding stringChars.simps [of buf i mx] by (auto split: if_splits option.splits)
qed

lemma collection_quote: "buf i = CHR 0x22 \<Longrightarrow> fst (skipCollection buf i mx) \<noteq> JSONSuccess"
  using collection_end [of i mx buf] collection_other [of i mx buf]
  by (cases "i < mx") (simp_all add: skipCollection_def isOpenBracket_def isCloseBracket_def)

lemma nextValue_ok:
  assumes "nextValue buf i mx = Some (k, r)" "i < mx"
  shows "value_at buf mx r"
proof -
  obtain v n where r: "r = (v, n)" by (cases r)
  with assms have b: "v = i" "n = k - i" "i < k" "k \<le> mx" using nextValue_bounds [of buf i mx k v n] by simp_all
  show ?thesis
  proof (cases "buf i = CHR 0x22")
    case True
    have "skipAnyScalar buf i mx \<noteq> None"
      using assms(1) collection_quote [of buf i mx, OF True]
      by (auto simp: nextValue_def split: option.splits prod.splits JSONStatus_t.splits)
    then have s: "skipString buf i mx = Some k"
      using assms(1) True skipAnyLiteral_first [of buf i mx] skipNumber_first [of buf i mx]
      by (auto simp: nextValue_def skipAnyScalar_def orelse_def isdigit_def split: option.splits)
    then have "stringChars buf (Suc i) mx = Some k" by (auto simp: skipString_def split: if_splits)
    moreover have "2 \<le> k - i" using skipString_bounds [OF s] by arith
    ultimately show ?thesis using stringChars_last [of buf "Suc i" mx k] b by (simp add: value_at_def r)
  qed (use b in \<open>simp add: value_at_def r\<close>)
qed

lemma objectPairs_ok: "objectPairs buf i mx q n = Some r \<Longrightarrow> value_at buf mx r"
proof (induction buf i mx q n rule: objectPairs.induct)
  case (1 buf i mx q n)
  have nv: "value_at buf mx v" if "nextKeyValuePair buf i mx = Some (k, kl, v)" for k kl v
  proof -
    from that obtain j where "nextValue buf (skipSpace buf (Suc j) mx) mx = Some (k, v)"
      by (auto simp: nextKeyValuePair_def Let_def split: option.splits if_splits)
    moreover have "skipSpace buf (Suc j) mx < mx"
    proof (rule ccontr)
      assume "\<not> skipSpace buf (Suc j) mx < mx"
      then have "nextValue buf (skipSpace buf (Suc j) mx) mx = None"
        by (simp add: nextValue_def skipAnyScalar_def orelse_def skipString_def skipAnyLiteral_def skipLiteral_def
            skipNumber_def skipInteger_def skipCollection_def collection_end)
      with calculation show False by simp
    qed
    ultimately show ?thesis by (rule nextValue_ok)
  qed
  from 1 show ?case unfolding objectPairs.simps [of buf i mx q n]
    by (auto split: if_splits option.splits prod.splits dest: nv)
qed

lemma arrayValues_ok: "arrayValues buf i mx q c = Some r \<Longrightarrow> value_at buf mx r"
proof (induction buf i mx q c rule: arrayValues.induct)
  case (1 buf i mx q c)
  then show ?case unfolding arrayValues.simps [of buf i mx q c]
    by (auto split: if_splits option.splits prod.splits dest: nextValue_ok)
qed

lemma searchPart_ok: "searchPart buf len q n i = Inr (k, Some r) \<Longrightarrow> value_at buf len r"
  by (auto simp: searchPart_def arraySearch_def objectSearch_def Let_def
      split: if_splits option.splits prod.splits dest: objectPairs_ok arrayValues_ok)

lemma multiSearchFrom_ok:
  "multiSearchFrom buf q n i start len = Inr (v, m) \<Longrightarrow> start + len \<le> mx \<Longrightarrow>
    (i \<ge> n \<Longrightarrow> value_at buf mx (start, len)) \<Longrightarrow> value_at buf mx (v, m)"
proof (induction buf q n i start len rule: multiSearchFrom.induct)
  case (1 buf q n i start len)
  show ?case
  proof (cases "i < n")
    case False
    then show ?thesis using 1(2-) unfolding multiSearchFrom.simps [of buf q n i start len] by auto
  next
    case True
    with 1(2) obtain k w l where s: "searchPart (at buf start) len q n i = Inr (k, Some (w, l))"
      "multiSearchFrom buf q n (if k < n \<and> isSeparator (q k) then Suc k else k) (start + w) l = Inr (v, m)"
      unfolding multiSearchFrom.simps [of buf q n i start len]
      by (auto split: sum.splits option.splits prod.splits)
    have "value_at (at buf start) len (w, l)" by (rule searchPart_ok [OF s(1)])
    then have "value_at buf mx (start + w, l)" using 1(3) by (auto simp: value_at_def at_def add.assoc)
    with 1(1) [OF True s(1) refl refl refl s(2)] show ?thesis by (simp add: value_at_def)
  qed
qed

text \<open>
  C37. Whatever the buffer and the query are, the text a successful search returns lies inside the
  buffer, and a string is returned without the two quotes around it: the length, from which 2 was
  subtracted, did not wrap around.
\<close>

theorem JSON_Search_bounds:
  assumes "JSON_SearchConst (Some buf) mx (Some query) queryLength ok = Inr (v, n, t)"
  shows "v + n \<le> mx \<and> (t = JSONString \<longrightarrow> 0 < v \<and> buf (v - 1) = CHR 0x22 \<and> v + n < mx \<and> buf (v + n) = CHR 0x22)"
proof -
  from assms obtain w l where m: "multiSearch buf mx query queryLength = Inr (w, l)" "queryLength \<noteq> 0"
    and r: "(v, n, t) = (if getType (buf w) = JSONString then (w + 1, l - 2, JSONString) else (w, l, getType (buf w)))"
    by (auto simp: JSON_SearchConst_def Let_def split: if_splits sum.splits)
  have "value_at buf mx (w, l)"
    using multiSearchFrom_ok [of buf query queryLength 0 0 mx w l mx] m by (simp add: multiSearch_def)
  moreover have "getType (buf w) = JSONString \<longleftrightarrow> buf w = CHR 0x22" by (simp add: getType_def)
  moreover have "Suc (w + l - 2) = w + l - 1" if "2 \<le> l" using that by simp
  ultimately show ?thesis using r by (auto simp: value_at_def split: if_splits)
qed

theorem JSON_Search_bounds_witness:
  "case JSON_SearchConst (Some (chars ''{\"a\":[\"xy\"]}'')) 12 (Some (chars ''a[0]'')) 4 True of
     Inl e \<Rightarrow> False
   | Inr (v, n, t) \<Rightarrow> v + n \<le> 12 \<and> t = JSONString \<and> chars ''{\"a\":[\"xy\"]}'' (v + n) = CHR 0x22"
proof -
  have "JSON_SearchConst (Some (chars ''{\"a\":[\"xy\"]}'')) 12 (Some (chars ''a[0]'')) 4 True = Inr (7, 2, JSONString)"
    by code_simp
  from JSON_Search_bounds [OF this] this show ?thesis by simp
qed

section \<open>The index of a query\<close>

definition decimal :: "int \<Rightarrow> string \<Rightarrow> int" where
  "decimal = foldl (\<lambda>a c. a * 10 + (int (code c) - 48))"

definition clamp :: "int \<Rightarrow> int" where
  "clamp n = (if n \<le> MAX_INDEX_VALUE then n else -1)"

lemma hexToInt_digit: "isdigit c \<Longrightarrow> sint (hexToInt c) = int (code c) - 48"
proof -
  assume d: "isdigit c"
  then have "c \<in> set ''0123456789''"
  proof -
    have "code c \<in> set [48..<58]" using d by (simp only: set_upt isdigit_code atLeastLessThan_iff) arith
    then have "char_of (code c) \<in> char_of ` set [48..<58]" by (rule imageI)
    moreover have "map char_of [48..<58] = ''0123456789''" by code_simp
    ultimately show ?thesis by (metis char_of_char list.set_map)
  qed
  moreover have "list_all (\<lambda>c. sint (hexToInt c) = int (code c) - 48) ''0123456789''" by code_simp
  ultimately show ?thesis by (simp only: list_all_iff)
qed

lemma clamp_step:
  assumes "0 \<le> n" "isdigit c"
  shows "(if clamp n > -1 then if clamp n \<le> MAX_FACTOR then clamp n * 10 + sint (hexToInt c) else -1 else clamp n)
    = clamp (n * 10 + (int (code c) - 48))"
  using assms by (auto simp: hexToInt_digit clamp_def MAX_INDEX_VALUE_def MAX_FACTOR_def isdigit_code)

lemma digits_value:
  assumes "holds buf i ds" "list_all isdigit ds" "i + length ds \<le> mx" "i + length ds = mx \<or> \<not> isdigit (buf (i + length ds))" "0 \<le> n"
  shows "digits buf i mx True (clamp n) = (i + length ds, clamp (decimal n ds))"
  using assms
proof (induction ds arbitrary: i n)
  case Nil
  then show ?case by (subst digits.simps) (auto simp: decimal_def)
next
  case (Cons c ds)
  have "0 \<le> n * 10 + (int (code c) - 48)" using Cons.prems by (auto simp: isdigit_code)
  with Cons.IH [of "Suc i" "n * 10 + (int (code c) - 48)"] Cons.prems show ?case
    by (subst digits.simps) (simp add: clamp_step decimal_def)
qed

text \<open>
  C40. The digits of a query index are read as the decimal number they denote when it is at most
  2147483639, and as -1, which the search refuses, when it is larger: for any number of digits the
  32-bit arithmetic does not overflow.
\<close>

theorem skipDigits_value:
  assumes "holds buf i ds" "jdigits ds" "i + length ds \<le> mx" "i + length ds = mx \<or> \<not> isdigit (buf (i + length ds))"
  shows "skipDigits buf i mx True =
    Some (i + length ds, if decimal 0 ds \<le> MAX_INDEX_VALUE then decimal 0 ds else -1)"
  using digits_value [of buf i ds mx 0] assms
  by (simp add: skipDigits_def jdigits_def clamp_def MAX_INDEX_VALUE_def)

theorem skipDigits_value_witness:
  "skipDigits (chars ''2147483639]'') 0 11 True = Some (0 + length ''2147483639'', 2147483639) \<and>
   skipDigits (chars ''9999999999]'') 0 11 True = Some (0 + length ''9999999999'', -1)"
proof -
  have "chars ''2147483639]'' (length ''2147483639'') = CHR '']''" "chars ''9999999999]'' (length ''9999999999'') = CHR '']''"
    by code_simp+
  moreover have "holds (chars ''2147483639]'') 0 ''2147483639''" "holds (chars ''9999999999]'') 0 ''9999999999''"
    using holds_chars [of "''2147483639]''"] holds_chars [of "''9999999999]''"] by (simp_all del: holds_chars)
  moreover have "decimal 0 ''2147483639'' = 2147483639" "decimal 0 ''9999999999'' = 9999999999" by code_simp+
  ultimately show ?thesis
    using skipDigits_value [of "chars ''2147483639]''" 0 "''2147483639''" 11]
      skipDigits_value [of "chars ''9999999999]''" 0 "''9999999999''" 11]
    by (simp add: jdigits_def isdigit_def MAX_INDEX_VALUE_def)
qed

section \<open>Nothing behind the end of the buffer matters\<close>

definition same :: "nat \<Rightarrow> buffer \<Rightarrow> buffer \<Rightarrow> bool" where
  "same mx a b \<longleftrightarrow> mx \<le> SIZE_MAX \<and> (\<forall>k < mx. a k = b k)"

lemma same_nth: "same mx a b \<Longrightarrow> k < mx \<Longrightarrow> a k = b k"
  by (simp add: same_def)

lemma same_skipSpace: "same mx a b \<Longrightarrow> skipSpace a i mx = skipSpace b i mx"
proof (induction a i mx rule: skipSpace.induct)
  case (1 a i mx)
  then show ?case unfolding skipSpace.simps [of a i mx] skipSpace.simps [of b i mx] by (auto simp: same_nth [of mx a b])
qed

lemma same_utf8_trail: "same mx a b \<Longrightarrow> utf8_trail a mx j i v = utf8_trail b mx j i v"
  by (induction j arbitrary: i v) (simp_all add: Let_def same_nth [of mx a b])

lemma same_skipUTF8: "same mx a b \<Longrightarrow> skipUTF8 a i mx = skipUTF8 b i mx"
  by (simp add: skipUTF8_def skipUTF8MultiByte_def same_utf8_trail [of mx a b] same_nth [of mx a b] Let_def)

lemma same_hexDigits: "same mx a b \<Longrightarrow> e \<le> mx \<Longrightarrow> hexDigits a i e v = hexDigits b i e v"
proof (induction a i e v rule: hexDigits.induct)
  case (1 a i e v)
  then show ?case unfolding hexDigits.simps [of a i e v] hexDigits.simps [of b i e v]
    by (simp add: Let_def same_nth [of mx a b])
qed

lemma same_skipOneHexEscape: "same mx a b \<Longrightarrow> skipOneHexEscape a i mx = skipOneHexEscape b i mx"
proof -
  assume s: "same mx a b"
  define e where "e = (if i \<le> SIZE_MAX - HEX_ESCAPE_LENGTH then i + HEX_ESCAPE_LENGTH else SIZE_MAX)"
  have "a i = b i \<and> a (i + 1) = b (i + 1) \<and> hexDigits a (i + 2) e 0 = hexDigits b (i + 2) e 0" if "e < mx"
  proof -
    have "e = i + 6" using that s by (auto simp: e_def same_def HEX_ESCAPE_LENGTH_def split: if_splits)
    then show ?thesis using that s same_hexDigits [OF s, of e "i + 2" 0] same_nth [OF s] by simp
  qed
  then show ?thesis unfolding skipOneHexEscape_def e_def [symmetric] Let_def by (cases "e < mx") simp_all
qed

lemma same_skipEscape: "same mx a b \<Longrightarrow> skipEscape a i mx = skipEscape b i mx"
proof -
  assume s: "same mx a b"
  have "skipHexEscape a i mx = skipHexEscape b i mx"
    by (simp add: skipHexEscape_def same_skipOneHexEscape [OF s] split: option.split)
  moreover have "a i = b i \<and> a (i + 1) = b (i + 1)" if "i < mx - 1"
    using that same_nth [OF s, of i] same_nth [OF s, of "i + 1"] by simp
  ultimately show ?thesis by (cases "i < mx - 1") (simp_all add: skipEscape_def Let_def)
qed

lemma same_stringChars: "same mx a b \<Longrightarrow> stringChars a i mx = stringChars b i mx"
proof (induction a i mx rule: stringChars.induct)
  case (1 a i mx)
  then show ?case unfolding stringChars.simps [of a i mx] stringChars.simps [of b i mx]
    by (auto simp: same_skipEscape [of mx a b] same_skipUTF8 [of mx a b] same_nth [of mx a b] split: option.split)
qed

lemma same_strnEq: "same mx a b \<Longrightarrow> i + n \<le> mx \<Longrightarrow> strnEq (at a i) c n = strnEq (at b i) c n"
  by (simp add: strnEq_iff at_def same_nth [of mx a b])

lemma same_skipAnyLiteral: "same mx a b \<Longrightarrow> skipAnyLiteral a i mx = skipAnyLiteral b i mx"
proof -
  assume s: "same mx a b"
  have "skipLiteral a i mx l = skipLiteral b i mx l" for l
    using same_strnEq [OF s, of i "length l"] by (auto simp: skipLiteral_def)
  then show ?thesis by (simp add: skipAnyLiteral_def)
qed

lemma same_digits: "same mx a b \<Longrightarrow> digits a i mx out v = digits b i mx out v"
proof (induction a i mx out v rule: digits.induct)
  case (1 a i mx out v)
  then show ?case unfolding digits.simps [of a i mx out v] digits.simps [of b i mx out v]
    by (auto simp: same_nth [of mx a b])
qed

lemma same_skipNumber: "same mx a b \<Longrightarrow> skipNumber a i mx = skipNumber b i mx"
proof -
  assume s: "same mx a b"
  have d: "skipDigits a k mx out = skipDigits b k mx out" for k out using s by (simp add: skipDigits_def same_digits [OF s])
  have "skipInteger a i mx = skipInteger b i mx" by (simp add: skipInteger_def d Let_def same_nth [OF s] cong: conj_cong if_cong)
  moreover have "skipDecimals a k mx = skipDecimals b k mx" for k by (simp add: skipDecimals_def d same_nth [OF s] cong: conj_cong)
  moreover have "skipExponent a k mx = skipExponent b k mx" for k
    by (simp add: skipExponent_def d Let_def same_nth [OF s] cong: conj_cong if_cong)
  ultimately show ?thesis by (simp add: skipNumber_def split: option.split)
qed

lemma same_skipString: "same mx a b \<Longrightarrow> skipString a i mx = skipString b i mx"
  by (simp add: skipString_def same_stringChars [of mx a b] same_nth [of mx a b] cong: conj_cong)

lemma same_skipAnyScalar: "same mx a b \<Longrightarrow> skipAnyScalar a i mx = skipAnyScalar b i mx"
  by (simp add: skipAnyScalar_def same_skipString [of mx a b] same_skipAnyLiteral [of mx a b] same_skipNumber [of mx a b])

lemma same_skipSpaceAndComma: "same mx a b \<Longrightarrow> skipSpaceAndComma a i mx = skipSpaceAndComma b i mx"
  by (simp add: skipSpaceAndComma_def same_skipSpace [of mx a b] same_nth [of mx a b] Let_def cong: conj_cong)

lemma same_skipArrayScalars: "same mx a b \<Longrightarrow> skipArrayScalars a i mx = skipArrayScalars b i mx"
proof (induction a i mx rule: skipArrayScalars.induct)
  case (1 a i mx)
  note s = same_skipAnyScalar [OF 1(2)] same_skipSpaceAndComma [OF 1(2)]
  from 1 show ?case unfolding skipArrayScalars.simps [of a i mx] skipArrayScalars.simps [of b i mx] s
    by (auto simp: s split: option.split prod.split)
qed

lemma same_objectScalars: "same mx a b \<Longrightarrow> objectScalars a st i mx = objectScalars b st i mx"
proof (induction a st i mx rule: objectScalars.induct)
  case (1 a st i mx)
  note s = same_skipString [OF 1(2)] same_skipSpace [OF 1(2)] same_nth [OF 1(2)] same_skipAnyScalar [OF 1(2)]
    same_skipSpaceAndComma [OF 1(2)]
  from 1 show ?case unfolding objectScalars.simps [of a st i mx] objectScalars.simps [of b st i mx] Let_def
    by (auto simp: s split: option.split prod.split)
qed

lemma same_skipScalars: "same mx a b \<Longrightarrow> skipScalars a i mx c = skipScalars b i mx c"
  by (simp add: skipScalars_def skipObjectScalars_def same_skipSpace [of mx a b] same_skipArrayScalars [of mx a b]
      same_objectScalars [of mx a b] Let_def)

lemma same_afterClose: "same mx a b \<Longrightarrow> afterClose a i mx c = afterClose b i mx c"
  by (simp add: afterClose_def same_skipSpaceAndComma [of mx a b] same_skipScalars [of mx a b] split: prod.split)

lemma same_collection: "same mx a b \<Longrightarrow> collection a i mx depth stack = collection b i mx depth stack"
proof (induction "mx - i" arbitrary: i depth stack rule: less_induct)
  case less
  note s = same_skipScalars [OF less.prems] same_afterClose [OF less.prems]
  consider "\<not> i < mx" | "i < mx" "isOpenBracket (b i)" "a i = b i" | "i < mx" "isCloseBracket (b i)" "a i = b i"
    | "i < mx" "\<not> isOpenBracket (b i)" "\<not> isCloseBracket (b i)" "a i = b i" using same_nth [OF less.prems] by blast
  then show ?case
  proof cases
    case 2
    have "mx - skipScalars b (Suc i) mx c < mx - i" for c using skipScalars_bounds [of "Suc i" b mx c] 2(1) by linarith
    then show ?thesis using less.hyps [OF _ less.prems] 2 by (simp add: collection_open s)
  next
    case 3
    have "mx - afterClose b (Suc i) mx c < mx - i" for c using afterClose_bounds [of "Suc i" b mx c] 3(1) by linarith
    then show ?thesis using less.hyps [OF _ less.prems] 3 by (simp add: collection_close s)
  qed (simp_all add: collection_end collection_other)
qed

lemma same_skipCollection: "same mx a b \<Longrightarrow> skipCollection a i mx = skipCollection b i mx"
  by (simp add: skipCollection_def same_collection [of mx a b])

lemma same_nextValue: "same mx a b \<Longrightarrow> nextValue a i mx = nextValue b i mx"
  by (simp add: nextValue_def same_skipAnyScalar [of mx a b] same_skipCollection [of mx a b] split: option.split)

lemma same_nextKeyValuePair: "same mx a b \<Longrightarrow> nextKeyValuePair a i mx = nextKeyValuePair b i mx"
  by (auto simp: nextKeyValuePair_def same_skipString [of mx a b] same_skipSpace [of mx a b] same_nextValue [of mx a b]
      same_nth [of mx a b] Let_def split: option.split)

lemma same_objectPairs: "same mx a b \<Longrightarrow> objectPairs a i mx q n = objectPairs b i mx q n"
proof (induction a i mx q n rule: objectPairs.induct)
  case (1 a i mx q n)
  note s = same_nextKeyValuePair [OF 1(2)] same_skipSpaceAndComma [OF 1(2)]
  have "strnEq q (at a key) l = strnEq q (at b key) l" if "nextKeyValuePair b i mx = Some (k, (key, l), v)" for k key l v
    using nextKeyValuePair_bounds [of b i mx k key l "fst v" "snd v"] that same_nth [OF 1(2)] by (auto simp: strnEq_iff at_def)
  with 1 show ?case unfolding objectPairs.simps [of a i mx q n] objectPairs.simps [of b i mx q n] s
    by (auto simp: s split: option.split prod.split)
qed

lemma same_arrayValues: "same mx a b \<Longrightarrow> arrayValues a i mx q c = arrayValues b i mx q c"
proof (induction a i mx q c rule: arrayValues.induct)
  case (1 a i mx q c)
  note s = same_nextValue [OF 1(2)] same_skipSpaceAndComma [OF 1(2)]
  from 1 show ?case unfolding arrayValues.simps [of a i mx q c] arrayValues.simps [of b i mx q c] s
    by (auto simp: s split: option.split prod.split)
qed

lemma same_searchPart: "same mx a b \<Longrightarrow> searchPart a mx q n i = searchPart b mx q n i"
proof -
  assume s: "same mx a b"
  have o: "objectSearch a mx q n = objectSearch b mx q n" for q n
    by (auto simp: objectSearch_def same_objectPairs [OF s] same_skipSpace [OF s] same_nth [OF s] Let_def)
  have r: "arraySearch a mx c = arraySearch b mx c" for c
    by (auto simp: arraySearch_def same_arrayValues [OF s] same_skipSpace [OF s] same_nth [OF s] Let_def)
  show ?thesis unfolding searchPart_def o r ..
qed

lemma same_at: "same mx a b \<Longrightarrow> i + n \<le> mx \<Longrightarrow> same n (at a i) (at b i)"
  by (simp add: same_def at_def)

lemma same_multiSearchFrom:
  "same mx a b \<Longrightarrow> start + len \<le> mx \<Longrightarrow> multiSearchFrom a q n i start len = multiSearchFrom b q n i start len"
proof (induction a q n i start len rule: multiSearchFrom.induct)
  case (1 a q n i start len)
  note s = same_searchPart [OF same_at [OF 1(2,3)]]
  have ih: "multiSearchFrom a q n (if k < n \<and> isSeparator (q k) then Suc k else k) (start + v) l =
      multiSearchFrom b q n (if k < n \<and> isSeparator (q k) then Suc k else k) (start + v) l"
    if "i < n" "searchPart (at b start) len q n i = Inr (k, Some (v, l))" for k v l
  proof (rule 1(1) [OF that(1) _ refl refl refl 1(2)])
    show "searchPart (at a start) len q n i = Inr (k, Some (v, l))" using that(2) by (simp only: s)
    show "start + v + l \<le> mx" using searchPart_ok [OF that(2)] 1(3) by (simp add: value_at_def)
  qed
  consider "\<not> i < n \<or> (\<exists>e. searchPart (at b start) len q n i = Inl e) \<or> (\<exists>k. searchPart (at b start) len q n i = Inr (k, None))"
    | k v l where "i < n" "searchPart (at b start) len q n i = Inr (k, Some (v, l))"
    by (metis obj_sumE option.exhaust surj_pair)
  then show ?case unfolding multiSearchFrom.simps [of a q n i start len] multiSearchFrom.simps [of b q n i start len] s
    by cases (auto simp only: ih sum.case option.case prod.case split: if_split)
qed

text \<open>
  C13. No result depends on what lies behind the end of the buffer: two buffers that agree on their
  first \<open>mx\<close> characters are both valid or both not, and a search finds the same in both. The sizes
  are those of the type \<^verbatim>\<open>size_t\<close>.
\<close>

theorem JSON_no_overread:
  assumes "\<forall>k < mx. a k = b k" "mx \<le> SIZE_MAX"
  shows "JSON_Validate (Some a) mx = JSON_Validate (Some b) mx \<and>
    JSON_SearchConst (Some a) mx q n ok = JSON_SearchConst (Some b) mx q n ok"
proof
  have s: "same mx a b" using assms by (simp add: same_def)
  show "JSON_Validate (Some a) mx = JSON_Validate (Some b) mx"
    unfolding JSON_Validate_def option.case same_skipSpace [OF s] same_skipAnyScalar [OF s] same_skipCollection [OF s] ..
  show "JSON_SearchConst (Some a) mx q n ok = JSON_SearchConst (Some b) mx q n ok"
  proof (cases q)
    case (Some query)
    have m: "multiSearch a mx query n = multiSearch b mx query n"
      using same_multiSearchFrom [OF s, of 0 mx] by (simp add: multiSearch_def)
    have "a v = b v" if "multiSearch b mx query n = Inr (v, l)" "n \<noteq> 0" for v l
      using multiSearchFrom_ok [of b query n 0 0 mx v l mx] that same_nth [OF s, of v]
      by (simp add: multiSearch_def value_at_def)
    then show ?thesis unfolding JSON_SearchConst_def Some by (simp add: m split: sum.split)
  qed (simp add: JSON_SearchConst_def)
qed

theorem JSON_no_overread_witness:
  "JSON_Validate (Some (chars ''[1]garbage'')) 3 = JSON_Validate (Some (chars ''[1]'')) 3"
proof -
  have "\<forall>k < (3 :: nat). chars ''[1]garbage'' k = chars ''[1]'' k" by (simp add: all_less_num chars_def numeral_2_eq_2)
  from JSON_no_overread [OF this] show ?thesis by (simp add: SIZE_MAX_def)
qed

end
