(* ===== verification/JsonValid.thy ===== *)
theory JsonValid
  imports JsonGrammar
begin

text \<open>
  The validator and the search of \<^verbatim>\<open>core_json.c\<close> on JSON documents: every document of the grammar
  nested at most 32 deep is accepted, and the search for a key finds the value of the first
  member with that key. At the end, documents outside the grammar that are accepted as well.
\<close>

section \<open>The stack of open brackets as a list\<close>

abbreviation NUL :: char where "NUL \<equiv> CHR 0x00"

definition agree :: "int \<Rightarrow> char list \<Rightarrow> char list \<Rightarrow> bool" where
  "agree depth a b \<longleftrightarrow> length a = 32 \<and> length b = 32 \<and> -1 \<le> depth \<and> depth < 32 \<and>
     (\<forall>k :: nat. int k \<le> depth \<longrightarrow> a ! k = b ! k)"

lemma agree_nth: "agree depth a b \<Longrightarrow> 0 \<le> k \<Longrightarrow> k \<le> depth \<Longrightarrow> a ! nat k = b ! nat k"
  by (simp add: agree_def)

lemma agree_push: "agree depth a b \<Longrightarrow> depth + 1 \<noteq> 32 \<Longrightarrow> agree (depth + 1) (push a depth c) (push b depth c)"
  by (auto simp: agree_def push_def nth_list_update)

lemma agree_pop: "agree depth a b \<Longrightarrow> 0 \<le> depth \<Longrightarrow> agree (depth - 1) a b"
  by (simp add: agree_def)

text \<open>The entries of the array above the depth are never read.\<close>

lemma collection_agree:
  "agree depth a b \<Longrightarrow> collection buf i mx depth a = collection buf i mx depth b"
proof (induction "mx - i" arbitrary: i depth a b rule: less_induct)
  case less
  consider "\<not> i < mx" | "i < mx" "isOpenBracket (buf i)" | "i < mx" "isCloseBracket (buf i)"
    | "i < mx" "\<not> isOpenBracket (buf i)" "\<not> isCloseBracket (buf i)" by blast
  then show ?case
  proof cases
    case 2
    have top: "push a depth (buf i) ! nat (depth + 1) = push b depth (buf i) ! nat (depth + 1)" (is "?ta = ?tb")
      if "depth + 1 \<noteq> 32"
      using agree_nth [OF agree_push [OF less.prems that]] less.prems by (simp add: agree_def)
    have "mx - skipScalars buf (Suc i) mx ?tb < mx - i"
      using skipScalars_bounds [of "Suc i" buf mx ?tb] 2(1) by linarith
    then show ?thesis using less.hyps agree_push [OF less.prems] 2 top
      by (simp add: collection_open JSON_MAX_DEPTH_def)
  next
    case 3
    let ?j = "afterClose buf (Suc i) mx (b ! nat (depth - 1))"
    have "mx - ?j < mx - i" using afterClose_bounds [of "Suc i" buf mx] 3(1) by (meson Suc_le_lessD diff_less_mono2 le_less_trans)
    moreover have "a ! nat depth = b ! nat depth \<and> a ! nat (depth - 1) = b ! nat (depth - 1)" if "depth > 0"
      using that agree_nth [OF less.prems] by simp
    moreover have "agree (depth - 1) a b" if "depth > 0" using that agree_pop [OF less.prems] by simp
    ultimately show ?thesis using less.hyps 3 by (cases "depth > 0") (simp_all add: collection_close)
  qed (simp_all add: collection_end collection_other)
qed

text \<open>The loop with the open brackets as a list.\<close>

definition coll :: "buffer \<Rightarrow> nat \<Rightarrow> nat \<Rightarrow> string \<Rightarrow> JSONStatus_t \<times> nat" where
  "coll buf i mx st = collection buf i mx (int (length st) - 1) (st @ replicate (32 - length st) NUL)"

lemma coll_open:
  assumes "i < mx" "isOpenBracket (buf i)" "length st < 32"
  shows "coll buf i mx st = coll buf (skipScalars buf (Suc i) mx (buf i)) mx (st @ [buf i])"
proof -
  let ?a = "push (st @ replicate (32 - length st) NUL) (int (length st) - 1) (buf i)"
  have "?a = (st @ [buf i]) @ replicate (32 - length (st @ [buf i])) NUL"
    using assms(3) by (cases "32 - length st") (auto simp: push_def list_update_append)
  with assms show ?thesis by (simp add: coll_def collection_open JSON_MAX_DEPTH_def nth_append)
qed

lemma coll_too_deep:
  "i < mx \<Longrightarrow> isOpenBracket (buf i) \<Longrightarrow> length st = 32 \<Longrightarrow> coll buf i mx st = (JSONMaxDepthExceeded, Suc i)"
  by (simp add: coll_def collection_open JSON_MAX_DEPTH_def)

text \<open>What happens when the bracket that opened above the brackets \<open>st\<close> is closed before \<open>j\<close>.\<close>

definition closed :: "buffer \<Rightarrow> nat \<Rightarrow> nat \<Rightarrow> string \<Rightarrow> JSONStatus_t \<times> nat" where
  "closed buf j mx st = (if st = [] then (JSONSuccess, j) else coll buf (afterClose buf j mx (last st)) mx st)"

lemma coll_close:
  assumes "j < mx" "isMatchingBracket c (buf j)" "length st < 32"
  shows "coll buf j mx (st @ [c]) = closed buf (Suc j) mx st"
proof (cases st rule: rev_cases)
  case Nil
  with assms show ?thesis
    by (auto simp: coll_def closed_def collection_close isMatchingBracket_def isCloseBracket_def)
next
  case (snoc st' b)
  let ?d = "int (length st)" and ?a = "st @ c # replicate (31 - length st) NUL"
  have c: "isCloseBracket (buf j)" using assms(2) by (auto simp: isMatchingBracket_def isCloseBracket_def)
  have "?a ! nat ?d = c" "?a ! nat (?d - 1) = b" "0 < ?d" using snoc by (auto simp: nth_append nat_diff_distrib)
  then have "coll buf j mx (st @ [c]) = collection buf (afterClose buf (Suc j) mx b) mx (?d - 1) ?a"
    using collection_close [of j mx buf ?d ?a, OF assms(1) c] assms(2) by (simp add: coll_def)
  also have "\<dots> = collection buf (afterClose buf (Suc j) mx b) mx (?d - 1) (st @ replicate (32 - length st) NUL)"
    using assms(3) snoc by (intro collection_agree) (auto simp: agree_def nth_append)
  finally show ?thesis using snoc by (simp add: closed_def coll_def)
qed

lemma skipCollection_coll:
  "skipCollection buf i mx = (let (ret, k) = coll buf i mx [] in (ret, if ret = JSONSuccess then k else i))"
  by (simp add: skipCollection_def coll_def JSON_MAX_DEPTH_def)

section \<open>Documents of the grammar are accepted\<close>

definition starts :: "char \<Rightarrow> bool" where
  "starts c \<longleftrightarrow> \<not> isspace c \<and> \<not> isCloseBracket c"

lemma jstring_first: "jstring k s \<Longrightarrow> holds buf i s \<Longrightarrow> buf i = CHR 0x22"
  by (auto simp: jstring_def)

lemma starts_open: "isOpenBracket c \<Longrightarrow> starts c" "starts CHR 0x22"
  by (auto simp: starts_def isOpenBracket_def isspace_def isCloseBracket_def)

lemma jscalar_first: "jscalar s \<Longrightarrow> holds buf i s \<Longrightarrow> starts (buf i)"
  using jstring_first [of _ s buf i] jnumber_first [of s buf i]
  by (auto simp: jscalar_def starts_def isspace_def isCloseBracket_def isdigit_def)

lemma jvalue_first: "jvalue d v \<Longrightarrow> holds buf i v \<Longrightarrow> starts (buf i)"
  and jelems_first: "jelems d es \<Longrightarrow> holds buf i es \<Longrightarrow> starts (buf i)"
  and jmembers_first: "jmembers d kvs ms \<Longrightarrow> holds buf i ms \<Longrightarrow> starts (buf i)"
proof (induction arbitrary: i and i and i rule: jvalue_jelems_jmembers.inducts)
  case (scalar s d)
  then show ?case by (rule jscalar_first)
next
  case (mem k ks w1 w2 d v w3)
  then show ?case using jstring_first [of k ks buf i] by (simp add: starts_open)
next
  case (mems k ks w1 w2 d v w3 w4 kvs ms)
  then show ?case using jstring_first [of k ks buf i] by (simp add: starts_open)
qed (auto simp: starts_def isspace_def isCloseBracket_def)

definition valEnd :: "buffer \<Rightarrow> nat \<Rightarrow> nat \<Rightarrow> bool" where
  "valEnd buf i mx \<longleftrightarrow> i = mx \<or> isspace (buf i) \<or> buf i = CHR '','' \<or> isCloseBracket (buf i)"

lemma valEnd_numEnd: "valEnd buf i mx \<Longrightarrow> numEnd buf i mx"
  by (auto simp: valEnd_def numEnd_def isspace_def isCloseBracket_def isdigit_def)

lemma skipSpace_stay: "\<not> isspace (buf i) \<Longrightarrow> skipSpace buf i mx = i"
  by (subst skipSpace.simps) simp

lemma skipSpaceAndComma_comma:
  assumes "holds buf i (w @ '','' @ w')" "jws w" "jws w'" "p = i + length w + Suc (length w')" "p < mx" "starts (buf p)"
  shows "skipSpaceAndComma buf i mx = (True, p)"
proof -
  have "skipSpace buf i mx = i + length w"
    using assms by (intro skipSpace_exact) (auto simp: isspace_def)
  moreover have "skipSpace buf (Suc (i + length w)) mx = p"
    using assms skipSpace_exact [of buf "Suc (i + length w)" w' mx] by (auto simp: starts_def)
  ultimately show ?thesis using assms by (simp add: skipSpaceAndComma_def starts_def)
qed

lemma skipSpaceAndComma_close:
  assumes "holds buf i w" "jws w" "p = i + length w" "p < mx" "isCloseBracket (buf p)"
  shows "skipSpaceAndComma buf i mx = (False, p)"
proof -
  have "skipSpace buf i mx = p"
    using assms skipSpace_exact [of buf i w mx] by (auto simp: isspace_def isCloseBracket_def)
  then show ?thesis using assms by (auto simp: skipSpaceAndComma_def isCloseBracket_def)
qed

lemma skipAnyScalar_none: "isOpenBracket (buf i) \<or> isCloseBracket (buf i) \<Longrightarrow> skipAnyScalar buf i mx = None"
  using skipString_first [of buf i mx] skipAnyLiteral_first [of buf i mx] skipNumber_first [of buf i mx]
  by (auto simp: skipAnyScalar_def orelse_def isOpenBracket_def isCloseBracket_def isdigit_def)

text \<open>Behind a value comes the next one, or the closing bracket.\<close>

lemma valEnd_ws: "holds buf i w \<Longrightarrow> jws w \<Longrightarrow> buf (i + length w) = CHR '','' \<or> isCloseBracket (buf (i + length w)) \<Longrightarrow> valEnd buf i mx"
  by (cases w) (auto simp: valEnd_def jws_def)

lemma skipScalars_at:
  "starts (buf p) \<Longrightarrow> skipScalars buf p mx c =
    (if c = CHR ''['' then skipArrayScalars buf p mx else objectScalars buf p p mx)"
  by (simp add: skipScalars_def skipSpace_stay starts_def skipObjectScalars_def)

subsection \<open>One value inside a collection\<close>

definition consumed :: "buffer \<Rightarrow> nat \<Rightarrow> nat \<Rightarrow> string \<Rightarrow> bool" where
  "consumed buf mx d v \<longleftrightarrow> jscalar v \<or>
     (\<forall>i st. holds buf i v \<longrightarrow> i + length v \<le> mx \<longrightarrow> length st + d \<le> 32 \<longrightarrow>
        i < mx \<and> isOpenBracket (buf i) \<and> coll buf i mx st = closed buf (i + length v) mx st)"

lemma consumedI:
  "(\<And>i st. holds buf i v \<Longrightarrow> i + length v \<le> mx \<Longrightarrow> length st + d \<le> 32 \<Longrightarrow>
     i < mx \<and> isOpenBracket (buf i) \<and> coll buf i mx st = closed buf (i + length v) mx st) \<Longrightarrow> consumed buf mx d v"
  by (simp add: consumed_def)

lemma consumedD:
  "consumed buf mx d v \<Longrightarrow> \<not> jscalar v \<Longrightarrow> holds buf i v \<Longrightarrow> i + length v \<le> mx \<Longrightarrow> length st + d \<le> 32 \<Longrightarrow>
    isOpenBracket (buf i) \<and> coll buf i mx st = closed buf (i + length v) mx st"
  by (simp add: consumed_def)

lemma comma_starts: "skipSpaceAndComma buf j mx = (True, k) \<Longrightarrow> k < mx \<and> starts (buf k)"
proof -
  have stop: "skipSpace buf i mx < mx \<Longrightarrow> \<not> isspace (buf (skipSpace buf i mx))" for i
  proof (induction buf i mx rule: skipSpace.induct)
    case (1 buf i mx)
    then show ?case by (subst skipSpace.simps, subst (asm) (3) skipSpace.simps) (auto split: if_splits)
  qed
  assume "skipSpaceAndComma buf j mx = (True, k)"
  then show ?thesis using stop by (auto simp: skipSpaceAndComma_def Let_def starts_def split: if_splits)
qed

lemma afterClose_array:
  "afterClose buf j mx CHR ''['' =
    (let (comma, i) = skipSpaceAndComma buf j mx in if comma then skipArrayScalars buf i mx else i)"
  by (auto simp: afterClose_def skipScalars_at comma_starts split: prod.splits)

lemma afterClose_object:
  "afterClose buf j mx CHR ''{'' =
    (let (comma, i) = skipSpaceAndComma buf j mx in if comma then objectScalars buf i i mx else i)"
  by (auto simp: afterClose_def skipScalars_at comma_starts split: prod.splits)

lemma array_value:
  assumes "consumed buf mx d v" "holds buf i v" "j = i + length v" "i < mx" "j \<le> mx" "valEnd buf j mx" "mx \<le> SIZE_MAX"
    "length st + d < 32"
  shows "coll buf (skipArrayScalars buf i mx) mx (st @ ''['') = coll buf (afterClose buf j mx CHR ''['') mx (st @ ''['')"
proof (cases "jscalar v")
  case True
  then have "skipAnyScalar buf i mx = Some j"
    using skipAnyScalar_exact [of buf i v mx] valEnd_numEnd assms by simp
  then have "skipArrayScalars buf i mx = afterClose buf j mx CHR ''[''"
    using assms(4) by (subst skipArrayScalars.simps) (simp add: afterClose_array)
  then show ?thesis by simp
next
  case False
  with assms have "isOpenBracket (buf i)" "coll buf i mx (st @ ''['') = closed buf j mx (st @ ''['')"
    using consumedD [OF assms(1) False assms(2), of "st @ ''[''"] by auto
  moreover from this have "skipArrayScalars buf i mx = i"
    by (subst skipArrayScalars.simps) (simp add: skipAnyScalar_none)
  ultimately show ?thesis by (simp add: closed_def)
qed

lemma skipString_exact:
  "jstring k s \<Longrightarrow> holds buf i s \<Longrightarrow> i + length s \<le> mx \<Longrightarrow> mx \<le> SIZE_MAX \<Longrightarrow> skipString buf i mx = Some (i + length s)"
  using stringChars_exact [of k buf "Suc i" mx] by (auto simp: jstring_def skipString_def)

lemma object_value:
  assumes v: "consumed buf mx d v" "jvalue d v" and h: "holds buf i (ks @ w1 @ '':'' @ w2 @ v)"
    and k: "jstring k ks" "jws w1" "jws w2"
    and j: "j = i + length (ks @ w1 @ '':'' @ w2 @ v)" "j \<le> mx" "valEnd buf j mx" "mx \<le> SIZE_MAX" "length st + d < 32"
    and v0: "v \<noteq> []"
  shows "coll buf (objectScalars buf i i mx) mx (st @ ''{'') = coll buf (afterClose buf j mx CHR ''{'') mx (st @ ''{'')"
proof -
  let ?c = "i + length ks + length w1" and ?p = "i + length ks + length w1 + Suc (length w2)"
  have "?p < j" using j(1) v0 by simp
  then have p: "?p < mx" "?c < mx" "i < mx" using j(2) by linarith+
  have s1: "skipString buf i mx = Some (i + length ks)" using skipString_exact [OF k(1)] h j by simp
  have s2: "skipSpace buf (i + length ks) mx = ?c" using skipSpace_exact [of buf "i + length ks" w1 mx] h k p by (simp add: isspace_def)
  have st: "starts (buf ?p)" using jvalue_first [OF v(2), of buf ?p] h by simp
  then have s3: "skipSpace buf (Suc ?c) mx = ?p"
    using skipSpace_exact [of buf "Suc ?c" w2 mx] h k p j by (simp add: starts_def)
  have obj: "objectScalars buf i i mx =
    (if isOpenBracket (buf ?p) then ?p
     else case skipAnyScalar buf ?p mx of
       None \<Rightarrow> i
     | Some i \<Rightarrow> let (comma, i) = skipSpaceAndComma buf i mx in if comma then objectScalars buf i i mx else i)"
    using h p j by (subst objectScalars.simps) (simp add: s1 s2 s3 Let_def)
  show ?thesis
  proof (cases "jscalar v")
    case True
    then have sk: "skipAnyScalar buf ?p mx = Some j"
      using skipAnyScalar_exact [of buf ?p v mx] valEnd_numEnd [of buf j mx] h j by (simp add: add.assoc)
    then have "\<not> isOpenBracket (buf ?p)" using skipAnyScalar_none [of buf ?p mx] by auto
    then show ?thesis using obj sk by (simp add: afterClose_object)
  next
    case False
    have "isOpenBracket (buf ?p)" "coll buf ?p mx (st @ ''{'') = closed buf j mx (st @ ''{'')"
      using consumedD [OF v(1) False, of ?p "st @ ''{''"] h j by (simp_all add: add.assoc)
    then show ?thesis using obj by (simp add: closed_def)
  qed
qed

lemma jscalar_nonempty: "jscalar s \<Longrightarrow> s \<noteq> []"
  by (auto simp: jscalar_def jstring_def jnumber_def jint_def jdigits_def)

lemma nonempty: "jvalue d v \<Longrightarrow> v \<noteq> []" "jelems d es \<Longrightarrow> es \<noteq> []" "jmembers d kvs ms \<Longrightarrow> ms \<noteq> []"
  by (induction rule: jvalue_jelems_jmembers.inducts) (auto simp: jscalar_nonempty)

lemma isMatching_simps [simp]:
  "isMatchingBracket CHR ''['' CHR '']''" "isMatchingBracket CHR ''{'' CHR ''}''"
  "isOpenBracket CHR ''[''" "isOpenBracket CHR ''{''" "isCloseBracket CHR '']''" "isCloseBracket CHR ''}''"
  "\<not> isCloseBracket CHR '',''"
  by (simp_all add: isMatchingBracket_def isOpenBracket_def isCloseBracket_def)

text \<open>An open bracket, white space and whatever the scalars of the collection make of the rest.\<close>

lemma coll_begin:
  assumes "holds buf i (c # w)" "isOpenBracket c" "jws w" "p = Suc i + length w" "p < mx" "\<not> isspace (buf p)" "length st < 32"
  shows "coll buf i mx st =
    coll buf (if c = CHR ''['' then skipArrayScalars buf p mx else objectScalars buf p p mx) mx (st @ [c])"
proof -
  have "skipSpace buf (Suc i) mx = p" using skipSpace_exact [of buf "Suc i" w mx] assms by auto
  then show ?thesis using assms by (simp add: coll_open skipScalars_def skipObjectScalars_def)
qed

lemma scalars_empty: "isCloseBracket (buf p) \<Longrightarrow> skipArrayScalars buf p mx = p \<and> objectScalars buf p p mx = p"
  by (subst skipArrayScalars.simps, subst objectScalars.simps)
    (auto simp: skipAnyScalar_none skipString_first isCloseBracket_def)

subsection \<open>The grammar\<close>

lemma grammar_consumed:
  assumes size: "mx \<le> SIZE_MAX"
  shows "jvalue d v \<Longrightarrow> consumed buf mx d v"
    and "jelems d es \<Longrightarrow> holds buf i (es @ '']'') \<Longrightarrow> i + length es < mx \<Longrightarrow> length st + d < 32 \<Longrightarrow>
      coll buf (skipArrayScalars buf i mx) mx (st @ ''['') = closed buf (Suc (i + length es)) mx st"
    and "jmembers d kvs ms \<Longrightarrow> holds buf i (ms @ ''}'') \<Longrightarrow> i + length ms < mx \<Longrightarrow> length st + d < 32 \<Longrightarrow>
      coll buf (objectScalars buf i i mx) mx (st @ ''{'') = closed buf (Suc (i + length ms)) mx st"
proof (induction arbitrary: and i st and i st rule: jvalue_jelems_jmembers.inducts)
  case (scalar s d)
  then show ?case by (simp add: consumed_def)
next
  case (arr0 w d)
  show ?case
  proof (rule consumedI)
    fix i and st :: string
    assume h: "holds buf i (''['' @ w @ '']'')" "i + length (''['' @ w @ '']'') \<le> mx" "length st + Suc d \<le> 32"
    let ?p = "Suc i + length w"
    have "coll buf i mx st = coll buf ?p mx (st @ ''['')"
      using coll_begin [of buf i "CHR ''[''" w ?p mx st] h arr0 scalars_empty [of buf ?p mx] by (simp add: isspace_def)
    also have "\<dots> = closed buf (Suc ?p) mx st" by (rule coll_close) (use h in simp_all)
    finally show "i < mx \<and> isOpenBracket (buf i) \<and> coll buf i mx st = closed buf (i + length (''['' @ w @ '']'')) mx st"
      using h by simp
  qed
next
  case (arr w d es)
  show ?case
  proof (rule consumedI)
    fix i and st :: string
    assume h: "holds buf i (''['' @ w @ es @ '']'')" "i + length (''['' @ w @ es @ '']'') \<le> mx" "length st + Suc d \<le> 32"
    let ?p = "Suc i + length w"
    have "starts (buf ?p)" using jelems_first [OF arr(2)] h(1) by simp
    then have "coll buf i mx st = coll buf (skipArrayScalars buf ?p mx) mx (st @ ''['')"
      using coll_begin [of buf i "CHR ''[''" w ?p mx st] h arr(1) by (simp add: starts_def)
    also have "\<dots> = closed buf (Suc (?p + length es)) mx st" by (rule arr.IH) (use h in simp_all)
    finally show "i < mx \<and> isOpenBracket (buf i) \<and> coll buf i mx st = closed buf (i + length (''['' @ w @ es @ '']'')) mx st"
      using h by (simp add: add.assoc)
  qed
next
  case (obj0 w d)
  show ?case
  proof (rule consumedI)
    fix i and st :: string
    assume h: "holds buf i (''{'' @ w @ ''}'')" "i + length (''{'' @ w @ ''}'') \<le> mx" "length st + Suc d \<le> 32"
    let ?p = "Suc i + length w"
    have "coll buf i mx st = coll buf ?p mx (st @ ''{'')"
      using coll_begin [of buf i "CHR ''{''" w ?p mx st] h obj0 scalars_empty [of buf ?p mx] by (simp add: isspace_def)
    also have "\<dots> = closed buf (Suc ?p) mx st" by (rule coll_close) (use h in simp_all)
    finally show "i < mx \<and> isOpenBracket (buf i) \<and> coll buf i mx st = closed buf (i + length (''{'' @ w @ ''}'')) mx st"
      using h by simp
  qed
next
  case (obj w d kvs ms)
  show ?case
  proof (rule consumedI)
    fix i and st :: string
    assume h: "holds buf i (''{'' @ w @ ms @ ''}'')" "i + length (''{'' @ w @ ms @ ''}'') \<le> mx" "length st + Suc d \<le> 32"
    let ?p = "Suc i + length w"
    have "starts (buf ?p)" using jmembers_first [OF obj(2)] h(1) by simp
    then have "coll buf i mx st = coll buf (objectScalars buf ?p ?p mx) mx (st @ ''{'')"
      using coll_begin [of buf i "CHR ''{''" w ?p mx st] h obj(1) by (simp add: starts_def)
    also have "\<dots> = closed buf (Suc (?p + length ms)) mx st" by (rule obj.IH) (use h in simp_all)
    finally show "i < mx \<and> isOpenBracket (buf i) \<and> coll buf i mx st = closed buf (i + length (''{'' @ w @ ms @ ''}'')) mx st"
      using h by (simp add: add.assoc)
  qed
next
  case (one d v w)
  let ?j = "i + length v"
  have e: "valEnd buf ?j mx" using valEnd_ws [of buf ?j w mx] one by simp
  have "coll buf (skipArrayScalars buf i mx) mx (st @ ''['') = coll buf (afterClose buf ?j mx CHR ''['') mx (st @ ''['')"
    by (rule array_value [OF one.IH _ refl _ _ e size]) (use one.prems in simp_all)
  also have "afterClose buf ?j mx CHR ''['' = ?j + length w"
    using skipSpaceAndComma_close [of buf ?j w "?j + length w" mx] one by (simp add: afterClose_array)
  also have "coll buf (?j + length w) mx (st @ ''['') = closed buf (Suc (?j + length w)) mx st"
    by (rule coll_close) (use one.prems in simp_all)
  finally show ?case by (simp add: add.assoc)
next
  case (more d v w w' es)
  let ?j = "i + length v" and ?p = "i + length v + length w + Suc (length w')"
  have e: "valEnd buf ?j mx" using valEnd_ws [of buf ?j w mx] more by simp
  have s: "starts (buf ?p)" using jelems_first [OF more(4)] more.prems by simp
  have "coll buf (skipArrayScalars buf i mx) mx (st @ ''['') = coll buf (afterClose buf ?j mx CHR ''['') mx (st @ ''['')"
    by (rule array_value [OF more.IH(1) _ refl _ _ e size]) (use more.prems in simp_all)
  also have "afterClose buf ?j mx CHR ''['' = skipArrayScalars buf ?p mx"
    using skipSpaceAndComma_comma [of buf ?j w w' ?p mx] more s by (simp add: afterClose_array)
  also have "coll buf (skipArrayScalars buf ?p mx) mx (st @ ''['') = closed buf (Suc (?p + length es)) mx st"
    by (rule more.IH(2)) (use more.prems in simp_all)
  finally show ?case by (simp add: add.assoc)
next
  case (mem k ks w1 w2 d v w3)
  let ?t = "ks @ w1 @ '':'' @ w2 @ v" and ?j = "i + length (ks @ w1 @ '':'' @ w2 @ v)"
  have e: "valEnd buf ?j mx" using valEnd_ws [of buf ?j w3 mx] mem by (simp add: add.assoc)
  have "coll buf (objectScalars buf i i mx) mx (st @ ''{'') = coll buf (afterClose buf ?j mx CHR ''{'') mx (st @ ''{'')"
    by (rule object_value [OF mem.IH mem(4) _ mem(1,2,3) refl _ e size _ nonempty(1) [OF mem(4)]]) (use mem.prems in simp_all)
  also have "afterClose buf ?j mx CHR ''{'' = ?j + length w3"
    using skipSpaceAndComma_close [of buf ?j w3 "?j + length w3" mx] mem by (simp add: afterClose_object add.assoc)
  also have "coll buf (?j + length w3) mx (st @ ''{'') = closed buf (Suc (?j + length w3)) mx st"
    by (rule coll_close) (use mem.prems in \<open>simp_all add: add.assoc\<close>)
  finally show ?case by (simp add: add.assoc)
next
  case (mems k ks w1 w2 d v w3 w4 kvs ms)
  let ?j = "i + length (ks @ w1 @ '':'' @ w2 @ v)" and ?p = "i + length (ks @ w1 @ '':'' @ w2 @ v) + length w3 + Suc (length w4)"
  have e: "valEnd buf ?j mx" using valEnd_ws [of buf ?j w3 mx] mems by (simp add: add.assoc)
  have s: "starts (buf ?p)" using jmembers_first [OF mems(7), of buf ?p] mems.prems by (simp add: add.assoc)
  have "coll buf (objectScalars buf i i mx) mx (st @ ''{'') = coll buf (afterClose buf ?j mx CHR ''{'') mx (st @ ''{'')"
    by (rule object_value [OF mems.IH(1) mems(4) _ mems(1,2,3) refl _ e size _ nonempty(1) [OF mems(4)]]) (use mems.prems in simp_all)
  also have "afterClose buf ?j mx CHR ''{'' = objectScalars buf ?p ?p mx"
    using skipSpaceAndComma_comma [of buf ?j w3 w4 ?p mx] mems s by (simp add: afterClose_object add.assoc)
  also have "coll buf (objectScalars buf ?p ?p mx) mx (st @ ''{'') = closed buf (Suc (?p + length ms)) mx st"
    by (rule mems.IH(2)) (use mems.prems in \<open>simp_all add: add.assoc\<close>)
  finally show ?case by (simp add: add.assoc)
qed

lemma jvalue_start:
  assumes "jvalue d v" "d \<le> 32" "holds buf i v" "j = i + length v" "j \<le> mx" "valEnd buf j mx" "mx \<le> SIZE_MAX"
  shows "skipAnyScalar buf i mx = Some j \<or> skipAnyScalar buf i mx = None \<and> skipCollection buf i mx = (JSONSuccess, j)"
proof (cases "jscalar v")
  case True
  then show ?thesis using skipAnyScalar_exact [of buf i v mx] valEnd_numEnd [of buf j mx] assms by simp
next
  case False
  have "isOpenBracket (buf i) \<and> coll buf i mx [] = closed buf j mx []"
    using consumedD [OF grammar_consumed(1) [OF assms(7,1)] False assms(3), of "[]"] assms by simp
  then show ?thesis by (simp add: skipAnyScalar_none skipCollection_coll closed_def)
qed

lemma JSON_Validate_grammar:
  assumes "jvalue 32 v" "jws w" "jws w'" "holds buf 0 (w @ v @ w')" "mx = length (w @ v @ w')" "mx \<le> SIZE_MAX"
  shows "JSON_Validate (Some buf) mx = JSONSuccess"
proof -
  let ?i = "length w" and ?j = "length w + length v"
  have "starts (buf ?i)" using jvalue_first [OF assms(1)] assms(4) by simp
  then have s: "skipSpace buf 0 mx = ?i"
    using skipSpace_exact [of buf 0 w mx] assms by (simp add: starts_def)
  have e: "valEnd buf ?j mx" using assms(3-5) by (cases w') (auto simp: valEnd_def jws_def)
  have v: "skipAnyScalar buf ?i mx = Some ?j \<or> skipAnyScalar buf ?i mx = None \<and> skipCollection buf ?i mx = (JSONSuccess, ?j)"
    using jvalue_start [OF assms(1) _ _ refl _ e assms(6)] assms(4,5) by simp
  have "skipSpace buf ?j mx = mx" using skipSpace_exact [of buf ?j w' mx] assms by simp
  moreover have "mx \<noteq> 0" using nonempty(1) [OF assms(1)] assms(5) by simp
  ultimately show ?thesis using s v by (auto simp: JSON_Validate_def Let_def)
qed

text \<open>
  C8. Every JSON document nested at most 32 deep is accepted: white space around a value of the
  grammar, with strings in well-formed UTF-8.
\<close>

theorem JSON_Validate_complete:
  assumes "jvalue 32 v" "jws w" "jws w'" "s = w @ v @ w'" "length s \<le> SIZE_MAX"
  shows "JSON_Validate (Some (chars s)) (length s) = JSONSuccess"
  using JSON_Validate_grammar [OF assms(1-3), of "chars s" "length s"] assms(4,5) holds_chars [of s] by simp

theorem JSON_Validate_complete_witness:
  "JSON_Validate (Some (chars '' [true, {}] '')) (length '' [true, {}] '') = JSONSuccess"
proof -
  have t: "jvalue 31 ''true''" by (rule scalar) (simp add: jscalar_def)
  have "jvalue (Suc 30) (''{'' @ [] @ ''}'')" by (rule obj0) (simp add: jws_def)
  then have o: "jvalue 31 ''{}''" by (simp add: numeral_eq_Suc)
  have "jelems 31 (''{}'' @ [])" by (rule one [OF o]) (simp add: jws_def)
  then have "jelems 31 (''true'' @ [] @ '','' @ '' '' @ ''{}'')"
    by (intro more [OF t]) (simp_all add: jws_def isspace_def)
  then have "jvalue (Suc 31) (''['' @ [] @ ''true, {}'' @ '']'')" by (intro arr) (simp_all add: jws_def)
  then have "jvalue 32 ''[true, {}]''" by (simp add: numeral_eq_Suc)
  from JSON_Validate_complete [OF this, of "'' ''" "'' ''" "'' [true, {}] ''"] show ?thesis
    by (simp add: jws_def isspace_def SIZE_MAX_def)
qed

section \<open>The search finds the first member with the key\<close>

lemma nextValue_exact:
  assumes "jvalue d v" "d \<le> 32" "holds buf i v" "i + length v \<le> mx" "valEnd buf (i + length v) mx" "mx \<le> SIZE_MAX"
  shows "nextValue buf i mx = Some (i + length v, i, length v)"
  using jvalue_start [OF assms(1-3) refl assms(4-6)] by (auto simp: nextValue_def)

lemma nextKeyValuePair_exact:
  assumes "jvalue d v" "d \<le> 32" "jstring k ks" "jws w1" "jws w2" "holds buf i (ks @ w1 @ '':'' @ w2 @ v)"
    "p = i + length ks + length w1 + Suc (length w2)" "p + length v \<le> mx" "valEnd buf (p + length v) mx" "mx \<le> SIZE_MAX"
  shows "nextKeyValuePair buf i mx = Some (p + length v, (Suc i, length k), (p, length v))"
proof -
  let ?c = "i + length ks + length w1"
  have p: "?c < mx" "p < mx" using assms(7,8) nonempty(1) [OF assms(1)] by (cases v; simp)+
  have "skipString buf i mx = Some (i + length ks)" using skipString_exact [OF assms(3)] assms(6,7,8,10) by simp
  moreover have "skipSpace buf (i + length ks) mx = ?c"
    using skipSpace_exact [of buf "i + length ks" w1 mx] assms p by (simp add: isspace_def)
  moreover have "starts (buf p)" using jvalue_first [OF assms(1), of buf p] assms(6,7) by simp
  then have "skipSpace buf (Suc ?c) mx = p"
    using skipSpace_exact [of buf "Suc ?c" w2 mx] assms p by (simp add: starts_def)
  moreover have "nextValue buf p mx = Some (p + length v, p, length v)"
    using nextValue_exact [OF assms(1,2) _ assms(8,9,10)] assms(6,7) by simp
  moreover have "length ks = length k + 2" using assms(3) by (simp add: jstring_def)
  ultimately show ?thesis using assms(6) p by (simp add: nextKeyValuePair_def)
qed

inductive_cases jmembers_NilE: "jmembers d [] ms"
inductive_cases jmembers_ConsE: "jmembers d ((k, v) # kvs) ms"

lemma key_eq:
  assumes "holds query 0 q" "holds buf i k"
  shows "length q = length k \<and> strnEq query (at buf i) (length k) \<longleftrightarrow> q = k"
  using assms by (auto simp: strnEq_iff at_def holds_def list_eq_iff_nth_eq)

lemma objectPairs_exact:
  assumes "jmembers d kvs ms" "d \<le> 32" "holds buf i (ms @ ''}'')" "i + length ms < mx" "mx \<le> SIZE_MAX" "holds query 0 q"
  shows "case map_of kvs q of
      None \<Rightarrow> objectPairs buf i mx query (length q) = None
    | Some v \<Rightarrow> \<exists>p. objectPairs buf i mx query (length q) = Some (p, length v) \<and> jvalue d v \<and> holds buf p v \<and> p + length v \<le> mx"
  using assms(1,3,4)
proof (induction kvs arbitrary: ms i)
  case Nil
  then show ?case by (auto elim: jmembers_NilE)
next
  case (Cons kv kvs)
  obtain k v where kv: "kv = (k, v)" by (cases kv)
  have i: "i < mx" using Cons.prems(3) by simp
  from Cons.prems(1) [unfolded kv] show ?case
  proof (cases rule: jmembers_ConsE [consumes 1])
    case (1 ks w1 w2 w3)
    let ?p = "i + length ks + length w1 + Suc (length w2)"
    have "nextKeyValuePair buf i mx = Some (?p + length v, (Suc i, length k), (?p, length v))"
      by (rule nextKeyValuePair_exact [OF 1(6) assms(2) 1(3-5) _ refl _ valEnd_ws [of _ _ w3] assms(5)])
        (use 1 Cons.prems in simp_all)
    moreover have "holds buf (Suc i) k" using 1 Cons.prems by (simp add: jstring_def)
    moreover have "skipSpaceAndComma buf (?p + length v) mx = (False, ?p + length v + length w3)"
      by (rule skipSpaceAndComma_close [OF _ 1(7) refl]) (use 1 Cons.prems in simp_all)
    ultimately show ?thesis using 1 Cons.prems i key_eq [OF assms(6), of buf "Suc i" k]
      by (subst (1 2) objectPairs.simps) (auto simp: kv)
  next
    case (2 ks w1 w2 w3 w4 ms')
    let ?p = "i + length ks + length w1 + Suc (length w2)"
    let ?n = "?p + length v + length w3 + Suc (length w4)"
    have nx: "nextKeyValuePair buf i mx = Some (?p + length v, (Suc i, length k), (?p, length v))"
      by (rule nextKeyValuePair_exact [OF 2(5) assms(2) 2(2-4) _ refl _ valEnd_ws [of _ _ w3] assms(5)])
        (use 2 Cons.prems in simp_all)
    have k: "holds buf (Suc i) k" using 2 Cons.prems by (simp add: jstring_def)
    have "starts (buf ?n)" using jmembers_first [OF 2(8)] 2 Cons.prems by simp
    then have "skipSpaceAndComma buf (?p + length v) mx = (True, ?n)"
      by (intro skipSpaceAndComma_comma [of _ _ w3 w4]) (use 2 Cons.prems in simp_all)
    with nx i key_eq [OF assms(6) k]
    have "objectPairs buf i mx query (length q) = (if q = k then Some (?p, length v) else objectPairs buf ?n mx query (length q))"
      by (subst objectPairs.simps) auto
    moreover have "holds buf ?p v" "?p + length v \<le> mx" using 2 Cons.prems by simp_all
    moreover have "case map_of kvs q of
        None \<Rightarrow> objectPairs buf ?n mx query (length q) = None
      | Some v \<Rightarrow> \<exists>p. objectPairs buf ?n mx query (length q) = Some (p, length v) \<and> jvalue d v \<and> holds buf p v \<and> p + length v \<le> mx"
      by (rule Cons.IH [OF 2(8)]) (use 2(1) Cons.prems in simp_all)
    ultimately show ?thesis using 2(5) by (cases "q = k"; cases "map_of kvs q") (simp_all add: kv)
  qed
qed

lemma at_0 [simp]: "at buf 0 = buf"
  by (simp add: at_def)

lemma queryPart_exact: "holds query i q \<Longrightarrow> list_all (\<lambda>c. c \<noteq> CHR ''.'' \<and> c \<noteq> CHR ''['') q \<Longrightarrow> queryPart query i (i + length q) = i + length q"
proof (induction q arbitrary: i)
  case Nil
  then show ?case by (subst queryPart.simps) simp
next
  case (Cons c q)
  from Cons.IH [of "Suc i"] Cons.prems show ?case by (subst queryPart.simps) (simp add: isSeparator_def)
qed

text \<open>A query without separators and indices is one look-up of a key.\<close>

lemma multiSearch_key:
  assumes "q \<noteq> []" "list_all (\<lambda>c. c \<noteq> CHR ''.'' \<and> c \<noteq> CHR ''['') q"
  shows "multiSearch buf mx (chars q) (length q) =
    (case objectSearch buf mx (chars q) (length q) of None \<Rightarrow> Inl JSONNotFound | Some v \<Rightarrow> Inr v)"
proof -
  have "queryPart (chars q) 0 (length q) = length q" using queryPart_exact [of "chars q" 0 q] assms(2) by simp
  moreover have "chars q 0 \<noteq> CHR ''[''" using assms by (cases q) (auto simp: chars_def)
  ultimately have "searchPart buf mx (chars q) (length q) 0 = Inr (length q, objectSearch buf mx (chars q) (length q))"
    using assms(1) by (cases q) (simp_all add: searchPart_def skipQueryPart_def Let_def)
  then show ?thesis
    using assms(1) by (simp add: multiSearch_def multiSearchFrom.simps [of _ _ "length q"] split: option.split)
qed

lemma JSON_SearchConst_key:
  assumes "q \<noteq> []" "list_all (\<lambda>c. c \<noteq> CHR ''.'' \<and> c \<noteq> CHR ''['') q" "mx \<noteq> 0"
  shows "JSON_SearchConst (Some buf) mx (Some (chars q)) (length q) True =
    (case objectSearch buf mx (chars q) (length q) of
       None \<Rightarrow> Inl JSONNotFound
     | Some (p, n) \<Rightarrow> Inr (if buf p = CHR 0x22 then (p + 1, n - 2, JSONString) else (p, n, getType (buf p))))"
  using assms(1,3)
  by (auto simp: JSON_SearchConst_def multiSearch_key [OF assms(1,2)] Let_def getType_def split: option.split)

lemma holds_text: "holds (chars s) p v \<Longrightarrow> p + length v \<le> length s \<Longrightarrow> take (length v) (drop p s) = v"
  by (rule nth_equalityI) (simp_all add: holds_def chars_def)

text \<open>
  C12. The search for a key in a JSON object finds the value of the first member with that key: the
  offset and length returned delimit exactly its text (a string without its quotes) and the type is
  its type; when no member has the key the result is not found.
\<close>

theorem JSON_Search_first_member:
  assumes "jmembers 31 kvs ms" "jws w" "jws w1" "s = w1 @ ''{'' @ w @ ms @ ''}'' @ w2" "length s \<le> SIZE_MAX"
    "q \<noteq> []" "list_all (\<lambda>c. c \<noteq> CHR ''.'' \<and> c \<noteq> CHR ''['') q"
  shows "case map_of kvs q of
      None \<Rightarrow> JSON_SearchConst (Some (chars s)) (length s) (Some (chars q)) (length q) True = Inl JSONNotFound
    | Some v \<Rightarrow> \<exists>p. take (length v) (drop p s) = v \<and>
        JSON_SearchConst (Some (chars s)) (length s) (Some (chars q)) (length q) True =
          Inr (if hd v = CHR 0x22 then (p + 1, length v - 2, JSONString) else (p, length v, getType (hd v)))"
proof -
  let ?buf = "chars s" and ?mx = "length s" and ?i = "length w1 + Suc (length w)"
  have h: "holds ?buf 0 (w1 @ ''{'' @ w @ ms @ ''}'' @ w2)" using holds_chars [of s] assms(4) by simp
  have "starts (?buf ?i)" using jmembers_first [OF assms(1), of ?buf ?i] h by simp
  then have "skipSpace ?buf (Suc (length w1)) ?mx = ?i" "skipSpace ?buf 0 ?mx = length w1"
    using skipSpace_exact [of ?buf "Suc (length w1)" w ?mx] skipSpace_exact [of ?buf 0 w1 ?mx] h assms(2-4)
    by (simp_all add: starts_def isspace_def)
  then have o: "objectSearch ?buf ?mx (chars q) (length q) = objectPairs ?buf ?i ?mx (chars q) (length q)"
    using h assms(4) by (simp add: objectSearch_def Let_def)
  have js: "JSON_SearchConst (Some ?buf) ?mx (Some (chars q)) (length q) True =
    (case objectPairs ?buf ?i ?mx (chars q) (length q) of
       None \<Rightarrow> Inl JSONNotFound
     | Some (p, n) \<Rightarrow> Inr (if ?buf p = CHR 0x22 then (p + 1, n - 2, JSONString) else (p, n, getType (?buf p))))"
    using JSON_SearchConst_key [OF assms(6,7), of ?mx ?buf] assms(4) unfolding o by simp
  have op: "case map_of kvs q of
      None \<Rightarrow> objectPairs ?buf ?i ?mx (chars q) (length q) = None
    | Some v \<Rightarrow> \<exists>p. objectPairs ?buf ?i ?mx (chars q) (length q) = Some (p, length v) \<and> jvalue 31 v \<and> holds ?buf p v \<and> p + length v \<le> ?mx"
    by (rule objectPairs_exact [OF assms(1)]) (use h assms(4,5) in simp_all)
  show ?thesis
  proof (cases "map_of kvs q")
    case None
    then show ?thesis using js op by simp
  next
    case (Some v)
    with op obtain p where p: "objectPairs ?buf ?i ?mx (chars q) (length q) = Some (p, length v)" "jvalue 31 v"
      "holds ?buf p v" "p + length v \<le> ?mx" by auto
    have "hd v = ?buf p" using p(3) nonempty(1) [OF p(2)] by (cases v) simp_all
    then show ?thesis using js p(1) holds_text [OF p(3,4)] Some by auto
  qed
qed

theorem JSON_Search_first_member_witness:
  "\<exists>p. take (length ''true'') (drop p ''{ \"a\":true,\"a\":1}'') = ''true'' \<and>
     JSON_SearchConst (Some (chars ''{ \"a\":true,\"a\":1}'')) (length ''{ \"a\":true,\"a\":1}'') (Some (chars ''a'')) (length ''a'') True =
       Inr (p, length ''true'', JSONTrue)"
proof -
  have ws: "jws []" "jws '' ''" by (simp_all add: jws_def isspace_def)
  have "char_of (97 :: nat) = CHR ''a''" by code_simp
  then have a: "jstring ''a'' ''\"a\"''"
    using plain [of 97, OF _ _ _ _ nil] by (simp add: jstring_def utf8_bytes_def scalar_value_def)
  have v: "jvalue 31 ''true''" by (rule scalar) (simp add: jscalar_def)
  have "jint ''1''" unfolding jint_def by (intro exI [of _ "[]"] exI [of _ "''1''"]) (simp add: jdigits_def isdigit_def)
  then have "jnumber ''1''" unfolding jnumber_def
    by (intro exI [of _ "''1''"] exI [of _ "[]"]) (simp add: jfrac_def jexp_def)
  then have n: "jvalue 31 ''1''" by (intro scalar) (simp add: jscalar_def)
  have "jmembers 31 [(''a'', ''1'')] (''\"a\"'' @ [] @ '':'' @ [] @ ''1'' @ [])" by (rule mem [OF a ws(1,1) n ws(1)])
  from mems [OF a ws(1,1) v ws(1,1) this]
  have "jmembers 31 [(''a'', ''true''), (''a'', ''1'')] ''\"a\":true,\"a\":1''" by simp
  from JSON_Search_first_member [OF this ws(2,1), of "''{ \"a\":true,\"a\":1}''" "[]" "''a''"] show ?thesis
    by (simp add: SIZE_MAX_def getType_def)
qed

section \<open>What else is accepted\<close>

text \<open>
  The validator accepts more than JSON: at the outermost level any closing bracket closes the
  document, nested collections need no comma before them, and members of an object that are
  collections need no key.
\<close>

theorem JSON_Validate_too_lax:
  "JSON_Validate (Some (chars ''[}'')) 2 = JSONSuccess \<and>
   JSON_Validate (Some (chars ''[1 [2]]'')) 7 = JSONSuccess \<and>
   JSON_Validate (Some (chars ''{{}}'')) 4 = JSONSuccess \<and>
   JSON_Validate (Some (chars ''{[1]}'')) 5 = JSONSuccess"
  by code_simp

end
