(* ===== verification/RtcConnection.thy ===== *)
theory RtcConnection
  imports JsonValid "HOL-Library.Monad_Syntax"
begin

text \<open>
  The signalling connection to the media server, \<^verbatim>\<open>barertc/src/brtc/RTCConnection.c\<close>: the requests it
  sends as JSON text, the transactions it keeps for their replies, and the dispatch of incoming
  messages to the observer. Messages are read with the parser of theory \<^verbatim>\<open>CoreJson\<close>.

  An operation returns \<^const>\<open>None\<close> when the C code would leave defined behaviour: a null or dangling
  pointer is followed, or a fixed buffer overflows. The requests sent and the calls of the observer
  are recorded in the state.
\<close>

section \<open>C strings and numbers\<close>

text \<open>Whether \<^verbatim>\<open>strncmp\<close> finds the first \<open>n\<close> characters equal; the texts hold no NUL.\<close>

fun strncmp_eq :: "string \<Rightarrow> string \<Rightarrow> nat \<Rightarrow> bool" where
  "strncmp_eq a b 0 = True"
| "strncmp_eq [] [] (Suc n) = True"
| "strncmp_eq (x # a) (y # b) (Suc n) = (x = y \<and> strncmp_eq a b n)"
| "strncmp_eq _ _ (Suc n) = False"

text \<open>\<^verbatim>\<open>strncpy\<close> into an array of the given size whose content is then used as a C string.\<close>

definition copy_str :: "nat \<Rightarrow> string \<Rightarrow> string option" where
  "copy_str n s = (if length s < n then Some s else None)"

text \<open>\<^verbatim>\<open>sprintf\<close> into an array of the given size.\<close>

definition print_str :: "nat \<Rightarrow> string \<Rightarrow> string option" where
  "print_str n s = (if length s < n then Some s else None)"

definition digit_char :: "nat \<Rightarrow> char" where
  "digit_char d = char_of (48 + d)"

function dec :: "nat \<Rightarrow> string" where
  "dec n = (if n < 10 then [digit_char n] else dec (n div 10) @ [digit_char (n mod 10)])"
  by auto
termination by (relation "measure id") auto

declare dec.simps [simp del]

text \<open>The format \<^verbatim>\<open>%lld\<close>, used for unsigned values.\<close>

definition lld :: "64 word \<Rightarrow> string" where
  "lld w = (if sint w < 0 then CHR ''-'' # dec (nat (- sint w)) else dec (nat (sint w)))"

definition digits_value :: "string \<Rightarrow> int" where
  "digits_value s = foldl (\<lambda>v c. v * 10 + (of_char c - 48)) 0 (takeWhile isdigit s)"

text \<open>\<^verbatim>\<open>atoll\<close>: blanks, a sign and digits; a value out of range is clamped.\<close>

definition atoll :: "string \<Rightarrow> 64 word" where
  "atoll s =
     (let s = dropWhile isspace s;
          v = (if s \<noteq> [] \<and> hd s = CHR ''-'' then - digits_value (tl s)
               else if s \<noteq> [] \<and> hd s = CHR ''+'' then digits_value (tl s)
               else digits_value s)
      in of_int (max (- (2 ^ 63)) (min (2 ^ 63 - 1) v)))"

section \<open>State\<close>

datatype 'a ptr = Null | Ptr 'a | Dangling

definition deref :: "'a ptr \<Rightarrow> 'a option" where
  "deref p = (case p of Ptr x \<Rightarrow> Some x | _ \<Rightarrow> None)"

type_synonym u64 = "64 word"

definition RTC_JANUS_TRANSACTION_ID_LEN :: nat where "RTC_JANUS_TRANSACTION_ID_LEN = 13"
definition RTC_JANUS_TRANSACTION_MAP_LEN :: nat where "RTC_JANUS_TRANSACTION_MAP_LEN = 8"
definition RTC_JANUS_HANDLE_MAP_LEN :: nat where "RTC_JANUS_HANDLE_MAP_LEN = 2"
definition RTC_JANUS_PUBLISHER_LISTERN_MAP_LEN :: nat where "RTC_JANUS_PUBLISHER_LISTERN_MAP_LEN = 2"
definition DEFAULT_SIZE :: nat where "DEFAULT_SIZE = 512"
definition MIN_SIZE :: nat where "MIN_SIZE = 50"

text \<open>The functions that the callback pointers point to.\<close>

datatype OnTransactionSuccess = CreateSession | PublisherCreateHandle | CreateRoom | SubscriberCreateHandle

record RtcJanusTransaction =
  jt_transactionId :: string
  jt_onSuccess :: OnTransactionSuccess

datatype OnJoined = OnPublisherJoined

datatype OnRemoteJsep = OnPublisherRemoteJsep | SubscriberHandleRemoteJsep

text \<open>An indeterminate function pointer is \<^const>\<open>Dangling\<close>.\<close>

record RtcJanusHandle =
  jh_handleId :: u64
  jh_feedId :: u64
  jh_onJoined :: "OnJoined ptr"
  jh_onRemoteJsep :: "OnRemoteJsep ptr"

text \<open>The calls of the observer.\<close>

datatype observed =
    onCirrusDisconnected | onPublisherJoined u64 | onPublisherRemoteJsep u64 string
  | subscriberHandleRemoteJsep u64 string | onLeaving u64 | onListenerNACKs u64 | onNACKs u64 | onUnpublished
  | onRTCLoginOK | onRTCLoginError | onRTCConnectError | onRTCWebrtcUp u64
  | onRTCMediaStreamingEvent u64 nat bool | onRTCHangUp u64 | onRTCFeedComing u64 string
  | onRTCUserMessage u64 string | onRTCUserAttribute u64 string | onRTCUserJoinedRoom u64 string
  | onRTCUserLeavingRoom u64 | onRTCError "32 word" string

record FRTCConnection =
  mUserId :: string
  mRoomName :: string
  mAppId :: string
  mTokenStr :: string
  mDisplayName :: string
  mCerPath :: string
  mSessionId :: u64
  mRoomId :: u64
  mFeedId :: u64
  mAsPublisher :: bool
  mAsListener :: bool
  mMediaServerStandalone_needRoomID :: bool
  mBRTCServerVersion :: "string ptr"
  mFeedIdIsOnline :: bool
  mHasAudio :: bool
  mHasVideo :: bool
  mHasData :: bool
  mAutoSubscribe :: bool
  mVideoCodec :: string
  mAudioCodec :: string
  mMediaServerIP :: string
  mSDKTag :: string
  mRTCConnected :: bool
  mbAliving :: bool
  mbQuitWatchDog :: bool
  mJanusTransactionMap :: "(string \<times> RtcJanusTransaction ptr) list"
  mJanusHandlesMap :: "(u64 \<times> RtcJanusHandle ptr) list"
  mPublisherWebListenerMap :: "(u64 \<times> nat) list"
  mWSCtx :: bool
  mWSConnetion :: "unit ptr"
  mFullURL :: string
  mOriginURI :: string
  mTx :: "string list"
  mObserved :: "observed list"

definition FRTCConnection_construct :: FRTCConnection where
  "FRTCConnection_construct =
     \<lparr>mUserId = ''10001'', mRoomName = ''2131'', mAppId = [], mTokenStr = [], mDisplayName = ''BRTC RTOS demo'',
      mCerPath = ''./a.cer'', mSessionId = 0, mRoomId = 999, mFeedId = 0, mAsPublisher = True, mAsListener = True,
      mMediaServerStandalone_needRoomID = False, mBRTCServerVersion = Ptr ''brtc_v0'', mFeedIdIsOnline = False,
      mHasAudio = True, mHasVideo = True, mHasData = False, mAutoSubscribe = True, mVideoCodec = ''h263'',
      mAudioCodec = ''pcmu'', mMediaServerIP = [], mSDKTag = [], mRTCConnected = False, mbAliving = False,
      mbQuitWatchDog = False, mJanusTransactionMap = replicate RTC_JANUS_TRANSACTION_MAP_LEN ([], Null),
      mJanusHandlesMap = replicate RTC_JANUS_HANDLE_MAP_LEN (0, Null),
      mPublisherWebListenerMap = replicate RTC_JANUS_PUBLISHER_LISTERN_MAP_LEN (0, 0),
      mWSCtx = False, mWSConnetion = Null, mFullURL = [], mOriginURI = [], mTx = [], mObserved = []\<rparr>"

definition observe :: "observed \<Rightarrow> FRTCConnection \<Rightarrow> FRTCConnection" where
  "observe e conn = conn\<lparr>mObserved := mObserved conn @ [e]\<rparr>"

text \<open>What an operation needs from outside: the values of \<^verbatim>\<open>rand\<close>, and whether \<^verbatim>\<open>malloc\<close> has memory.\<close>

record env =
  env_rand :: "nat \<Rightarrow> nat"
  env_mem :: bool

definition id_chars :: string where
  "id_chars = ''ABCDEFGHIJKLMNOPQRSTUVWXYZabcdefghijklmnopqrstuvwxyz0123456789''"

definition generateString :: "env \<Rightarrow> nat \<Rightarrow> string" where
  "generateString E len = map (\<lambda>k. id_chars ! (env_rand E k mod 62)) [0..<len - 1]"

definition transaction_id :: "env \<Rightarrow> string" where
  "transaction_id E = generateString E RTC_JANUS_TRANSACTION_ID_LEN"

section \<open>Requests\<close>

text \<open>A text message is handed to the WebSocket when the connection is up.\<close>

definition sendMessage :: "string \<Rightarrow> FRTCConnection \<Rightarrow> FRTCConnection option" where
  "sendMessage buf conn =
     (if \<not> mRTCConnected conn then Some conn
      else do {
        c \<leftarrow> deref (mWSConnetion conn);
        Some (conn\<lparr>mTx := mTx conn @ [buf]\<rparr>)
      })"

definition bool_str :: "bool \<Rightarrow> string" where
  "bool_str b = (if b then ''true'' else ''false'')"

text \<open>The format strings, as functions of their arguments; what is printed into a message is named by its role.\<close>

type_synonym app_text = string
type_synonym codec_text = string
type_synonym descr_json = string
type_synonym flag_text = string
type_synonym name_text = string
type_synonym num_text = string
type_synonym role_text = string
type_synonym room_text = string
type_synonym tid_text = string
type_synonym token_text = string
type_synonym url_text = string
type_synonym user_text = string

definition g_rtc_create_session ::
  "tid_text \<Rightarrow> name_text \<Rightarrow> url_text \<Rightarrow> url_text \<Rightarrow> string" where
  "g_rtc_create_session tid tag ip uri =
     ''{\"janus\":\"create\",\"transaction\":\"'' @ tid @ ''\",\"sdktag\":\"'' @ tag @ ''\",\"janusIp\":\"'' @ ip
     @ ''\",\"uri\":\"'' @ uri @ ''\",\"userevent\":true,\"sessionevent\":true}''"

definition g_rtc_create_room ::
  "user_text \<Rightarrow> app_text \<Rightarrow> token_text \<Rightarrow> room_text \<Rightarrow> name_text \<Rightarrow> codec_text \<Rightarrow> codec_text \<Rightarrow> tid_text \<Rightarrow> num_text \<Rightarrow> num_text \<Rightarrow> string" where
  "g_rtc_create_room uid app key room descr vc ac tid sid hid =
     ''{\"janus\":\"message\",\"body\":{\"request\":\"create\",\"id\":'' @ uid @ '',\"app_id\":\"'' @ app @ ''\",\"'' @ key
     @ ''\":\"'' @ room @ ''\",\"description\":\"'' @ descr
     @ ''\",\"publishers\":10000,\"is_private\":false,\"videocodec\":\"'' @ vc @ ''\",\"audiocodec\":\"'' @ ac
     @ ''\"},\"transaction\":\"'' @ tid @ ''\",\"session_id\": '' @ sid @ '',\"handle_id\":'' @ hid @ ''}''"

definition g_rtc_connect_url ::
  "url_text \<Rightarrow> app_text \<Rightarrow> room_text \<Rightarrow> user_text \<Rightarrow> token_text \<Rightarrow> num_text \<Rightarrow> string" where
  "g_rtc_connect_url url app room uid token cnt =
     url @ ''?appid='' @ app @ ''&roomname='' @ room @ ''&uid='' @ uid @ ''&token='' @ token
     @ ''&compulsive=true&connectingCount='' @ cnt"

definition g_rtc_keep_alive ::
  "num_text \<Rightarrow> tid_text \<Rightarrow> string" where
  "g_rtc_keep_alive sid tid = ''{\"janus\":\"keepalive\",\"session_id\": '' @ sid @ '',\"transaction\":\"'' @ tid @ ''\"}''"

definition g_rtc_attach_cmd ::
  "tid_text \<Rightarrow> num_text \<Rightarrow> string" where
  "g_rtc_attach_cmd tid sid =
     ''{\"janus\":\"attach\",\"plugin\":\"janus.plugin.videoroom\",\"transaction\":\"'' @ tid @ ''\",\"session_id\": '' @ sid @ ''}''"

definition g_rtc_join_room ::
  "room_text \<Rightarrow> name_text \<Rightarrow> user_text \<Rightarrow> app_text \<Rightarrow> name_text \<Rightarrow> token_text \<Rightarrow> tid_text \<Rightarrow> num_text \<Rightarrow> num_text \<Rightarrow> string" where
  "g_rtc_join_room room disp uid app name token tid sid hid =
     ''{\"janus\":\"message\",\"body\":{\"request\":\"join\",\"room\":'' @ room @ '',\"ptype\":\"publisher\",\"display\":\"'' @ disp
     @ ''\",\"id\":'' @ uid @ '',\"app_id\":\"'' @ app @ ''\",\"room_name\":\"'' @ name
     @ ''\",\"role\":\"publisher\",\"token\":\"'' @ token @ ''\"},\"transaction\":\"'' @ tid
     @ ''\",\"session_id\":'' @ sid @ '',\"handle_id\":'' @ hid @ ''}''"

definition g_rtc_offer_sdp ::
  "flag_text \<Rightarrow> flag_text \<Rightarrow> flag_text \<Rightarrow> descr_json \<Rightarrow> tid_text \<Rightarrow> num_text \<Rightarrow> num_text \<Rightarrow> string" where
  "g_rtc_offer_sdp a v d sdp tid sid hid =
     ''{\"janus\":\"message\",\"body\":{\"request\":\"configure\",\"audio\":'' @ a @ '',\"video\":'' @ v @ '',\"data\":'' @ d
     @ ''},\"jsep\":{\"type\":\"OFFER\",\"sdp\":\"'' @ sdp @ ''\"},\"transaction\":\"'' @ tid
     @ ''\",\"session_id\":'' @ sid @ '',\"handle_id\":'' @ hid @ ''}''"

definition g_rtc_trickle_cmd ::
  "descr_json \<Rightarrow> tid_text \<Rightarrow> num_text \<Rightarrow> num_text \<Rightarrow> string" where
  "g_rtc_trickle_cmd cand tid sid hid =
     ''{\"janus\":\"trickle\",\"candidate\":{\"candidate\":\"candidate:\"'' @ cand @ ''\",\"sdpMid\":\"0\",\"sdpMLineIndex\":0},\"transaction\":\"''
     @ tid @ ''\",\"session_id\":'' @ sid @ '',\"handle_id\":'' @ hid @ ''}''"

definition g_rtc_trickle_complete_cmd ::
  "tid_text \<Rightarrow> num_text \<Rightarrow> num_text \<Rightarrow> string" where
  "g_rtc_trickle_complete_cmd tid sid hid =
     ''{\"janus\":\"trickle\",\"candidate\":{\"completed\":true},\"transaction\":\"'' @ tid
     @ ''\",\"session_id\":'' @ sid @ '',\"handle_id\":'' @ hid @ ''}''"

definition g_rtc_subscriber_join_room ::
  "room_text \<Rightarrow> user_text \<Rightarrow> app_text \<Rightarrow> name_text \<Rightarrow> role_text \<Rightarrow> token_text \<Rightarrow> num_text \<Rightarrow> tid_text \<Rightarrow> num_text \<Rightarrow> num_text \<Rightarrow> string" where
  "g_rtc_subscriber_join_room room uid app name role token feed tid sid hid =
     ''{\"janus\":\"message\",\"body\":{\"request\":\"join\",\"room\":'' @ room @ '',\"ptype\":\"listener\",\"id\":'' @ uid
     @ '',\"app_id\":\"'' @ app @ ''\",\"room_name\":\"'' @ name @ ''\",\"role\":\"'' @ role @ ''\",\"token\":\"'' @ token
     @ ''\",\"feed\":'' @ feed @ ''},\"transaction\":\"'' @ tid @ ''\",\"session_id\":'' @ sid @ '',\"handle_id\":'' @ hid @ ''}''"

definition g_rtc_answer_sdp ::
  "room_text \<Rightarrow> descr_json \<Rightarrow> tid_text \<Rightarrow> num_text \<Rightarrow> num_text \<Rightarrow> string" where
  "g_rtc_answer_sdp room sdp tid sid hid =
     ''{\"janus\":\"message\",\"body\":{\"request\":\"start\",\"room\":'' @ room
     @ ''},\"jsep\":{\"type\":\"ANSWER\",\"sdp\":\"'' @ sdp @ ''\"},\"transaction\":\"'' @ tid
     @ ''\",\"session_id\":'' @ sid @ '',\"handle_id\":'' @ hid @ ''}''"

definition g_rtc_config_cmd ::
  "flag_text \<Rightarrow> flag_text \<Rightarrow> flag_text \<Rightarrow> tid_text \<Rightarrow> num_text \<Rightarrow> num_text \<Rightarrow> string" where
  "g_rtc_config_cmd a v d tid sid hid =
     ''{\"janus\":\"message\",\"body\":{\"request\":\"configure\", \"audio\":'' @ a @ '',\"video\":'' @ v @ '',\"data\":'' @ d
     @ ''},\"transaction\":\"'' @ tid @ ''\",\"session_id\":'' @ sid @ '',\"handle_id\":'' @ hid @ ''}''"

definition g_rtc_sendmsg_cmd ::
  "tid_text \<Rightarrow> room_text \<Rightarrow> user_text \<Rightarrow> num_text \<Rightarrow> descr_json \<Rightarrow> flag_text \<Rightarrow> num_text \<Rightarrow> string" where
  "g_rtc_sendmsg_cmd tid room uid to msg internal sid =
     ''{\"janus\":\"message\",\"transaction\":\"'' @ tid @ ''\",\"body\":{\"request\":\"senddata\",\"room\":'' @ room
     @ '',\"id\":'' @ uid @ '',\"to\":'' @ to @ '',\"data\":\"'' @ msg @ ''\",\"internal\":\"'' @ internal
     @ ''\"},\"session_id\":'' @ sid @ ''}''"

definition g_rtc_unpublish_cmd ::
  "tid_text \<Rightarrow> num_text \<Rightarrow> num_text \<Rightarrow> string" where
  "g_rtc_unpublish_cmd tid sid hid =
     ''{\"janus\":\"message\",\"body\":{\"request\":\"unpublish\"},\"transaction\":\"'' @ tid
     @ ''\",\"session_id\":'' @ sid @ '',\"handle_id\":'' @ hid @ ''}''"

definition g_rtc_detach_cmd ::
  "tid_text \<Rightarrow> num_text \<Rightarrow> num_text \<Rightarrow> string" where
  "g_rtc_detach_cmd tid sid hid =
     ''{\"janus\":\"detach\",\"transaction\":\"'' @ tid @ ''\",\"session_id\":'' @ sid @ '',\"handle_id\":'' @ hid @ ''}''"

text \<open>A request that expects a reply puts a transaction into its slot of the table before it is sent.\<close>

definition open_transaction :: "env \<Rightarrow> nat \<Rightarrow> OnTransactionSuccess \<Rightarrow> FRTCConnection \<Rightarrow> FRTCConnection option" where
  "open_transaction E slot cb conn =
     (if \<not> env_mem E then None
      else Some (conn\<lparr>mJanusTransactionMap := (mJanusTransactionMap conn)
             [slot := (transaction_id E, Ptr \<lparr>jt_transactionId = transaction_id E, jt_onSuccess = cb\<rparr>)]\<rparr>))"

definition createSession :: "env \<Rightarrow> FRTCConnection \<Rightarrow> FRTCConnection option" where
  "createSession E conn = do {
     buf \<leftarrow> print_str DEFAULT_SIZE (g_rtc_create_session (transaction_id E) (mSDKTag conn) (mMediaServerIP conn) (mOriginURI conn));
     conn \<leftarrow> open_transaction E 0 CreateSession conn;
     sendMessage buf conn
   }"

text \<open>With a room number the code passes an integer to a format that reads a string.\<close>

definition createRoom :: "env \<Rightarrow> u64 \<Rightarrow> FRTCConnection \<Rightarrow> FRTCConnection option" where
  "createRoom E handleId conn =
     (if mMediaServerStandalone_needRoomID conn then None
      else do {
        buf \<leftarrow> print_str DEFAULT_SIZE (g_rtc_create_room (mUserId conn) (mAppId conn) ''room_name'' (mRoomName conn) ''RTOS''
          (mVideoCodec conn) (mAudioCodec conn) (transaction_id E) (lld (mSessionId conn)) (lld handleId));
        conn \<leftarrow> open_transaction E 2 CreateRoom conn;
        sendMessage buf conn
      })"

text \<open>\<open>cnt\<close> counts the connections; \<open>ws_ok\<close> says whether the WebSocket could be created.\<close>

definition connecting :: "string \<Rightarrow> u64 \<Rightarrow> bool \<Rightarrow> FRTCConnection \<Rightarrow> (u64 \<times> FRTCConnection) option" where
  "connecting url cnt ws_ok conn = do {
     full \<leftarrow> print_str DEFAULT_SIZE (g_rtc_connect_url url (mAppId conn) (mRoomName conn) (mUserId conn) (mTokenStr conn) (lld cnt));
     let conn = conn\<lparr>mOriginURI := url, mFullURL := full, mWSCtx := True, mWSConnetion := (if ws_ok then Ptr () else Null)\<rparr>;
     Some (cnt + 1, if ws_ok then conn else observe onRTCConnectError conn)
   }"

definition keepAlive :: "env \<Rightarrow> FRTCConnection \<Rightarrow> FRTCConnection option" where
  "keepAlive E conn =
     (if mSessionId conn = 0 then Some conn
      else do {
        buf \<leftarrow> print_str DEFAULT_SIZE (g_rtc_keep_alive (lld (mSessionId conn)) (transaction_id E));
        sendMessage buf conn
      })"

definition publisherCreateHandle :: "env \<Rightarrow> FRTCConnection \<Rightarrow> FRTCConnection option" where
  "publisherCreateHandle E conn = do {
     buf \<leftarrow> print_str DEFAULT_SIZE (g_rtc_attach_cmd (transaction_id E) (lld (mSessionId conn)));
     conn \<leftarrow> open_transaction E 1 PublisherCreateHandle conn;
     sendMessage buf conn
   }"

definition publisherJoinRoom :: "env \<Rightarrow> u64 \<Rightarrow> FRTCConnection \<Rightarrow> FRTCConnection option" where
  "publisherJoinRoom E handleId conn = do {
     buf \<leftarrow> print_str DEFAULT_SIZE (g_rtc_join_room (lld (mRoomId conn)) (mDisplayName conn) (lld (atoll (mUserId conn))) (mAppId conn)
       (mRoomName conn) (mTokenStr conn) (transaction_id E) (lld (mSessionId conn)) (lld handleId));
     sendMessage buf conn
   }"

definition publisherCreateOffer :: "env \<Rightarrow> u64 \<Rightarrow> string \<Rightarrow> FRTCConnection \<Rightarrow> FRTCConnection option" where
  "publisherCreateOffer E handleId Desc conn = do {
     buf \<leftarrow> print_str (DEFAULT_SIZE * 8) (g_rtc_offer_sdp (bool_str (mHasAudio conn)) (bool_str (mHasVideo conn)) (bool_str (mHasData conn))
       Desc (transaction_id E) (lld (mSessionId conn)) (lld handleId));
     sendMessage buf conn
   }"

definition trickleCandicate :: "env \<Rightarrow> u64 \<Rightarrow> string \<Rightarrow> FRTCConnection \<Rightarrow> FRTCConnection option" where
  "trickleCandicate E handleId Candidate conn = do {
     version \<leftarrow> deref (mBRTCServerVersion conn);
     if version = ''brtc_v0'' then Some conn
     else do {
       buf \<leftarrow> print_str DEFAULT_SIZE (g_rtc_trickle_cmd Candidate (transaction_id E) (lld (mSessionId conn)) (lld handleId));
       sendMessage buf conn
     }
   }"

definition trickleCandicateComplete :: "env \<Rightarrow> u64 \<Rightarrow> FRTCConnection \<Rightarrow> FRTCConnection option" where
  "trickleCandicateComplete E handleId conn = do {
     buf \<leftarrow> print_str DEFAULT_SIZE (g_rtc_trickle_complete_cmd (transaction_id E) (lld (mSessionId conn)) (lld handleId));
     sendMessage buf conn
   }"

definition subscriberCreateHandle :: "env \<Rightarrow> u64 \<Rightarrow> FRTCConnection \<Rightarrow> FRTCConnection option" where
  "subscriberCreateHandle E feedId conn = do {
     buf \<leftarrow> print_str DEFAULT_SIZE (g_rtc_attach_cmd (transaction_id E) (lld (mSessionId conn)));
     conn \<leftarrow> open_transaction E 3 SubscriberCreateHandle (conn\<lparr>mFeedId := feedId\<rparr>);
     sendMessage buf conn
   }"

definition subscriberJoinRoom :: "env \<Rightarrow> u64 \<Rightarrow> u64 \<Rightarrow> FRTCConnection \<Rightarrow> FRTCConnection option" where
  "subscriberJoinRoom E handleId feedId conn = do {
     buf \<leftarrow> print_str DEFAULT_SIZE (g_rtc_subscriber_join_room (lld (mRoomId conn)) (lld (atoll (mUserId conn))) (mAppId conn)
       (mRoomName conn) (if mAsPublisher conn then ''publisher'' else ''listener'') (mTokenStr conn) (lld feedId)
       (transaction_id E) (lld (mSessionId conn)) (lld handleId));
     sendMessage buf conn
   }"

definition subscriberCreateAnswer :: "env \<Rightarrow> u64 \<Rightarrow> string \<Rightarrow> FRTCConnection \<Rightarrow> FRTCConnection option" where
  "subscriberCreateAnswer E handleId Desc conn = do {
     buf \<leftarrow> print_str (DEFAULT_SIZE * 4) (g_rtc_answer_sdp (lld (mRoomId conn)) Desc (transaction_id E) (lld (mSessionId conn)) (lld handleId));
     sendMessage buf conn
   }"

text \<open>The flags given as arguments are not used.\<close>

definition subscriberConfig :: "env \<Rightarrow> u64 \<Rightarrow> bool \<Rightarrow> bool \<Rightarrow> bool \<Rightarrow> FRTCConnection \<Rightarrow> FRTCConnection option" where
  "subscriberConfig E handleId audio video data conn = do {
     buf \<leftarrow> print_str DEFAULT_SIZE (g_rtc_config_cmd (bool_str (mHasAudio conn)) (bool_str (mHasVideo conn)) (bool_str (mHasData conn))
       (transaction_id E) (lld (mSessionId conn)) (lld handleId));
     sendMessage buf conn
   }"

definition sendMessageToUser :: "env \<Rightarrow> string \<Rightarrow> u64 \<Rightarrow> bool \<Rightarrow> FRTCConnection \<Rightarrow> FRTCConnection option" where
  "sendMessageToUser E msg uid internal conn = do {
     buf \<leftarrow> print_str DEFAULT_SIZE (g_rtc_sendmsg_cmd (transaction_id E) (lld (mRoomId conn)) (lld (atoll (mUserId conn))) (lld uid) msg
       (bool_str internal) (lld (mSessionId conn)));
     sendMessage buf conn
   }"

definition unpublish :: "env \<Rightarrow> u64 \<Rightarrow> FRTCConnection \<Rightarrow> FRTCConnection option" where
  "unpublish E handleId conn = do {
     buf \<leftarrow> print_str DEFAULT_SIZE (g_rtc_unpublish_cmd (transaction_id E) (lld (mSessionId conn)) (lld handleId));
     sendMessage buf conn
   }"

definition detach :: "env \<Rightarrow> u64 \<Rightarrow> FRTCConnection \<Rightarrow> FRTCConnection option" where
  "detach E handleId conn = do {
     buf \<leftarrow> print_str DEFAULT_SIZE (g_rtc_detach_cmd (transaction_id E) (lld (mSessionId conn)) (lld handleId));
     sendMessage buf conn
   }"

definition disconnect :: "FRTCConnection \<Rightarrow> FRTCConnection" where
  "disconnect conn = conn\<lparr>mWSCtx := False, mWSConnetion := Null, mRTCConnected := False\<rparr>"

text \<open>The parameters of the connection.\<close>

definition setUserId :: "string \<Rightarrow> FRTCConnection \<Rightarrow> FRTCConnection" where
  "setUserId v conn = conn\<lparr>mUserId := v\<rparr>"

definition setRoomName :: "string \<Rightarrow> FRTCConnection \<Rightarrow> FRTCConnection" where
  "setRoomName v conn = conn\<lparr>mRoomName := v\<rparr>"

definition setAppId :: "string \<Rightarrow> FRTCConnection \<Rightarrow> FRTCConnection" where
  "setAppId v conn = conn\<lparr>mAppId := v\<rparr>"

definition setTokenStr :: "string \<Rightarrow> FRTCConnection \<Rightarrow> FRTCConnection" where
  "setTokenStr v conn = conn\<lparr>mTokenStr := v\<rparr>"

definition setDisplayName :: "string \<Rightarrow> FRTCConnection \<Rightarrow> FRTCConnection" where
  "setDisplayName v conn = conn\<lparr>mDisplayName := v\<rparr>"

definition setCerPath :: "string \<Rightarrow> FRTCConnection \<Rightarrow> FRTCConnection" where
  "setCerPath v conn = conn\<lparr>mCerPath := v\<rparr>"

definition setAsPublisher :: "bool \<Rightarrow> FRTCConnection \<Rightarrow> FRTCConnection" where
  "setAsPublisher v conn = conn\<lparr>mAsPublisher := v\<rparr>"

definition setAsListener :: "bool \<Rightarrow> FRTCConnection \<Rightarrow> FRTCConnection" where
  "setAsListener v conn = conn\<lparr>mAsListener := v\<rparr>"

definition setFeedId :: "string \<Rightarrow> FRTCConnection \<Rightarrow> FRTCConnection" where
  "setFeedId feedIdStr conn = conn\<lparr>mFeedId := atoll feedIdStr\<rparr>"

definition setHasAudio :: "bool \<Rightarrow> FRTCConnection \<Rightarrow> FRTCConnection" where
  "setHasAudio v conn = conn\<lparr>mHasAudio := v\<rparr>"

definition setHasVideo :: "bool \<Rightarrow> FRTCConnection \<Rightarrow> FRTCConnection" where
  "setHasVideo v conn = conn\<lparr>mHasVideo := v\<rparr>"

definition setHasData :: "bool \<Rightarrow> FRTCConnection \<Rightarrow> FRTCConnection" where
  "setHasData v conn = conn\<lparr>mHasData := v\<rparr>"

definition setMediaServerIP :: "string \<Rightarrow> FRTCConnection \<Rightarrow> FRTCConnection" where
  "setMediaServerIP v conn = conn\<lparr>mMediaServerIP := v\<rparr>"

definition setSDKTag :: "string \<Rightarrow> FRTCConnection \<Rightarrow> FRTCConnection" where
  "setSDKTag v conn = conn\<lparr>mSDKTag := v\<rparr>"

definition setAutoSubscribe :: "bool \<Rightarrow> FRTCConnection \<Rightarrow> FRTCConnection" where
  "setAutoSubscribe v conn = conn\<lparr>mAutoSubscribe := v\<rparr>"

definition setVideoCodec :: "string \<Rightarrow> FRTCConnection \<Rightarrow> FRTCConnection" where
  "setVideoCodec v conn = conn\<lparr>mVideoCodec := v\<rparr>"

section \<open>Incoming messages\<close>

definition validate :: "string \<Rightarrow> bool" where
  "validate msg \<longleftrightarrow> JSON_Validate (Some (chars msg)) (length msg) = JSONSuccess"

text \<open>Position and length of the value found for a query, or none.\<close>

definition search_at :: "string \<Rightarrow> string \<Rightarrow> (nat \<times> nat) option" where
  "search_at msg query =
     (case JSON_SearchConst (Some (chars msg)) (length msg) (Some (chars query)) (length query) True of
        Inl e \<Rightarrow> None
      | Inr (v, len, t) \<Rightarrow> Some (v, len))"

definition search :: "string \<Rightarrow> string \<Rightarrow> string option" where
  "search msg query = (case search_at msg query of None \<Rightarrow> None | Some (v, len) \<Rightarrow> Some (take len (drop v msg)))"

text \<open>The value and its length as they are after a search that may have failed: null and zero then.\<close>

definition found :: "string option \<Rightarrow> string" where
  "found v = (case v of None \<Rightarrow> [] | Some s \<Rightarrow> s)"

text \<open>\<^verbatim>\<open>!strncmp(pat, value, valueLength)\<close>\<close>

definition is_str :: "string \<Rightarrow> string \<Rightarrow> bool" where
  "is_str pat v \<longleftrightarrow> strncmp_eq pat v (length v)"

text \<open>A number copied into a small array and converted.\<close>

definition number :: "string \<Rightarrow> u64 option" where
  "number v = do { s \<leftarrow> copy_str MIN_SIZE v; Some (atoll s) }"

subsection \<open>Replies to transactions\<close>

text \<open>
  The callbacks get the message and, up to the next NUL, what follows it in the receive buffer
  (\<open>rest\<close>), because they take its length with \<^verbatim>\<open>strlen\<close>.
\<close>

definition createSession_callback :: "env \<Rightarrow> string \<Rightarrow> FRTCConnection \<Rightarrow> FRTCConnection option" where
  "createSession_callback E buf conn =
     (if \<not> validate buf then Some conn
      else do {
        conn \<leftarrow> (case search buf ''data.id'' of
                   Some v \<Rightarrow> do { sid \<leftarrow> number v; Some (conn\<lparr>mSessionId := sid\<rparr>) }
                 | None \<Rightarrow> Some conn);
        conn \<leftarrow> (case search buf ''standalone'' of
                   Some v \<Rightarrow> Some (conn\<lparr>mMediaServerStandalone_needRoomID := is_str ''true'' v\<rparr>)
                 | None \<Rightarrow> Some conn);
        conn \<leftarrow> (case search buf ''data.version'' of
                   Some v \<Rightarrow> do { s \<leftarrow> copy_str MIN_SIZE v; Some (conn\<lparr>mBRTCServerVersion := Dangling\<rparr>) }
                 | None \<Rightarrow> Some conn);
        publisherCreateHandle E conn
      })"

definition publisherCreateHandle_callback :: "env \<Rightarrow> string \<Rightarrow> FRTCConnection \<Rightarrow> FRTCConnection option" where
  "publisherCreateHandle_callback E buf conn =
     (if \<not> validate buf then Some conn
      else case search buf ''data.id'' of
        Some v \<Rightarrow> do { handleId \<leftarrow> number v; createRoom E handleId conn }
      | None \<Rightarrow> Some conn)"

definition set_handle :: "nat \<Rightarrow> RtcJanusHandle \<Rightarrow> FRTCConnection \<Rightarrow> FRTCConnection" where
  "set_handle slot jh conn =
     conn\<lparr>mJanusHandlesMap := (mJanusHandlesMap conn)[slot := (jh_handleId jh, Ptr jh)]\<rparr>"

definition createRoom_callback :: "env \<Rightarrow> string \<Rightarrow> FRTCConnection \<Rightarrow> FRTCConnection option" where
  "createRoom_callback E buf conn =
     (if \<not> validate buf then Some conn
      else do {
        handleId \<leftarrow> (case search buf ''sender'' of Some v \<Rightarrow> number v | None \<Rightarrow> Some 0);
        conn \<leftarrow> (case search buf ''plugindata.data.room'' of
                   Some v \<Rightarrow> do { room \<leftarrow> number v; Some (conn\<lparr>mRoomId := room\<rparr>) }
                 | None \<Rightarrow> Some conn);
        jsep \<leftarrow> (case search buf ''jsep'' of Some v \<Rightarrow> copy_str MIN_SIZE v | None \<Rightarrow> Some []);
        if \<not> env_mem E then None
        else
          let jh = \<lparr>jh_handleId = handleId, jh_feedId = mFeedId conn, jh_onJoined = Dangling, jh_onRemoteJsep = Dangling\<rparr>
          in if mAsPublisher conn then
               publisherJoinRoom E handleId
                 (set_handle 0 (jh\<lparr>jh_onJoined := Ptr OnPublisherJoined, jh_onRemoteJsep := Ptr OnPublisherRemoteJsep\<rparr>) conn)
             else if mAsListener conn then
               subscriberJoinRoom E handleId (mFeedId conn)
                 (set_handle 0 (jh\<lparr>jh_onRemoteJsep := Ptr SubscriberHandleRemoteJsep\<rparr>) conn)
             else Some (set_handle 0 jh conn)
      })"

definition subscriberCreateHandle_callback :: "env \<Rightarrow> string \<Rightarrow> FRTCConnection \<Rightarrow> FRTCConnection option" where
  "subscriberCreateHandle_callback E buf conn =
     (if \<not> validate buf then Some conn
      else do {
        handleId \<leftarrow> (case search buf ''data.id'' of Some v \<Rightarrow> number v | None \<Rightarrow> Some 0);
        if \<not> env_mem E then None
        else subscriberJoinRoom E handleId (mFeedId conn)
          (set_handle 1 \<lparr>jh_handleId = handleId, jh_feedId = mFeedId conn, jh_onJoined = Dangling,
                         jh_onRemoteJsep = Ptr SubscriberHandleRemoteJsep\<rparr> conn)
      })"

definition onSuccess :: "OnTransactionSuccess \<Rightarrow> env \<Rightarrow> string \<Rightarrow> string \<Rightarrow> FRTCConnection \<Rightarrow> FRTCConnection option" where
  "onSuccess cb E msg rest conn =
     (case cb of
        CreateSession \<Rightarrow> createSession_callback E (msg @ rest) conn
      | PublisherCreateHandle \<Rightarrow> publisherCreateHandle_callback E (msg @ rest) conn
      | CreateRoom \<Rightarrow> createRoom_callback E (msg @ rest) conn
      | SubscriberCreateHandle \<Rightarrow> subscriberCreateHandle_callback E msg conn)"

text \<open>The reply is done: the identifier is cleared and the transaction freed, its pointer stays in the table.\<close>

definition close_transaction :: "nat \<Rightarrow> FRTCConnection \<Rightarrow> FRTCConnection" where
  "close_transaction i conn = conn\<lparr>mJanusTransactionMap := (mJanusTransactionMap conn)[i := ([], Dangling)]\<rparr>"

fun find_transaction :: "(string \<times> RtcJanusTransaction ptr) list \<Rightarrow> string \<Rightarrow> nat option" where
  "find_transaction [] t = None"
| "find_transaction ((jtId, jt) # m) t = (if is_str jtId t then Some 0 else map_option Suc (find_transaction m t))"

definition transaction_success :: "env \<Rightarrow> string \<Rightarrow> string \<Rightarrow> string \<Rightarrow> FRTCConnection \<Rightarrow> FRTCConnection option" where
  "transaction_success E msg rest tid conn =
     (case find_transaction (mJanusTransactionMap conn) tid of
        None \<Rightarrow> Some conn
      | Some i \<Rightarrow> do {
          jt \<leftarrow> deref (snd (mJanusTransactionMap conn ! i));
          conn \<leftarrow> onSuccess (jt_onSuccess jt) E msg rest conn;
          Some (close_transaction i conn)
        })"

text \<open>
  An error reply calls a handler that does nothing. The search goes on behind a slot whose pointer is
  null; through a dangling pointer the handler would be called from freed memory.
\<close>

fun error_slot :: "(string \<times> RtcJanusTransaction ptr) list \<Rightarrow> string \<Rightarrow> (nat \<times> RtcJanusTransaction ptr) option" where
  "error_slot [] t = None"
| "error_slot ((jtId, jt) # m) t =
     (if is_str jtId t \<and> jt \<noteq> Null then Some (0, jt)
      else map_option (\<lambda>(i, p). (Suc i, p)) (error_slot m t))"

definition transaction_error :: "string \<Rightarrow> FRTCConnection \<Rightarrow> FRTCConnection option" where
  "transaction_error tid conn =
     (case error_slot (mJanusTransactionMap conn) tid of
        None \<Rightarrow> Some conn
      | Some (i, p) \<Rightarrow> do { jt \<leftarrow> deref p; Some (close_transaction i conn) })"

subsection \<open>Events\<close>

text \<open>The first slot of the listener table with the feed.\<close>

fun find_listener :: "(u64 \<times> nat) list \<Rightarrow> u64 \<Rightarrow> nat option" where
  "find_listener [] hid = None"
| "find_listener ((f, c) # m) hid = (if f = hid then Some 0 else map_option Suc (find_listener m hid))"

fun find_handle :: "(u64 \<times> RtcJanusHandle ptr) list \<Rightarrow> u64 \<Rightarrow> nat option" where
  "find_handle [] hid = None"
| "find_handle ((jhId, jh) # m) hid = (if jhId = hid then Some 0 else map_option Suc (find_handle m hid))"

definition onPublisherJoined_callback :: "RtcJanusHandle \<Rightarrow> FRTCConnection \<Rightarrow> FRTCConnection" where
  "onPublisherJoined_callback jh conn = observe (onPublisherJoined (jh_handleId jh)) conn"

definition onPublisherRemoteJsep_callback :: "RtcJanusHandle \<Rightarrow> string \<Rightarrow> FRTCConnection \<Rightarrow> FRTCConnection option" where
  "onPublisherRemoteJsep_callback jh buf conn =
     (if \<not> validate buf then Some conn
      else case search buf ''jsep'' of
        Some v \<Rightarrow> do {
          saveJsep \<leftarrow> copy_str (MIN_SIZE * 100) v;
          Some (observe (onPublisherRemoteJsep (jh_handleId jh) saveJsep) conn)
        }
      | None \<Rightarrow> Some conn)"

definition subscriberHandleRemoteJsep_callback :: "RtcJanusHandle \<Rightarrow> string \<Rightarrow> FRTCConnection \<Rightarrow> FRTCConnection option" where
  "subscriberHandleRemoteJsep_callback jh buf conn =
     (if \<not> validate buf then Some conn
      else case search buf ''jsep'' of
        Some v \<Rightarrow> Some (observe (subscriberHandleRemoteJsep (jh_handleId jh) v) conn)
      | None \<Rightarrow> Some conn)"

definition onRemoteJsep :: "OnRemoteJsep \<Rightarrow> RtcJanusHandle \<Rightarrow> string \<Rightarrow> FRTCConnection \<Rightarrow> FRTCConnection option" where
  "onRemoteJsep f jh buf conn =
     (case f of
        OnPublisherRemoteJsep \<Rightarrow> onPublisherRemoteJsep_callback jh buf conn
      | SubscriberHandleRemoteJsep \<Rightarrow> subscriberHandleRemoteJsep_callback jh buf conn)"

text \<open>
  A step of an event handler either ends it, with the new state, or goes on with the next step.
\<close>

datatype 'a flow = Return FRTCConnection | Next 'a

text \<open>A member leaves the room.\<close>

definition event_leaving :: "string \<Rightarrow> FRTCConnection \<Rightarrow> unit flow option" where
  "event_leaving msg conn =
     (case search msg ''plugindata.data.leaving'' of
        None \<Rightarrow> Some (Next ())
      | Some v \<Rightarrow> do {
          hid \<leftarrow> number v;
          Some (if hid = 0 then Next ()
                else case find_listener (mPublisherWebListenerMap conn) hid of
                  Some i \<Rightarrow> Return (conn\<lparr>mPublisherWebListenerMap := (mPublisherWebListenerMap conn)[i := (0, 0)]\<rparr>)
                | None \<Rightarrow> Return (observe (onLeaving hid) conn))
        })"

text \<open>A feed is unpublished.\<close>

definition event_unpublished :: "string \<Rightarrow> FRTCConnection \<Rightarrow> unit flow option" where
  "event_unpublished msg conn =
     (case search msg ''plugindata.data.unpublished'' of
        None \<Rightarrow> Some (Next ())
      | Some v \<Rightarrow> do {
          s \<leftarrow> copy_str MIN_SIZE v;
          Some (if is_str ''ok'' s then Return (observe onUnpublished conn)
                else if atoll s \<noteq> 0 \<and> atoll s = mFeedId conn then Return (observe (onLeaving (atoll s)) conn)
                else Next ())
        })"

text \<open>The handle of the sender: its slot, or none, and whether the slot holds a pointer.\<close>

definition event_handle :: "string \<Rightarrow> FRTCConnection \<Rightarrow> (nat \<times> RtcJanusHandle ptr) option option" where
  "event_handle msg conn = do {
     handleId \<leftarrow> number (found (search msg ''sender''));
     Some (case find_handle (mJanusHandlesMap conn) handleId of
             None \<Rightarrow> None
           | Some i \<Rightarrow> (case snd (mJanusHandlesMap conn ! i) of Null \<Rightarrow> None | p \<Rightarrow> Some (i, p)))
   }"

definition event_joined :: "string \<Rightarrow> (nat \<times> RtcJanusHandle ptr) option \<Rightarrow> FRTCConnection \<Rightarrow> FRTCConnection option" where
  "event_joined msg jh conn =
     (case (jh, search msg ''plugindata.data.videoroom'') of
        (Some (i, p), Some v) \<Rightarrow>
          if is_str ''joined'' v then do {
            h \<leftarrow> deref p;
            (case jh_onJoined h of
               Null \<Rightarrow> Some conn
             | Dangling \<Rightarrow> None
             | Ptr f \<Rightarrow> Some (onPublisherJoined_callback h conn))
          } else Some conn
      | _ \<Rightarrow> Some conn)"

text \<open>A remote description is handed over once, and then the handle is freed.\<close>

definition event_jsep :: "string \<Rightarrow> string \<Rightarrow> (nat \<times> RtcJanusHandle ptr) option \<Rightarrow> FRTCConnection \<Rightarrow> unit flow option" where
  "event_jsep msg rest jh conn =
     (let feed = (case search msg ''plugindata.data.configured'' of
                    Some v \<Rightarrow> Some v
                  | None \<Rightarrow> search msg ''plugindata.data.id'')
      in case (search msg ''jsep'', feed, jh) of
           (Some jsep, Some fid, Some (i, p)) \<Rightarrow> do {
             h \<leftarrow> deref p;
             (case jh_onRemoteJsep h of
                Null \<Rightarrow> Some (Next ())
              | Dangling \<Rightarrow> None
              | Ptr f \<Rightarrow>
                  if is_str [] jsep then Some (Next ())
                  else do {
                    feedId \<leftarrow> number fid;
                    let conn = (if feedId \<noteq> 0 \<and> feedId = mFeedId conn then conn\<lparr>mFeedIdIsOnline := True\<rparr> else conn);
                    conn \<leftarrow> onRemoteJsep f h (msg @ rest) conn;
                    Some (Return (conn\<lparr>mJanusHandlesMap := (mJanusHandlesMap conn)[i := (fst (mJanusHandlesMap conn ! i), Dangling)]\<rparr>))
                  })
           }
         | _ \<Rightarrow> Some (Next ()))"

text \<open>The negative acknowledgements of a listener with a slow link.\<close>

definition event_nacks :: "string \<Rightarrow> FRTCConnection \<Rightarrow> unit flow option" where
  "event_nacks msg conn =
     (case search msg ''plugindata.data.nacks'' of
        Some v \<Rightarrow>
          if is_str ''listener_slow_link'' (found (search msg ''plugindata.data.videoroom'')) \<and> \<not> is_str [] v
          then do { nacks \<leftarrow> number v; Some (Return (observe (onListenerNACKs nacks) conn)) }
          else Some (Next ())
      | None \<Rightarrow> Some (Next ()))"

definition event_error :: "string \<Rightarrow> FRTCConnection \<Rightarrow> unit flow option" where
  "event_error msg conn =
     (case (search msg ''transaction'', search msg ''plugindata.data.error_code'', search msg ''plugindata.data.error'') of
        (Some t, Some ec, Some e) \<Rightarrow>
          if is_str [] t then Some (Next ())
          else do {
            error_code \<leftarrow> number ec;
            if is_str [] e then Some (Next ())
            else do { saveError \<leftarrow> copy_str MIN_SIZE e; Some (Return (observe (onRTCError (ucast error_code) saveError) conn)) }
          }
      | _ \<Rightarrow> Some (Next ()))"

text \<open>\<^verbatim>\<open>strncpy\<close> over the array that holds \<^verbatim>\<open>noname\<close>: a shorter name keeps the rest of it.\<close>

definition overwrite_name :: "string \<Rightarrow> string option" where
  "overwrite_name s = do { s \<leftarrow> copy_str MIN_SIZE s; Some (s @ drop (length s) ''noname'') }"

definition event_subscribe :: "env \<Rightarrow> u64 \<Rightarrow> FRTCConnection \<Rightarrow> FRTCConnection option" where
  "event_subscribe E pid conn =
     (if mAsListener conn \<and> mFeedId conn = 0 then
        if mAutoSubscribe conn then subscriberCreateHandle E pid conn else Some conn
      else if mAsListener conn \<and> mFeedId conn \<noteq> 0 \<and> mAsPublisher conn then
        if pid = mFeedId conn then subscriberCreateHandle E pid conn else Some conn
      else Some conn)"

definition event_publishers :: "env \<Rightarrow> string \<Rightarrow> FRTCConnection \<Rightarrow> FRTCConnection option" where
  "event_publishers E msg conn =
     (case (search msg ''plugindata.data.publishers.[0].id'', search msg ''plugindata.data.publishers.[0].display'') of
        (Some pid, Some disp) \<Rightarrow> do {
          pid \<leftarrow> number pid;
          if is_str [] disp then Some conn
          else do {
            name \<leftarrow> overwrite_name disp;
            let conn = observe (onRTCFeedComing pid name) conn;
            let conn = (if strncmp_eq ''web_listener'' name (length disp)
                        then conn\<lparr>mPublisherWebListenerMap := (mPublisherWebListenerMap conn)[0 := (pid, 1)]\<rparr> else conn);
            event_subscribe E pid conn
          }
        }
      | _ \<Rightarrow> Some conn)"

definition flow_then :: "unit flow \<Rightarrow> FRTCConnection option \<Rightarrow> FRTCConnection option" where
  "flow_then f rest = (case f of Return conn \<Rightarrow> Some conn | Next u \<Rightarrow> rest)"

definition onEvent :: "env \<Rightarrow> string \<Rightarrow> string \<Rightarrow> FRTCConnection \<Rightarrow> FRTCConnection option" where
  "onEvent E msg rest conn =
     (if \<not> validate msg then Some conn
      else do {
        f \<leftarrow> event_leaving msg conn;
        flow_then f (do {
          f \<leftarrow> event_unpublished msg conn;
          flow_then f (do {
            jh \<leftarrow> event_handle msg conn;
            conn \<leftarrow> event_joined msg jh conn;
            f \<leftarrow> event_jsep msg rest jh conn;
            flow_then f (do {
              f \<leftarrow> event_nacks msg conn;
              flow_then f (do {
                f \<leftarrow> event_error msg conn;
                flow_then f (event_publishers E msg conn)
              })
            })
          })
        })
      })"

subsection \<open>Session events\<close>

definition session_data :: "string \<Rightarrow> FRTCConnection \<Rightarrow> FRTCConnection option" where
  "session_data msg conn =
     (case search msg ''recvdata.data'' of
        None \<Rightarrow> Some conn
      | Some v \<Rightarrow> do {
          data \<leftarrow> copy_str MIN_SIZE v;
          from \<leftarrow> copy_str MIN_SIZE (found (search msg ''recvdata.from''));
          Some (case (search msg ''recvdata.internal'', search msg ''recvdata.from'') of
                  (Some internal, Some frm) \<Rightarrow>
                    if is_str ''true'' internal then observe (onRTCUserAttribute (atoll from) data) conn
                    else if is_str ''false'' internal then observe (onRTCUserMessage (atoll from) data) conn
                    else conn
                | _ \<Rightarrow> conn)
        })"

definition nonempty_str :: "string option \<Rightarrow> bool" where
  "nonempty_str v \<longleftrightarrow> (case v of None \<Rightarrow> False | Some s \<Rightarrow> \<not> is_str [] s)"

text \<open>The attribute is handed over as it stands in the message, with all that follows it.\<close>

definition session_attribute :: "string \<Rightarrow> string \<Rightarrow> u64 \<Rightarrow> FRTCConnection \<Rightarrow> FRTCConnection option" where
  "session_attribute msg rest user conn =
     (case search_at msg ''userevent.users.[0].attribute'' of
        None \<Rightarrow> Some conn
      | Some (v, len) \<Rightarrow>
          if len = 0 then Some conn
          else do {
            a \<leftarrow> copy_str MIN_SIZE (take len (drop v msg));
            Some (observe (onRTCUserAttribute user (drop v (msg @ rest))) conn)
          })"

definition session_user :: "string \<Rightarrow> string \<Rightarrow> FRTCConnection \<Rightarrow> FRTCConnection option" where
  "session_user msg rest conn =
     (case search msg ''userevent'' of
        None \<Rightarrow> Some conn
      | Some ue \<Rightarrow>
          let joined = search msg ''userevent.joined''; leaving = search msg ''userevent.leaving'';
              uid = search msg ''userevent.users.[0].id''; disp = search msg ''userevent.users.[0].display''
          in if nonempty_str joined then do {
               user \<leftarrow> number (found joined);
               name \<leftarrow> copy_str MIN_SIZE (found (search msg ''userevent.display''));
               Some (observe (onRTCUserJoinedRoom user name) conn)
             }
             else if nonempty_str leaving then do {
               user \<leftarrow> number (found leaving);
               Some (observe (onRTCUserLeavingRoom user) conn)
             }
             else if nonempty_str uid then do {
               user \<leftarrow> number (found uid);
               name \<leftarrow> (if nonempty_str disp then overwrite_name (found disp) else Some ''noname'');
               session_attribute msg rest user (observe (onRTCUserJoinedRoom user name) conn)
             }
             else Some conn)"

definition onSessionEvent :: "string \<Rightarrow> string \<Rightarrow> FRTCConnection \<Rightarrow> FRTCConnection option" where
  "onSessionEvent msg rest conn =
     (if \<not> validate msg then Some conn
      else do {
        conn \<leftarrow> session_data msg conn;
        session_user msg rest conn
      })"

subsection \<open>The WebSocket\<close>

definition onRTCClosed :: "FRTCConnection \<Rightarrow> FRTCConnection" where
  "onRTCClosed conn = observe onCirrusDisconnected (observe onRTCConnectError (conn\<lparr>mbQuitWatchDog := True\<rparr>))"

definition onRTCFailure :: "FRTCConnection \<Rightarrow> FRTCConnection" where
  "onRTCFailure conn = observe onRTCLoginError (conn\<lparr>mbQuitWatchDog := True\<rparr>)"

definition onRTCOpen :: "env \<Rightarrow> FRTCConnection \<Rightarrow> FRTCConnection option" where
  "onRTCOpen E conn = createSession E (observe onRTCLoginOK (conn\<lparr>mRTCConnected := True, mbAliving := True\<rparr>))"

definition media_event :: "string \<Rightarrow> string \<Rightarrow> FRTCConnection \<Rightarrow> FRTCConnection" where
  "media_event msg janus conn =
     (let sending = (case search msg ''receiving'' of Some v \<Rightarrow> is_str ''true'' janus | None \<Rightarrow> False);
          mediaType = (case search msg ''type'' of Some v \<Rightarrow> if is_str ''video'' v then 1 else 0 | None \<Rightarrow> 0)
      in observe (onRTCMediaStreamingEvent 0 mediaType sending) conn)"

definition onRTCMessage :: "env \<Rightarrow> string \<Rightarrow> string \<Rightarrow> FRTCConnection \<Rightarrow> FRTCConnection option" where
  "onRTCMessage E msg rest conn =
     (if \<not> mRTCConnected conn then Some conn
      else if \<not> validate msg then Some conn
      else case search msg ''janus'' of
        None \<Rightarrow> Some conn
      | Some janus \<Rightarrow>
          let tid = found (search msg ''transaction'')
          in if is_str ''success'' janus then transaction_success E msg rest tid conn
             else if is_str ''error'' janus then transaction_error tid conn
             else if is_str ''event'' janus then onEvent E msg rest conn
             else if is_str ''ack'' janus then Some (conn\<lparr>mbAliving := True\<rparr>)
             else if is_str ''sessionevent'' janus then onSessionEvent msg rest conn
             else if is_str ''webrtcup'' janus then do {
               handleId \<leftarrow> (case search msg ''sender'' of Some v \<Rightarrow> number v | None \<Rightarrow> Some 0);
               Some (observe (onRTCWebrtcUp handleId) conn)
             }
             else if is_str ''media'' janus then Some (media_event msg janus conn)
             else if is_str ''hangup'' janus then do {
               handleId \<leftarrow> (case search msg ''sender'' of
                              Some v \<Rightarrow> do { s \<leftarrow> copy_str 20 v; Some (atoll s) }
                            | None \<Rightarrow> Some 0);
               Some (observe (onRTCHangUp handleId) conn)
             }
             else if is_str ''slowlink'' janus then
               (case search msg ''nacks'' of
                  Some v \<Rightarrow> do { s \<leftarrow> copy_str 20 v; Some (observe (onNACKs (atoll s)) conn) }
                | None \<Rightarrow> Some conn)
             else Some conn)"

text \<open>
  The event handler of the WebSocket. When a connection has ended its memory is freed by the event
  manager, and the pointer to it stays in the connection.
\<close>

datatype ws_event = MG_EV_WS_OPEN | MG_EV_CONNECT | MG_EV_WS_MSG string string | MG_EV_CLOSE | MG_EV_ERROR

definition RTCConnection_baidurtc_client :: "env \<Rightarrow> ws_event \<Rightarrow> FRTCConnection \<Rightarrow> FRTCConnection option" where
  "RTCConnection_baidurtc_client E ev conn =
     (case ev of
        MG_EV_WS_OPEN \<Rightarrow> onRTCOpen E conn
      | MG_EV_CONNECT \<Rightarrow> Some conn
      | MG_EV_WS_MSG msg rest \<Rightarrow> onRTCMessage E msg rest conn
      | MG_EV_CLOSE \<Rightarrow> Some ((onRTCClosed conn)\<lparr>mWSConnetion := (if mWSConnetion conn = Null then Null else Dangling)\<rparr>)
      | MG_EV_ERROR \<Rightarrow> Some (onRTCClosed conn))"

end
