(* ===== verification/Unicode.thy ===== *)
theory Unicode
  imports JsonGrammar
begin

text \<open>
  The text coding of \<^verbatim>\<open>re/src/fmt/unicode.c\<close> and \<^verbatim>\<open>re/src/fmt/ch.c\<close>: escaping a string for a JSON
  message, and the way back. The print handler of \<^verbatim>\<open>struct re_printf\<close> is an argument: it takes the
  output so far and the next piece and returns an error code and the new output.
\<close>

section \<open>The functions\<close>

type_synonym 'a vph = "'a \<Rightarrow> string \<Rightarrow> err \<times> 'a"

text \<open>A step of the output and what follows it, unless it fails.\<close>

definition vph_then :: "err \<times> 'a \<Rightarrow> ('a \<Rightarrow> err \<times> 'a) \<Rightarrow> err \<times> 'a" where
  "vph_then r f = (if fst r \<noteq> OK then r else f (snd r))"

definition ch_hex :: "char \<Rightarrow> byte" where
  "ch_hex ch =
     (if 48 \<le> u8 ch \<and> u8 ch \<le> 57 then u8 ch - 48
      else if 65 \<le> u8 ch \<and> u8 ch \<le> 70 then u8 ch - 65 + 10
      else if 97 \<le> u8 ch \<and> u8 ch \<le> 102 then u8 ch - 97 + 10
      else 0)"

definition isxdigit :: "char \<Rightarrow> bool" where
  "isxdigit ch \<longleftrightarrow> ch \<in> set ''0123456789ABCDEFabcdef''"

definition hex_chars :: string where
  "hex_chars = ''0123456789ABCDEF''"

definition escape_char :: "char \<Rightarrow> char option" where
  "escape_char c =
     (if c = CHR 0x22 then Some CHR 0x22
      else if c = CHR 0x5C then Some CHR 0x5C
      else if c = CHR ''/'' then Some CHR ''/''
      else if c = CHR 0x08 then Some CHR ''b''
      else if c = CHR 0x0C then Some CHR ''f''
      else if c = CHR 0x0A then Some CHR ''n''
      else if c = CHR 0x0D then Some CHR ''r''
      else if c = CHR 0x09 then Some CHR ''t''
      else None)"

definition encode_char :: "char \<Rightarrow> string" where
  "encode_char c =
     (case escape_char c of
        Some ec \<Rightarrow> [CHR 0x5C, ec]
      | None \<Rightarrow>
          if u8 c < 0x20
          then [CHR 0x5C, CHR ''u'', CHR ''0'', CHR ''0'',
                hex_chars ! unat (drop_bit 4 (u8 c) AND 0xf), hex_chars ! unat (u8 c AND 0xf)]
          else [c])"

text \<open>The text is a C string: the loop stops at its end or at a NUL.\<close>

fun utf8_encode_str :: "'a vph \<Rightarrow> string \<Rightarrow> 'a \<Rightarrow> err \<times> 'a" where
  "utf8_encode_str vph [] a = (OK, a)"
| "utf8_encode_str vph (c # str) a =
     (if c = CHR 0x00 then (OK, a)
      else vph_then (vph a (encode_char c)) (utf8_encode_str vph str))"

definition utf8_encode :: "'a vph option \<Rightarrow> string option \<Rightarrow> 'a \<Rightarrow> err \<times> 'a" where
  "utf8_encode pf str a =
     (case pf of
        None \<Rightarrow> (EINVAL, a)
      | Some vph \<Rightarrow> (case str of None \<Rightarrow> (OK, a) | Some str \<Rightarrow> utf8_encode_str vph str a))"

definition byte_char :: "u32 \<Rightarrow> char" where
  "byte_char w = char_of (unat (ucast w :: byte))"

definition utf8_byteseq :: "u32 \<Rightarrow> string" where
  "utf8_byteseq cp =
     (if cp \<le> 0x7f then [byte_char cp]
      else if cp \<le> 0x7ff then
        [byte_char (0xc0 OR (drop_bit 6 cp AND 0x1f)), byte_char (0x80 OR (cp AND 0x3f))]
      else if cp \<le> 0xffff then
        [byte_char (0xe0 OR (drop_bit 12 cp AND 0x0f)), byte_char (0x80 OR (drop_bit 6 cp AND 0x3f)),
         byte_char (0x80 OR (cp AND 0x3f))]
      else if cp \<le> 0x10ffff then
        [byte_char (0xf0 OR (drop_bit 18 cp AND 0x07)), byte_char (0x80 OR (drop_bit 12 cp AND 0x3f)),
         byte_char (0x80 OR (drop_bit 6 cp AND 0x3f)), byte_char (0x80 OR (cp AND 0x3f))]
      else [byte_char 0xef, byte_char 0xbf, byte_char 0xbd])"

definition unescape_char :: "char \<Rightarrow> char" where
  "unescape_char ch =
     (if ch = CHR ''b'' then CHR 0x08
      else if ch = CHR ''f'' then CHR 0x0C
      else if ch = CHR ''n'' then CHR 0x0A
      else if ch = CHR ''r'' then CHR 0x0D
      else if ch = CHR ''t'' then CHR 0x09
      else ch)"

definition hex_value :: "char \<Rightarrow> char \<Rightarrow> char \<Rightarrow> char \<Rightarrow> u32" where
  "hex_value h1 h2 h3 h4 =
     push_bit 12 (ucast (ch_hex h1)) OR push_bit 8 (ucast (ch_hex h2)) OR push_bit 4 (ucast (ch_hex h3)) OR ucast (ch_hex h4)"

text \<open>\<open>uhi\<close> is the value of a pending high surrogate, or negative.\<close>

fun utf8_decode_from :: "'a vph \<Rightarrow> int \<Rightarrow> string \<Rightarrow> 'a \<Rightarrow> err \<times> 'a" where
  "utf8_decode_from vph uhi [] a = (OK, a)"
| "utf8_decode_from vph uhi (ch # s) a =
     (if ch \<noteq> CHR 0x5C then vph_then (vph a [ch]) (utf8_decode_from vph (-1) s)
      else case s of
        [] \<Rightarrow> (EBADMSG, a)
      | ch # s \<Rightarrow>
          if ch \<noteq> CHR ''u'' then vph_then (vph a [unescape_char ch]) (utf8_decode_from vph (-1) s)
          else case s of
            h1 # h2 # h3 # h4 # s \<Rightarrow>
              if \<not> isxdigit h1 \<or> \<not> isxdigit h2 \<or> \<not> isxdigit h3 \<or> \<not> isxdigit h4 then (EBADMSG, a)
              else
                let u = hex_value h1 h2 h3 h4
                in if 0xd800 \<le> u \<and> u \<le> 0xdbff then utf8_decode_from vph (uint ((u - 0xd800) * 0x400)) s a
                   else if 0xdc00 \<le> u \<and> u \<le> 0xdfff \<and> uhi < 0 then utf8_decode_from vph uhi s a
                   else
                     let u = (if 0xdc00 \<le> u \<and> u \<le> 0xdfff then of_int uhi + u - 0xdc00 + 0x10000 else u)
                     in vph_then (vph a (utf8_byteseq u)) (utf8_decode_from vph (-1) s)
          | _ \<Rightarrow> (EBADMSG, a))"

definition utf8_decode :: "'a vph option \<Rightarrow> string option \<Rightarrow> 'a \<Rightarrow> err \<times> 'a" where
  "utf8_decode pf pl a =
     (case pf of
        None \<Rightarrow> (EINVAL, a)
      | Some vph \<Rightarrow> (case pl of None \<Rightarrow> (OK, a) | Some s \<Rightarrow> utf8_decode_from vph (-1) s a))"

section \<open>Round trip\<close>

text \<open>Printing into a string, which does not fail.\<close>

definition to_str :: "string vph" where
  "to_str a s = (OK, a @ s)"

lemma vph_then_OK [simp]: "vph_then (OK, a) f = f a"
  by (simp add: vph_then_def)

lemma to_str_then [simp]: "vph_then (to_str a s) f = f (a @ s)"
  by (simp add: to_str_def)

lemma utf8_encode_str_to_str: "CHR 0x00 \<notin> set s \<Longrightarrow> utf8_encode_str to_str s a = (OK, a @ concat (map encode_char s))"
  by (induction s arbitrary: a) auto

lemma control_chars:
  "list_all (\<lambda>n. let c = char_of n; h3 = hex_chars ! unat (drop_bit 4 (u8 c) AND 0xf); h4 = hex_chars ! unat (u8 c AND 0xf) in
     isxdigit h3 \<and> isxdigit h4 \<and> hex_value CHR ''0'' CHR ''0'' h3 h4 = of_nat n \<and> utf8_byteseq (of_nat n) = [c]
     \<and> hex4 [CHR ''0'', CHR ''0'', h3, h4] (of_nat n)) [1..<32]"
  by code_simp

lemma code_lits: "code c = 0 \<longleftrightarrow> c = CHR 0x00" "code c = 34 \<longleftrightarrow> c = CHR 0x22" "code c = 92 \<longleftrightarrow> c = CHR 0x5C"
  by (subst of_char_eq_iff [where 'a = nat, symmetric]; simp)+

lemma less_control: "u8 c < 0x20 \<longleftrightarrow> code c < 32"
  by (simp add: word_less_nat_alt)

lemma control_char:
  assumes "u8 c < 0x20" "c \<noteq> CHR 0x00" "escape_char c = None"
  obtains h3 h4 where "encode_char c = [CHR 0x5C, CHR ''u'', CHR ''0'', CHR ''0'', h3, h4]" "isxdigit h3" "isxdigit h4"
    "hex_value CHR ''0'' CHR ''0'' h3 h4 = of_nat (code c)" "utf8_byteseq (of_nat (code c)) = [c]"
    "hex4 [CHR ''0'', CHR ''0'', h3, h4] (of_nat (code c))"
proof -
  have "code c \<noteq> 0" using assms(2) by (simp add: code_lits)
  with assms(1) less_control [of c] have "code c \<in> set [1..<32]" by simp
  from bspec [OF control_chars [unfolded list_all_iff Let_def] this, unfolded char_of_char] have
    *: "isxdigit (hex_chars ! unat (drop_bit 4 (u8 c) AND 0xf))" "isxdigit (hex_chars ! unat (u8 c AND 0xf))"
      "hex_value CHR ''0'' CHR ''0'' (hex_chars ! unat (drop_bit 4 (u8 c) AND 0xf)) (hex_chars ! unat (u8 c AND 0xf)) = of_nat (code c)"
      "utf8_byteseq (of_nat (code c)) = [c]"
      "hex4 [CHR ''0'', CHR ''0'', hex_chars ! unat (drop_bit 4 (u8 c) AND 0xf), hex_chars ! unat (u8 c AND 0xf)] (of_nat (code c))"
    by blast+
  show thesis by (rule that [OF _ *]) (use assms in \<open>simp add: encode_char_def\<close>)
qed

lemma decode_encode_char:
  assumes "c \<noteq> CHR 0x00"
  shows "utf8_decode_from to_str uhi (encode_char c @ s) a = utf8_decode_from to_str (-1) s (a @ [c])"
proof (cases "escape_char c")
  case None
  show ?thesis
  proof (cases "u8 c < 0x20")
    case True
    have "unat (of_nat (code c) :: u32) < 32" using True less_control [of c] by (simp add: unat_of_nat)
    then have "\<not> 0xd800 \<le> (of_nat (code c) :: u32)" "\<not> 0xdc00 \<le> (of_nat (code c) :: u32)" by (simp_all add: word_le_nat_alt)
    moreover obtain h3 h4 where "encode_char c = [CHR 0x5C, CHR ''u'', CHR ''0'', CHR ''0'', h3, h4]" "isxdigit h3" "isxdigit h4"
      "hex_value CHR ''0'' CHR ''0'' h3 h4 = of_nat (code c)" "utf8_byteseq (of_nat (code c)) = [c]"
      using control_char [OF True assms None] .
    moreover have "isxdigit CHR ''0''" by (simp add: isxdigit_def)
    ultimately show ?thesis by (simp add: Let_def)
  next
    case False
    then show ?thesis using None by (simp add: encode_char_def escape_char_def split: if_splits)
  qed
next
  case (Some ec)
  then show ?thesis by (auto simp: encode_char_def escape_char_def unescape_char_def split: if_splits)
qed

lemma decode_encode_chars:
  "CHR 0x00 \<notin> set s \<Longrightarrow> utf8_decode_from to_str uhi (concat (map encode_char s)) a = (OK, a @ s)"
  by (induction s arbitrary: uhi a) (auto simp: decode_encode_char)

text \<open>
  C22. Decoding an encoded text gives it back, for every text, also one that is not UTF-8: all
  bytes but NUL, which ends a C string, survive the escaping.
\<close>

theorem utf8_roundtrip:
  assumes "CHR 0x00 \<notin> set s"
  shows "\<exists>t. utf8_encode (Some to_str) (Some s) [] = (OK, t) \<and> utf8_decode (Some to_str) (Some t) [] = (OK, s)"
  using utf8_encode_str_to_str [OF assms] decode_encode_chars [OF assms]
  by (simp add: utf8_encode_def utf8_decode_def)

theorem utf8_roundtrip_witness:
  "\<exists>t. utf8_encode (Some to_str) (Some [CHR ''v'', CHR 0x22, CHR 0x0D, CHR 0x01, CHR 0xFF]) [] = (OK, t)
     \<and> utf8_decode (Some to_str) (Some t) [] = (OK, [CHR ''v'', CHR 0x22, CHR 0x0D, CHR 0x01, CHR 0xFF])"
  by (rule utf8_roundtrip) simp

section \<open>Encoded text in a JSON document\<close>

lemma escape_char_ascii: "escape_char c = Some e \<Longrightarrow> code c < 128"
  by (simp add: escape_char_def split: if_splits) (clarify, simp)+

lemma encode_char_high:
  assumes "128 \<le> code c"
  shows "encode_char c = [c]"
proof -
  have "escape_char c = None" using assms escape_char_ascii [of c] by (cases "escape_char c") auto
  moreover have "\<not> u8 c < 0x20" unfolding less_control using assms by simp
  ultimately show ?thesis by (simp add: encode_char_def)
qed

lemma code_high: "128 \<le> (n :: nat) \<Longrightarrow> n < 256 \<Longrightarrow> 128 \<le> code (char_of n)"
  by (simp add: take_bit_nat_eq_self)

lemma utf8_bytes_high:
  assumes "scalar_value cp" "0x80 \<le> cp" "c \<in> set (utf8_bytes cp)"
  shows "128 \<le> code c"
proof -
  have "\<exists>n :: nat. c = char_of n \<and> 128 \<le> n \<and> n < 256"
    using assms by (auto simp: utf8_bytes_def scalar_value_def split: if_splits)
  then show ?thesis using code_high by blast
qed

lemma encode_bytes_high:
  assumes "scalar_value cp" "0x80 \<le> cp"
  shows "concat (map encode_char (utf8_bytes cp)) = utf8_bytes cp"
proof -
  have "concat (map encode_char (utf8_bytes cp)) = concat (map (\<lambda>c. [c]) (utf8_bytes cp))"
    by (rule arg_cong [where f = concat], rule map_cong [OF refl]) (rule encode_char_high [OF utf8_bytes_high [OF assms]])
  then show ?thesis by (simp only: concat_map_singleton map_ident)
qed

lemma jchars_encode_ascii:
  assumes "code c < 0x80" "c \<noteq> CHR 0x00" "jchars s"
  shows "jchars (encode_char c @ s)"
proof (cases "escape_char c")
  case None
  show ?thesis
  proof (cases "u8 c < 0x20")
    case True
    obtain h3 h4 where e: "encode_char c = [CHR 0x5C, CHR ''u'', CHR ''0'', CHR ''0'', h3, h4]"
      and h: "hex4 [CHR ''0'', CHR ''0'', h3, h4] (of_nat (code c))"
      using control_char [OF True assms(2) None] .
    have u: "unat (of_nat (code c) :: u16) = code c" "code c < 32" "code c \<noteq> 0"
      using True assms(2) less_control [of c] by (simp_all add: unat_of_nat code_lits take_bit_nat_eq_self)
    then have "of_nat (code c) \<noteq> (0 :: u16)" "\<not> isHighSurrogate (of_nat (code c))" "\<not> isLowSurrogate (of_nat (code c))"
      by (auto simp: isHighSurrogate_def isLowSurrogate_def word_le_nat_alt unat_eq_0 [symmetric] simp del: unat_eq_0)
    from jchars.uni [OF h this assms(3)] show ?thesis by (simp add: e)
  next
    case False
    then have "encode_char c = utf8_bytes (code c)" "32 \<le> code c" "code c \<noteq> 0x22" "code c \<noteq> 0x5C" "scalar_value (code c)"
      using None assms(1) less_control [of c]
      by (auto simp: encode_char_def escape_char_def utf8_bytes_def scalar_value_def code_lits split: if_splits)
    then show ?thesis using jchars.plain assms(3) by metis
  qed
next
  case (Some ec)
  then show ?thesis using jchars.esc [OF _ assms(3), of ec] by (auto simp: encode_char_def escape_char_def split: if_splits)
qed

definition utf8_text :: "nat list \<Rightarrow> string" where
  "utf8_text cps = concat (map utf8_bytes cps)"

lemma jchars_encode_text:
  assumes "list_all (\<lambda>cp. scalar_value cp \<and> cp \<noteq> 0) cps"
  shows "jchars (concat (map encode_char (utf8_text cps)))"
  using assms
proof (induction cps)
  case Nil
  show ?case by (simp add: utf8_text_def jchars.nil)
next
  case (Cons cp cps)
  let ?s = "concat (map encode_char (utf8_text cps))"
  have s: "jchars ?s" and cp: "scalar_value cp" "cp \<noteq> 0" using Cons by simp_all
  have split: "concat (map encode_char (utf8_text (cp # cps))) = concat (map encode_char (utf8_bytes cp)) @ ?s"
    by (simp add: utf8_text_def)
  show ?case
  proof (cases "cp < 0x80")
    case True
    then have "code (char_of cp) = cp" by (simp add: take_bit_nat_eq_self)
    then have "jchars (encode_char (char_of cp) @ ?s)"
      using True cp code_lits(1) [of "char_of cp"] by (intro jchars_encode_ascii [OF _ _ s]) simp_all
    then show ?thesis unfolding split using True by (simp add: utf8_bytes_def)
  next
    case False
    then show ?thesis unfolding split using encode_bytes_high [OF cp(1)] jchars.plain [OF cp(1) _ _ _ s] by simp
  qed
qed

lemma utf8_text_no_nul: "list_all (\<lambda>cp. scalar_value cp \<and> cp \<noteq> 0) cps \<Longrightarrow> CHR 0x00 \<notin> set (utf8_text cps)"
proof -
  have "CHR 0x00 \<notin> set (utf8_bytes cp)" if "scalar_value cp" "cp \<noteq> 0" for cp
  proof (cases "cp < 0x80")
    case True
    then have "code (char_of cp) = cp" by (simp add: take_bit_nat_eq_self)
    then show ?thesis using True that(2) code_lits(1) [of "char_of cp"] by (auto simp: utf8_bytes_def)
  next
    case False
    then show ?thesis using utf8_bytes_high [OF that(1), of "CHR 0x00"] by auto
  qed
  then show "list_all (\<lambda>cp. scalar_value cp \<and> cp \<noteq> 0) cps \<Longrightarrow> CHR 0x00 \<notin> set (utf8_text cps)"
    by (auto simp: utf8_text_def list_all_iff)
qed

lemma utf8_encode_json:
  assumes "list_all (\<lambda>cp. scalar_value cp \<and> cp \<noteq> 0) cps"
  obtains t where "utf8_encode (Some to_str) (Some (utf8_text cps)) [] = (OK, t)" "jchars t"
  using jchars_encode_text [OF assms] utf8_encode_str_to_str [OF utf8_text_no_nul [OF assms], of "[]"]
  by (auto simp: utf8_encode_def)

end
