(* ===== verification/RtcMessages.thy ===== *)
theory RtcMessages
  imports RtcConnection Unicode
begin

text \<open>
  The requests of the signalling connection as JSON documents: what the format strings of
  \<^verbatim>\<open>RTCConnection.c\<close> produce is in the grammar of theory \<^verbatim>\<open>JsonGrammar\<close> when the texts that are filled
  in are, and numbers are read back as they were printed.
\<close>

section \<open>Numbers\<close>

lemma digit_char_code: "d < 10 \<Longrightarrow> code (digit_char d) = 48 + d"
  by (simp add: digit_char_def take_bit_nat_eq_self)

lemma isdigit_digit_char: "d < 10 \<Longrightarrow> isdigit (digit_char d)"
  by (simp add: isdigit_code digit_char_code)

lemma dec_nonempty: "dec n \<noteq> []"
  by (subst dec.simps) simp

lemma dec_digits: "list_all isdigit (dec n)"
  by (induction n rule: dec.induct) (subst dec.simps, auto simp: isdigit_digit_char)

lemma dec_value: "foldl (\<lambda>v c. v * 10 + (of_char c - 48)) 0 (dec n) = (int n :: int)"
proof (induction n rule: dec.induct)
  case (1 n)
  have c: "of_char (digit_char d) = (48 + int d :: int)" if "d < 10" for d
    using digit_char_code [OF that] by (metis of_nat_of_char of_nat_add of_nat_numeral)
  show ?case
  proof (cases "n < 10")
    case True
    then show ?thesis by (subst dec.simps) (simp add: c)
  next
    case False
    then show ?thesis using 1 c [of "n mod 10"] by (subst dec.simps) (simp add: zmod_int zdiv_int)
  qed
qed

lemma dec_hd: "n \<noteq> 0 \<Longrightarrow> hd (dec n) \<noteq> CHR ''0''"
proof (induction n rule: dec.induct)
  case (1 n)
  show ?case
  proof (cases "n < 10")
    case True
    have "code (digit_char n) \<noteq> code CHR ''0''" using True 1 digit_char_code [OF True] by simp
    then show ?thesis using True by (subst dec.simps) auto
  next
    case False
    then show ?thesis using 1 dec_nonempty [of "n div 10"] by (subst dec.simps) (auto simp: hd_append)
  qed
qed
lemma jint_dec: "jint (dec n)"
proof (cases "n = 0")
  case True
  have "dec 0 = ''0''" by code_simp
  then show ?thesis unfolding True jint_def by (intro exI [of _ "[]"] exI [of _ "''0''"]) simp
next
  case False
  then show ?thesis unfolding jint_def
    by (intro exI [of _ "[]"] exI [of _ "dec n"]) (simp add: jdigits_def dec_nonempty dec_digits dec_hd)
qed

lemma jint_minus: "jint (dec n) \<Longrightarrow> n \<noteq> 0 \<Longrightarrow> jint (CHR ''-'' # dec n)"
  unfolding jint_def
  by (intro exI [of _ "''-''"] exI [of _ "dec n"]) (simp add: jdigits_def dec_nonempty dec_digits dec_hd)

lemma jvalue_int: "jint s \<Longrightarrow> jvalue d s"
  unfolding jscalar_def jnumber_def by (intro scalar, unfold jscalar_def jnumber_def) (fastforce simp: jfrac_def jexp_def)

lemma jvalue_lld: "jvalue d (lld w)"
  by (intro jvalue_int) (simp add: lld_def jint_dec jint_minus)

lemma atoll_lld [simp]: "atoll (lld w) = w"
proof -
  have dv: "digits_value (dec n) = int n" for n
  proof -
    have "takeWhile isdigit (dec n) = dec n" using dec_digits [of n] by (simp only: takeWhile_eq_all_conv list_all_iff)
    then show ?thesis unfolding digits_value_def by (simp only: dec_value)
  qed
  have hd: "isdigit (hd (dec n))" for n using dec_digits [of n] dec_nonempty [of n] by (cases "dec n") auto
  have nodash: "hd (dec n) \<noteq> CHR ''-''" "hd (dec n) \<noteq> CHR ''+''" "\<not> isspace (hd (dec n))" for n
    using hd [of n] by (auto simp: isdigit_code isspace_def)
  have drop: "dropWhile isspace (dec n) = dec n" for n using nodash(3) [of n] dec_nonempty [of n] by (cases "dec n") auto
  have range: "- (2 ^ 63) \<le> sint w" "sint w \<le> 2 ^ 63 - 1"
    using sint_range_size [of w] by (auto simp: word_size)
  show ?thesis
  proof (cases "sint w < 0")
    case True
    then have "atoll (lld w) = of_int (sint w)"
      using range by (simp add: atoll_def lld_def isspace_def dv Let_def)
    then show ?thesis by simp
  next
    case False
    then have "atoll (lld w) = of_int (sint w)"
      using range by (simp add: atoll_def lld_def dv Let_def drop nodash dec_nonempty)
    then show ?thesis by simp
  qed
qed

lemma dec_length: "n < 10 ^ Suc k \<Longrightarrow> length (dec n) \<le> Suc k"
proof (induction k arbitrary: n)
  case 0
  then show ?case by (subst dec.simps) simp
next
  case (Suc k)
  have "length (dec (n div 10)) \<le> Suc k" by (rule Suc.IH) (use Suc.prems in \<open>simp add: less_mult_imp_div_less\<close>)
  then show ?case by (subst dec.simps) simp
qed

lemma lld_length: "length (lld w) < MIN_SIZE"
proof -
  have "\<bar>sint w\<bar> \<le> 2 ^ 63" using sint_range_size [of w] by (auto simp: word_size)
  then have "nat \<bar>sint w\<bar> < 10 ^ Suc 19" by simp
  then have "length (dec (nat \<bar>sint w\<bar>)) \<le> 20" using dec_length [of "nat \<bar>sint w\<bar>" 19] by simp
  then show ?thesis by (auto simp: lld_def MIN_SIZE_def)
qed

lemma number_lld [simp]: "number (lld w) = Some w"
  by (simp add: number_def copy_str_def lld_length)

text \<open>
  Numbers survive the way through a message: the text that a 64-bit identifier is printed as is
  converted back to the same identifier, also when it is above the signed range, and it fits the
  small array it is copied to.
\<close>

theorem lld_atoll: "atoll (lld w) = w \<and> number (lld w) = Some w"
  by simp

section \<open>Objects\<close>

definition plain_char :: "char \<Rightarrow> bool" where
  "plain_char c \<longleftrightarrow> 32 \<le> code c \<and> code c < 128 \<and> code c \<noteq> 34 \<and> code c \<noteq> 92"

text \<open>A text that needs no escape.\<close>

definition plain :: "string \<Rightarrow> bool" where
  "plain s \<longleftrightarrow> list_all plain_char s"

lemma jchars_plain: "plain s \<Longrightarrow> jchars s"
proof (induction s)
  case Nil
  show ?case by (rule jchars.nil)
next
  case (Cons c s)
  then have c: "plain_char c" and s: "jchars s" by (simp_all add: plain_def)
  have "jchars (utf8_bytes (code c) @ s)"
    by (rule jchars.plain [OF _ _ _ _ s]) (use c in \<open>simp_all add: plain_char_def scalar_value_def\<close>)
  then show ?case using c by (simp add: plain_char_def utf8_bytes_def)
qed

fun jmems :: "(string \<times> string \<times> string \<times> string) list \<Rightarrow> string" where
  "jmems [] = []"
| "jmems [(w, k, u, v)] = w @ [CHR 0x22] @ k @ [CHR 0x22] @ '':'' @ u @ v"
| "jmems ((w, k, u, v) # ms) = w @ [CHR 0x22] @ k @ [CHR 0x22] @ '':'' @ u @ v @ '','' @ jmems ms"

fun jmem_ok :: "nat \<Rightarrow> string \<times> string \<times> string \<times> string \<Rightarrow> bool" where
  "jmem_ok d (w, k, u, v) \<longleftrightarrow> jws w \<and> jchars k \<and> jws u \<and> jvalue d v"

lemma jws_nil [simp]: "jws []" and jws_blank [simp]: "jws '' ''"
  by (simp_all add: jws_def isspace_def)

lemma jstring_quoted: "jchars k \<Longrightarrow> jstring k ([CHR 0x22] @ k @ [CHR 0x22])"
  by (simp add: jstring_def)

lemma jmems_members:
  assumes "ms \<noteq> []" "\<forall>m \<in> set ms. jmem_ok d m"
  shows "\<exists>w kvs s. jws w \<and> jmembers d kvs s \<and> jmems ms = w @ s"
  using assms
proof (induction ms rule: jmems.induct)
  case (2 w k u v)
  then have ok: "jws w" "jchars k" "jws u" "jvalue d v" by simp_all
  from jvalue_jelems_jmembers.mem [OF jstring_quoted [OF ok(2)] jws_nil ok(3,4) jws_nil] ok(1) show ?case by fastforce
next
  case (3 w k u v m ms)
  then have ok: "jws w" "jchars k" "jws u" "jvalue d v" by simp_all
  from 3 obtain w' kvs s where s: "jws w'" "jmembers d kvs s" "jmems (m # ms) = w' @ s" by auto
  from mems [OF jstring_quoted [OF ok(2)] jws_nil ok(3,4) jws_nil s(1,2)] ok(1) s(3) show ?case by fastforce
qed simp

lemma jvalue_obj:
  assumes "ms \<noteq> []" "\<forall>m \<in> set ms. jmem_ok d m"
  shows "jvalue (Suc d) (''{'' @ jmems ms @ ''}'')"
  using jmems_members [OF assms] obj by fastforce

lemma jvalue_str: "jchars s \<Longrightarrow> jvalue d ([CHR 0x22] @ s @ [CHR 0x22])"
  by (rule scalar) (use jstring_quoted in \<open>auto simp: jscalar_def\<close>)

lemma jvalue_bool: "jvalue d (bool_str b)" "jvalue d ''true''" "jvalue d ''false''"
  by (rule scalar; simp add: jscalar_def bool_str_def)+

definition q :: "string \<Rightarrow> string" where
  "q s = [CHR 0x22] @ s @ [CHR 0x22]"

definition jobj :: "(string \<times> string \<times> string \<times> string) list \<Rightarrow> string" where
  "jobj ms = ''{'' @ jmems ms @ ''}''"

lemma jvalue_q: "jchars s \<Longrightarrow> jvalue d (q s)"
  unfolding q_def by (rule jvalue_str)

lemma jvalue_jobj: "ms \<noteq> [] \<Longrightarrow> \<forall>m \<in> set ms. jmem_ok d m \<Longrightarrow> jvalue (Suc d) (jobj ms)"
  unfolding jobj_def by (rule jvalue_obj)

lemma dec10000: "dec 10000 = ''10000''"
proof -
  have "digit_char 0 = CHR ''0''" "digit_char 1 = CHR ''1''" by code_simp+
  then show ?thesis by (simp add: dec.simps [of 10000] dec.simps [of 1000] dec.simps [of 100] dec.simps [of 10] dec.simps [of "Suc 0"])
qed

lemmas json_intros = jvalue_q jvalue_jobj jvalue_bool jvalue_lld jvalue_int jint_dec
lemmas plain_lit = plain_def plain_char_def

section \<open>The requests\<close>

text \<open>Each format string is an object of the grammar when its texts and values are.\<close>

lemma g_rtc_create_session_json:
  assumes "jchars tid" "jchars tag" "jchars ip" "jchars uri"
  shows "jvalue (Suc (Suc n)) (g_rtc_create_session tid tag ip uri)"
proof -
  have "g_rtc_create_session tid tag ip uri = jobj [([], ''janus'', [], q ''create''),
       ([], ''transaction'', [], q tid),
       ([], ''sdktag'', [], q tag),
       ([], ''janusIp'', [], q ip),
       ([], ''uri'', [], q uri),
       ([], ''userevent'', [], ''true''),
       ([], ''sessionevent'', [], ''true'')]"
    by (simp add: g_rtc_create_session_def jobj_def q_def)
  then show ?thesis using assms by (simp add: json_intros jchars_plain plain_lit)
qed

lemma g_rtc_create_room_json:
  assumes "jchars app" "jchars key" "jchars room" "jchars descr" "jchars vc" "jchars ac" "jchars tid" "\<And>m. jvalue m uid" "\<And>m. jvalue m sid" "\<And>m. jvalue m hid"
  shows "jvalue (Suc (Suc n)) (g_rtc_create_room uid app key room descr vc ac tid sid hid)"
proof -
  have "g_rtc_create_room uid app key room descr vc ac tid sid hid = jobj [([], ''janus'', [], q ''message''),
       ([], ''body'', [], jobj [([], ''request'', [], q ''create''),
       ([], ''id'', [], uid),
       ([], ''app_id'', [], q app),
       ([], key, [], q room),
       ([], ''description'', [], q descr),
       ([], ''publishers'', [], dec 10000),
       ([], ''is_private'', [], ''false''),
       ([], ''videocodec'', [], q vc),
       ([], ''audiocodec'', [], q ac)]),
       ([], ''transaction'', [], q tid),
       ([], ''session_id'', '' '', sid),
       ([], ''handle_id'', [], hid)]"
    by (simp add: g_rtc_create_room_def jobj_def q_def dec10000)
  then show ?thesis using assms by (simp add: json_intros jchars_plain plain_lit)
qed

lemma g_rtc_keep_alive_json:
  assumes "jchars tid" "\<And>m. jvalue m sid"
  shows "jvalue (Suc (Suc n)) (g_rtc_keep_alive sid tid)"
proof -
  have "g_rtc_keep_alive sid tid = jobj [([], ''janus'', [], q ''keepalive''),
       ([], ''session_id'', '' '', sid),
       ([], ''transaction'', [], q tid)]"
    by (simp add: g_rtc_keep_alive_def jobj_def q_def)
  then show ?thesis using assms by (simp add: json_intros jchars_plain plain_lit)
qed

lemma g_rtc_attach_cmd_json:
  assumes "jchars tid" "\<And>m. jvalue m sid"
  shows "jvalue (Suc (Suc n)) (g_rtc_attach_cmd tid sid)"
proof -
  have "g_rtc_attach_cmd tid sid = jobj [([], ''janus'', [], q ''attach''),
       ([], ''plugin'', [], q ''janus.plugin.videoroom''),
       ([], ''transaction'', [], q tid),
       ([], ''session_id'', '' '', sid)]"
    by (simp add: g_rtc_attach_cmd_def jobj_def q_def)
  then show ?thesis using assms by (simp add: json_intros jchars_plain plain_lit)
qed

lemma g_rtc_join_room_json:
  assumes "jchars disp" "jchars app" "jchars name" "jchars token" "jchars tid" "\<And>m. jvalue m room" "\<And>m. jvalue m uid" "\<And>m. jvalue m sid" "\<And>m. jvalue m hid"
  shows "jvalue (Suc (Suc n)) (g_rtc_join_room room disp uid app name token tid sid hid)"
proof -
  have "g_rtc_join_room room disp uid app name token tid sid hid = jobj [([], ''janus'', [], q ''message''),
       ([], ''body'', [], jobj [([], ''request'', [], q ''join''),
       ([], ''room'', [], room),
       ([], ''ptype'', [], q ''publisher''),
       ([], ''display'', [], q disp),
       ([], ''id'', [], uid),
       ([], ''app_id'', [], q app),
       ([], ''room_name'', [], q name),
       ([], ''role'', [], q ''publisher''),
       ([], ''token'', [], q token)]),
       ([], ''transaction'', [], q tid),
       ([], ''session_id'', [], sid),
       ([], ''handle_id'', [], hid)]"
    by (simp add: g_rtc_join_room_def jobj_def q_def)
  then show ?thesis using assms by (simp add: json_intros jchars_plain plain_lit)
qed

lemma g_rtc_offer_sdp_json:
  assumes "jchars sdp" "jchars tid" "\<And>m. jvalue m a" "\<And>m. jvalue m v" "\<And>m. jvalue m d" "\<And>m. jvalue m sid" "\<And>m. jvalue m hid"
  shows "jvalue (Suc (Suc n)) (g_rtc_offer_sdp a v d sdp tid sid hid)"
proof -
  have "g_rtc_offer_sdp a v d sdp tid sid hid = jobj [([], ''janus'', [], q ''message''),
       ([], ''body'', [], jobj [([], ''request'', [], q ''configure''),
       ([], ''audio'', [], a),
       ([], ''video'', [], v),
       ([], ''data'', [], d)]),
       ([], ''jsep'', [], jobj [([], ''type'', [], q ''OFFER''),
       ([], ''sdp'', [], q sdp)]),
       ([], ''transaction'', [], q tid),
       ([], ''session_id'', [], sid),
       ([], ''handle_id'', [], hid)]"
    by (simp add: g_rtc_offer_sdp_def jobj_def q_def)
  then show ?thesis using assms by (simp add: json_intros jchars_plain plain_lit)
qed

lemma g_rtc_trickle_complete_cmd_json:
  assumes "jchars tid" "\<And>m. jvalue m sid" "\<And>m. jvalue m hid"
  shows "jvalue (Suc (Suc n)) (g_rtc_trickle_complete_cmd tid sid hid)"
proof -
  have "g_rtc_trickle_complete_cmd tid sid hid = jobj [([], ''janus'', [], q ''trickle''),
       ([], ''candidate'', [], jobj [([], ''completed'', [], ''true'')]),
       ([], ''transaction'', [], q tid),
       ([], ''session_id'', [], sid),
       ([], ''handle_id'', [], hid)]"
    by (simp add: g_rtc_trickle_complete_cmd_def jobj_def q_def)
  then show ?thesis using assms by (simp add: json_intros jchars_plain plain_lit)
qed

lemma g_rtc_subscriber_join_room_json:
  assumes "jchars app" "jchars name" "jchars role" "jchars token" "jchars tid" "\<And>m. jvalue m room" "\<And>m. jvalue m uid" "\<And>m. jvalue m feed" "\<And>m. jvalue m sid" "\<And>m. jvalue m hid"
  shows "jvalue (Suc (Suc n)) (g_rtc_subscriber_join_room room uid app name role token feed tid sid hid)"
proof -
  have "g_rtc_subscriber_join_room room uid app name role token feed tid sid hid = jobj [([], ''janus'', [], q ''message''),
       ([], ''body'', [], jobj [([], ''request'', [], q ''join''),
       ([], ''room'', [], room),
       ([], ''ptype'', [], q ''listener''),
       ([], ''id'', [], uid),
       ([], ''app_id'', [], q app),
       ([], ''room_name'', [], q name),
       ([], ''role'', [], q role),
       ([], ''token'', [], q token),
       ([], ''feed'', [], feed)]),
       ([], ''transaction'', [], q tid),
       ([], ''session_id'', [], sid),
       ([], ''handle_id'', [], hid)]"
    by (simp add: g_rtc_subscriber_join_room_def jobj_def q_def)
  then show ?thesis using assms by (simp add: json_intros jchars_plain plain_lit)
qed

lemma g_rtc_answer_sdp_json:
  assumes "jchars sdp" "jchars tid" "\<And>m. jvalue m room" "\<And>m. jvalue m sid" "\<And>m. jvalue m hid"
  shows "jvalue (Suc (Suc n)) (g_rtc_answer_sdp room sdp tid sid hid)"
proof -
  have "g_rtc_answer_sdp room sdp tid sid hid = jobj [([], ''janus'', [], q ''message''),
       ([], ''body'', [], jobj [([], ''request'', [], q ''start''),
       ([], ''room'', [], room)]),
       ([], ''jsep'', [], jobj [([], ''type'', [], q ''ANSWER''),
       ([], ''sdp'', [], q sdp)]),
       ([], ''transaction'', [], q tid),
       ([], ''session_id'', [], sid),
       ([], ''handle_id'', [], hid)]"
    by (simp add: g_rtc_answer_sdp_def jobj_def q_def)
  then show ?thesis using assms by (simp add: json_intros jchars_plain plain_lit)
qed

lemma g_rtc_config_cmd_json:
  assumes "jchars tid" "\<And>m. jvalue m a" "\<And>m. jvalue m v" "\<And>m. jvalue m d" "\<And>m. jvalue m sid" "\<And>m. jvalue m hid"
  shows "jvalue (Suc (Suc n)) (g_rtc_config_cmd a v d tid sid hid)"
proof -
  have "g_rtc_config_cmd a v d tid sid hid = jobj [([], ''janus'', [], q ''message''),
       ([], ''body'', [], jobj [([], ''request'', [], q ''configure''),
       ('' '', ''audio'', [], a),
       ([], ''video'', [], v),
       ([], ''data'', [], d)]),
       ([], ''transaction'', [], q tid),
       ([], ''session_id'', [], sid),
       ([], ''handle_id'', [], hid)]"
    by (simp add: g_rtc_config_cmd_def jobj_def q_def)
  then show ?thesis using assms by (simp add: json_intros jchars_plain plain_lit)
qed

lemma g_rtc_sendmsg_cmd_json:
  assumes "jchars tid" "jchars msg" "jchars internal" "\<And>m. jvalue m room" "\<And>m. jvalue m uid" "\<And>m. jvalue m to" "\<And>m. jvalue m sid"
  shows "jvalue (Suc (Suc n)) (g_rtc_sendmsg_cmd tid room uid to msg internal sid)"
proof -
  have "g_rtc_sendmsg_cmd tid room uid to msg internal sid = jobj [([], ''janus'', [], q ''message''),
       ([], ''transaction'', [], q tid),
       ([], ''body'', [], jobj [([], ''request'', [], q ''senddata''),
       ([], ''room'', [], room),
       ([], ''id'', [], uid),
       ([], ''to'', [], to),
       ([], ''data'', [], q msg),
       ([], ''internal'', [], q internal)]),
       ([], ''session_id'', [], sid)]"
    by (simp add: g_rtc_sendmsg_cmd_def jobj_def q_def)
  then show ?thesis using assms by (simp add: json_intros jchars_plain plain_lit)
qed

lemma g_rtc_unpublish_cmd_json:
  assumes "jchars tid" "\<And>m. jvalue m sid" "\<And>m. jvalue m hid"
  shows "jvalue (Suc (Suc n)) (g_rtc_unpublish_cmd tid sid hid)"
proof -
  have "g_rtc_unpublish_cmd tid sid hid = jobj [([], ''janus'', [], q ''message''),
       ([], ''body'', [], jobj [([], ''request'', [], q ''unpublish'')]),
       ([], ''transaction'', [], q tid),
       ([], ''session_id'', [], sid),
       ([], ''handle_id'', [], hid)]"
    by (simp add: g_rtc_unpublish_cmd_def jobj_def q_def)
  then show ?thesis using assms by (simp add: json_intros jchars_plain plain_lit)
qed

lemma g_rtc_detach_cmd_json:
  assumes "jchars tid" "\<And>m. jvalue m sid" "\<And>m. jvalue m hid"
  shows "jvalue (Suc (Suc n)) (g_rtc_detach_cmd tid sid hid)"
proof -
  have "g_rtc_detach_cmd tid sid hid = jobj [([], ''janus'', [], q ''detach''),
       ([], ''transaction'', [], q tid),
       ([], ''session_id'', [], sid),
       ([], ''handle_id'', [], hid)]"
    by (simp add: g_rtc_detach_cmd_def jobj_def q_def)
  then show ?thesis using assms by (simp add: json_intros jchars_plain plain_lit)
qed

end
