(* ===== verification/RtcRun.thy ===== *)
theory RtcRun
  imports RtcMessages "HOL-Library.Sublist"
begin

text \<open>
  Runs of the signalling connection of \<^verbatim>\<open>RTCConnection.c\<close>: events of the WebSocket and calls of the
  client in any order. The table of transactions is well-formed in every run, replies reach the
  callback that waits for them, and every request sent is a JSON document.
\<close>

section \<open>Runs\<close>

text \<open>
  The flag says whether the texts that come from outside are fit for a JSON message: the parameters
  need no escape, the user is a number and descriptions are escaped.
\<close>

inductive conn_step :: "bool \<Rightarrow> FRTCConnection \<Rightarrow> FRTCConnection \<Rightarrow> bool" for js :: bool where
  ws: "RTCConnection_baidurtc_client E ev c = Some c' \<Longrightarrow> conn_step js c c'"
| connect: "js \<longrightarrow> plain url \<Longrightarrow> connecting url cnt ok c = Some (n, c') \<Longrightarrow> conn_step js c c'"
| keepalive: "keepAlive E c = Some c' \<Longrightarrow> conn_step js c c'"
| offer: "js \<longrightarrow> jchars sdp \<Longrightarrow> publisherCreateOffer E h sdp c = Some c' \<Longrightarrow> conn_step js c c'"
| trickle: "trickleCandicate E h cand c = Some c' \<Longrightarrow> conn_step js c c'"
| trickle_complete: "trickleCandicateComplete E h c = Some c' \<Longrightarrow> conn_step js c c'"
| subscribe: "subscriberCreateHandle E f c = Some c' \<Longrightarrow> conn_step js c c'"
| answer: "js \<longrightarrow> jchars sdp \<Longrightarrow> subscriberCreateAnswer E h sdp c = Some c' \<Longrightarrow> conn_step js c c'"
| config: "subscriberConfig E h a v d c = Some c' \<Longrightarrow> conn_step js c c'"
| message: "js \<longrightarrow> jchars msg \<Longrightarrow> sendMessageToUser E msg u b c = Some c' \<Longrightarrow> conn_step js c c'"
| unpublish: "unpublish E h c = Some c' \<Longrightarrow> conn_step js c c'"
| detach: "detach E h c = Some c' \<Longrightarrow> conn_step js c c'"
| disconnect: "conn_step js c (disconnect c)"
| failure: "conn_step js c (onRTCFailure c)"
| user: "js \<longrightarrow> jint v \<Longrightarrow> conn_step js c (setUserId v c)"
| param: "js \<longrightarrow> plain v \<Longrightarrow> f \<in> {setRoomName, setAppId, setTokenStr, setDisplayName, setCerPath, setMediaServerIP, setSDKTag, setVideoCodec}
    \<Longrightarrow> conn_step js c (f v c)"
| flag: "f \<in> {setAsPublisher, setAsListener, setHasAudio, setHasVideo, setHasData, setAutoSubscribe} \<Longrightarrow> conn_step js c (f b c)"
| feed: "conn_step js c (setFeedId s c)"

section \<open>Invariant\<close>

definition slot_cb :: "nat \<Rightarrow> OnTransactionSuccess option" where
  "slot_cb i = (if i = 0 then Some CreateSession else if i = 1 then Some PublisherCreateHandle
     else if i = 2 then Some CreateRoom else if i = 3 then Some SubscriberCreateHandle else None)"

text \<open>
  A slot of the transaction table: an open one has an identifier of twelve characters and the live
  transaction with it and the callback of the slot; the others have none.
\<close>

definition slot_ok :: "nat \<Rightarrow> string \<times> RtcJanusTransaction ptr \<Rightarrow> bool" where
  "slot_ok i e \<longleftrightarrow>
     (case e of (jtId, p) \<Rightarrow>
        if jtId = [] then p = Null \<or> p = Dangling \<and> slot_cb i \<noteq> None
        else length jtId = 12 \<and> (\<exists>cb. slot_cb i = Some cb \<and> p = Ptr \<lparr>jt_transactionId = jtId, jt_onSuccess = cb\<rparr>))"

definition table_ok :: "FRTCConnection \<Rightarrow> bool" where
  "table_ok c \<longleftrightarrow> length (mJanusTransactionMap c) = 8 \<and> (\<forall>i < 8. slot_ok i (mJanusTransactionMap c ! i))"

definition handle_ok :: "u64 \<times> RtcJanusHandle ptr \<Rightarrow> bool" where
  "handle_ok e \<longleftrightarrow> (case e of (h, p) \<Rightarrow> (case p of Null \<Rightarrow> h = 0 | Dangling \<Rightarrow> True | Ptr jh \<Rightarrow> jh_handleId jh = h))"

definition maps_ok :: "FRTCConnection \<Rightarrow> bool" where
  "maps_ok c \<longleftrightarrow> length (mJanusHandlesMap c) = 2 \<and> list_all handle_ok (mJanusHandlesMap c)
     \<and> mBRTCServerVersion c \<in> {Ptr ''brtc_v0'', Dangling}"

definition json_ok :: "FRTCConnection \<Rightarrow> bool" where
  "json_ok c \<longleftrightarrow> list_all plain [mSDKTag c, mMediaServerIP c, mOriginURI c, mAppId c, mRoomName c, mVideoCodec c, mAudioCodec c,
       mDisplayName c, mTokenStr c] \<and> jint (mUserId c) \<and> list_all validate (mTx c)"

definition conn_inv :: "bool \<Rightarrow> FRTCConnection \<Rightarrow> bool" where
  "conn_inv js c \<longleftrightarrow> table_ok c \<and> maps_ok c \<and> (js \<longrightarrow> json_ok c)"

lemmas conn_defs = table_ok_def maps_ok_def json_ok_def

subsection \<open>Requests\<close>

lemma print_str_json:
  assumes "print_str n s = Some b" "n \<le> 4096" "jvalue 32 s"
  shows "validate b"
proof -
  have "b = s" "length s < 4096" using assms by (auto simp: print_str_def split: if_splits)
  moreover have "JSON_Validate (Some (chars s)) (length s) = JSONSuccess"
    using JSON_Validate_grammar [OF assms(3) jws_nil jws_nil, of "chars s" "length s"] \<open>length s < 4096\<close> holds_chars [of s]
    by (simp add: SIZE_MAX_def)
  ultimately show ?thesis by (simp add: validate_def)
qed

lemma id_chars_plain: "list_all plain_char id_chars"
  by (simp add: id_chars_def plain_char_def)

lemma transaction_id_ok: "length (transaction_id E) = 12" "jchars (transaction_id E)"
proof -
  have "plain_char (id_chars ! (k mod 62))" for k
  proof -
    have "length id_chars = 62" by (simp add: id_chars_def)
    then have "k mod 62 < length id_chars" by simp
    then show ?thesis using id_chars_plain by (simp add: list_all_length)
  qed
  then have "plain (transaction_id E)"
    by (auto simp: transaction_id_def generateString_def plain_def list_all_iff)
  then show "jchars (transaction_id E)" by (rule jchars_plain)
qed (simp add: transaction_id_def generateString_def RTC_JANUS_TRANSACTION_ID_LEN_def)

lemma sendMessage_inv: "sendMessage b c = Some c' \<Longrightarrow> conn_inv js c \<Longrightarrow> (js \<Longrightarrow> json_ok c \<Longrightarrow> validate b) \<Longrightarrow> conn_inv js c'"
  by (auto simp: sendMessage_def conn_inv_def conn_defs split: if_splits bind_splits)

lemma request_inv:
  assumes "do { b \<leftarrow> print_str n s; sendMessage b c } = Some c'" "conn_inv js c" "n \<le> 4096"
    and "js \<Longrightarrow> json_ok c \<Longrightarrow> jvalue 32 s"
  shows "conn_inv js c'"
proof -
  obtain b where b: "print_str n s = Some b" "sendMessage b c = Some c'" using assms(1) by (auto simp: bind_eq_Some_conv)
  show ?thesis by (rule sendMessage_inv [OF b(2) assms(2)]) (rule print_str_json [OF b(1) assms(3) assms(4)])
qed

lemma table_ok_update:
  assumes "table_ok c" "slot_ok i e"
  shows "table_ok (c\<lparr>mJanusTransactionMap := (mJanusTransactionMap c)[i := e]\<rparr>)"
proof -
  have "slot_ok k ((mJanusTransactionMap c)[i := e] ! k)" if "k < 8" for k
    using assms that by (cases "k = i") (simp_all add: table_ok_def)
  then show ?thesis using assms(1) by (simp add: table_ok_def)
qed

lemma open_transaction_inv:
  assumes "open_transaction E i cb c = Some c'" "conn_inv js c" "slot_cb i = Some cb"
  shows "conn_inv js c'"
proof -
  let ?e = "(transaction_id E, Ptr \<lparr>jt_transactionId = transaction_id E, jt_onSuccess = cb\<rparr>)"
  have c': "c' = c\<lparr>mJanusTransactionMap := (mJanusTransactionMap c)[i := ?e]\<rparr>"
    using assms(1) by (auto simp: open_transaction_def split: if_splits)
  have "slot_ok i ?e" using assms(3) transaction_id_ok(1) [of E] by (auto simp: slot_ok_def)
  with assms(2) have "table_ok c'" unfolding c' by (intro table_ok_update) (simp_all add: conn_inv_def)
  then show ?thesis using assms(2) by (simp add: c' conn_inv_def maps_ok_def json_ok_def)
qed

lemma transaction_inv:
  assumes "do { b \<leftarrow> print_str n s; c \<leftarrow> open_transaction E i cb c; sendMessage b c } = Some c'" "conn_inv js c" "slot_cb i = Some cb" "n \<le> 4096"
    and "js \<Longrightarrow> json_ok c \<Longrightarrow> jvalue 32 s"
  shows "conn_inv js c'"
proof -
  obtain b c1 where b: "print_str n s = Some b" "open_transaction E i cb c = Some c1" "sendMessage b c1 = Some c'"
    using assms(1) by (auto simp: bind_eq_Some_conv)
  have "json_ok c" if "json_ok c1" using b(2) that by (auto simp: open_transaction_def json_ok_def split: if_splits)
  then show ?thesis
    by (intro sendMessage_inv [OF b(3) open_transaction_inv [OF b(2) assms(2,3)]] print_str_json [OF b(1) assms(4) assms(5)])
qed

lemma sizes: "DEFAULT_SIZE \<le> 4096"
  by (simp add: DEFAULT_SIZE_def)

lemma json_okD:
  assumes "json_ok c"
  shows "jchars (mSDKTag c)" "jchars (mMediaServerIP c)" "jchars (mOriginURI c)" "jchars (mAppId c)" "jchars (mRoomName c)"
    "jchars (mVideoCodec c)" "jchars (mAudioCodec c)" "jchars (mDisplayName c)" "jchars (mTokenStr c)" "jvalue d (mUserId c)"
  using assms jchars_plain jvalue_int by (auto simp: json_ok_def)

lemma jchars_words: "jchars ''room_name''" "jchars ''RTOS''" "jchars ''publisher''" "jchars ''listener''" "jchars ''true''" "jchars ''false''"
  by (rule jchars_plain; simp add: plain_lit)+

lemmas requests_json = g_rtc_create_session_json g_rtc_create_room_json g_rtc_keep_alive_json g_rtc_attach_cmd_json
  g_rtc_join_room_json g_rtc_offer_sdp_json g_rtc_trickle_complete_cmd_json g_rtc_subscriber_join_room_json g_rtc_answer_sdp_json
  g_rtc_config_cmd_json g_rtc_sendmsg_cmd_json g_rtc_unpublish_cmd_json g_rtc_detach_cmd_json

lemmas requests_json32 = requests_json [where n = 30, simplified]

lemmas request_facts = requests_json32 json_okD transaction_id_ok(2) jvalue_lld jvalue_bool jchars_words

lemma keepAlive_inv: "keepAlive E c = Some c' \<Longrightarrow> conn_inv js c \<Longrightarrow> conn_inv js c'"
  unfolding keepAlive_def by (auto elim!: request_inv intro!: request_facts sizes split: if_splits)

lemma publisherJoinRoom_inv: "publisherJoinRoom E h c = Some c' \<Longrightarrow> conn_inv js c \<Longrightarrow> conn_inv js c'"
  unfolding publisherJoinRoom_def by (erule request_inv) (auto intro!: request_facts sizes)

lemma conn_inv_frame [simp]:
  "conn_inv js (c\<lparr>mSessionId := x\<rparr>) = conn_inv js c" "conn_inv js (c\<lparr>mRoomId := x\<rparr>) = conn_inv js c"
  "conn_inv js (c\<lparr>mFeedId := x\<rparr>) = conn_inv js c" "conn_inv js (c\<lparr>mMediaServerStandalone_needRoomID := b\<rparr>) = conn_inv js c"
  "conn_inv js (c\<lparr>mFeedIdIsOnline := b\<rparr>) = conn_inv js c" "conn_inv js (c\<lparr>mbAliving := b\<rparr>) = conn_inv js c"
  "conn_inv js (c\<lparr>mbQuitWatchDog := b\<rparr>) = conn_inv js c" "conn_inv js (c\<lparr>mRTCConnected := b\<rparr>) = conn_inv js c"
  "conn_inv js (c\<lparr>mPublisherWebListenerMap := m\<rparr>) = conn_inv js c" "conn_inv js (c\<lparr>mObserved := l\<rparr>) = conn_inv js c"
  "conn_inv js (c\<lparr>mWSCtx := b\<rparr>) = conn_inv js c" "conn_inv js (c\<lparr>mWSConnetion := p\<rparr>) = conn_inv js c"
  "conn_inv js (c\<lparr>mFullURL := s\<rparr>) = conn_inv js c" "conn_inv js (c\<lparr>mCerPath := s\<rparr>) = conn_inv js c"
  "conn_inv js (c\<lparr>mAsPublisher := b\<rparr>) = conn_inv js c" "conn_inv js (c\<lparr>mAsListener := b\<rparr>) = conn_inv js c"
  "conn_inv js (c\<lparr>mHasAudio := b\<rparr>) = conn_inv js c" "conn_inv js (c\<lparr>mHasVideo := b\<rparr>) = conn_inv js c"
  "conn_inv js (c\<lparr>mHasData := b\<rparr>) = conn_inv js c" "conn_inv js (c\<lparr>mAutoSubscribe := b\<rparr>) = conn_inv js c"
  "conn_inv js (observe e c) = conn_inv js c"
  by (simp_all add: conn_inv_def conn_defs observe_def)

lemma json_ok_frame [simp]: "json_ok (c\<lparr>mFeedId := x\<rparr>) = json_ok c"
  by (simp add: json_ok_def)

lemma createSession_inv: "createSession E c = Some c' \<Longrightarrow> conn_inv js c \<Longrightarrow> conn_inv js c'"
  unfolding createSession_def by (erule transaction_inv) (auto intro!: request_facts sizes simp: slot_cb_def)

lemma createRoom_inv: "createRoom E h c = Some c' \<Longrightarrow> conn_inv js c \<Longrightarrow> conn_inv js c'"
  unfolding createRoom_def by (auto elim!: transaction_inv intro!: request_facts sizes simp: slot_cb_def split: if_splits)

lemma publisherCreateHandle_inv: "publisherCreateHandle E c = Some c' \<Longrightarrow> conn_inv js c \<Longrightarrow> conn_inv js c'"
  unfolding publisherCreateHandle_def by (erule transaction_inv) (auto intro!: request_facts sizes simp: slot_cb_def)

lemma subscriberCreateHandle_inv: "subscriberCreateHandle E f c = Some c' \<Longrightarrow> conn_inv js c \<Longrightarrow> conn_inv js c'"
  unfolding subscriberCreateHandle_def by (erule transaction_inv) (auto intro!: request_facts sizes simp: slot_cb_def)

lemma publisherCreateOffer_inv:
  "publisherCreateOffer E h sdp c = Some c' \<Longrightarrow> conn_inv js c \<Longrightarrow> js \<longrightarrow> jchars sdp \<Longrightarrow> conn_inv js c'"
  unfolding publisherCreateOffer_def by (erule request_inv) (auto intro!: request_facts simp: DEFAULT_SIZE_def)

lemma subscriberCreateAnswer_inv:
  "subscriberCreateAnswer E h sdp c = Some c' \<Longrightarrow> conn_inv js c \<Longrightarrow> js \<longrightarrow> jchars sdp \<Longrightarrow> conn_inv js c'"
  unfolding subscriberCreateAnswer_def by (erule request_inv) (auto intro!: request_facts simp: DEFAULT_SIZE_def)

lemma sendMessageToUser_inv:
  "sendMessageToUser E msg u b c = Some c' \<Longrightarrow> conn_inv js c \<Longrightarrow> js \<longrightarrow> jchars msg \<Longrightarrow> conn_inv js c'"
  unfolding sendMessageToUser_def by (erule request_inv) (auto intro!: request_facts sizes simp: bool_str_def)

lemma subscriberJoinRoom_inv: "subscriberJoinRoom E h f c = Some c' \<Longrightarrow> conn_inv js c \<Longrightarrow> conn_inv js c'"
  unfolding subscriberJoinRoom_def by (erule request_inv) (auto intro!: request_facts sizes)

lemma subscriberConfig_inv: "subscriberConfig E h a v d c = Some c' \<Longrightarrow> conn_inv js c \<Longrightarrow> conn_inv js c'"
  unfolding subscriberConfig_def by (erule request_inv) (auto intro!: request_facts sizes)

lemma trickleCandicateComplete_inv: "trickleCandicateComplete E h c = Some c' \<Longrightarrow> conn_inv js c \<Longrightarrow> conn_inv js c'"
  unfolding trickleCandicateComplete_def by (erule request_inv) (auto intro!: request_facts sizes)

lemma unpublish_inv: "unpublish E h c = Some c' \<Longrightarrow> conn_inv js c \<Longrightarrow> conn_inv js c'"
  unfolding unpublish_def by (erule request_inv) (auto intro!: request_facts sizes)

lemma detach_inv: "detach E h c = Some c' \<Longrightarrow> conn_inv js c \<Longrightarrow> conn_inv js c'"
  unfolding detach_def by (erule request_inv) (auto intro!: request_facts sizes)

text \<open>
  The malformed trickle request is never sent: with the version the connection starts with it is not
  needed, and once a version was received its text is gone.
\<close>

lemma trickleCandicate_same: "conn_inv js c \<Longrightarrow> trickleCandicate E h cand c = Some c' \<Longrightarrow> c' = c"
  by (auto simp: trickleCandicate_def conn_inv_def maps_ok_def deref_def bind_eq_Some_conv)

subsection \<open>Replies and events\<close>

lemma connecting_inv: "connecting url cnt ok c = Some (n, c') \<Longrightarrow> conn_inv js c \<Longrightarrow> js \<longrightarrow> plain url \<Longrightarrow> conn_inv js c'"
  by (auto simp: connecting_def bind_eq_Some_conv Let_def observe_def conn_inv_def conn_defs split: if_splits)

lemma set_handle_inv: "conn_inv js c \<Longrightarrow> conn_inv js (set_handle i jh c)"
  by (auto simp: set_handle_def conn_inv_def conn_defs handle_ok_def list_all_iff dest!: set_update_subset_insert [THEN subsetD])

lemma close_transaction_inv:
  assumes "conn_inv js c" "slot_cb i \<noteq> None"
  shows "conn_inv js (close_transaction i c)"
proof -
  have "table_ok (close_transaction i c)"
    unfolding close_transaction_def using assms by (intro table_ok_update) (auto simp: conn_inv_def slot_ok_def)
  then show ?thesis using assms(1) by (simp add: conn_inv_def close_transaction_def maps_ok_def json_ok_def)
qed

lemma version_inv [simp]: "conn_inv js c \<Longrightarrow> conn_inv js (c\<lparr>mBRTCServerVersion := Dangling\<rparr>)"
  by (simp add: conn_inv_def conn_defs)

lemma createSession_callback_inv:
  assumes "createSession_callback E buf c = Some c'" "conn_inv js c"
  shows "conn_inv js c'"
  using assms
  by (auto simp: createSession_callback_def bind_eq_Some_conv split: if_splits option.splits elim!: publisherCreateHandle_inv)

lemma publisherCreateHandle_callback_inv:
  "publisherCreateHandle_callback E buf c = Some c' \<Longrightarrow> conn_inv js c \<Longrightarrow> conn_inv js c'"
  by (auto simp: publisherCreateHandle_callback_def bind_eq_Some_conv split: if_splits option.splits elim!: createRoom_inv)

lemma createRoom_callback_inv: "createRoom_callback E buf c = Some c' \<Longrightarrow> conn_inv js c \<Longrightarrow> conn_inv js c'"
  by (auto simp: createRoom_callback_def bind_eq_Some_conv Let_def set_handle_inv split: if_splits option.splits
      elim!: publisherJoinRoom_inv subscriberJoinRoom_inv)

lemma subscriberCreateHandle_callback_inv:
  "subscriberCreateHandle_callback E buf c = Some c' \<Longrightarrow> conn_inv js c \<Longrightarrow> conn_inv js c'"
  by (auto simp: subscriberCreateHandle_callback_def bind_eq_Some_conv set_handle_inv split: if_splits option.splits
      elim!: subscriberJoinRoom_inv)

lemma onSuccess_inv: "onSuccess cb E msg rest c = Some c' \<Longrightarrow> conn_inv js c \<Longrightarrow> conn_inv js c'"
  by (cases cb) (auto simp: onSuccess_def intro: createSession_callback_inv publisherCreateHandle_callback_inv
      createRoom_callback_inv subscriberCreateHandle_callback_inv)

lemma find_transaction_Some:
  "find_transaction m t = Some i \<Longrightarrow> i < length m \<and> is_str (fst (m ! i)) t \<and> (\<forall>k < i. \<not> is_str (fst (m ! k)) t)"
  by (induction m t arbitrary: i rule: find_transaction.induct) (auto simp: less_Suc_eq_0_disj split: if_splits)

lemma error_slot_Some: "error_slot m t = Some (i, p) \<Longrightarrow> i < length m \<and> m ! i = (fst (m ! i), p) \<and> is_str (fst (m ! i)) t"
  by (induction m t arbitrary: i rule: error_slot.induct) (auto split: if_splits)

lemma live_slot:
  assumes "conn_inv js c" "i < length (mJanusTransactionMap c)" "deref (snd (mJanusTransactionMap c ! i)) = Some jt"
  shows "slot_cb i = Some (jt_onSuccess jt)" "fst (mJanusTransactionMap c ! i) = jt_transactionId jt" "length (jt_transactionId jt) = 12"
proof -
  have "slot_ok i (mJanusTransactionMap c ! i)" using assms(1,2) by (simp add: conn_inv_def table_ok_def)
  then show "slot_cb i = Some (jt_onSuccess jt)" "fst (mJanusTransactionMap c ! i) = jt_transactionId jt" "length (jt_transactionId jt) = 12"
    using assms(3) by (auto simp: slot_ok_def deref_def split: if_splits prod.splits)
qed

lemma transaction_success_inv: "transaction_success E msg rest t c = Some c' \<Longrightarrow> conn_inv js c \<Longrightarrow> conn_inv js c'"
  by (auto simp: transaction_success_def bind_eq_Some_conv split: option.splits
      dest!: find_transaction_Some onSuccess_inv [of _ _ _ _ c _ js] dest: live_slot(1) intro!: close_transaction_inv)

lemma transaction_error_inv:
  assumes "transaction_error t c = Some c'" "conn_inv js c"
  shows "conn_inv js c'"
proof (cases "error_slot (mJanusTransactionMap c) t")
  case None
  then show ?thesis using assms by (simp add: transaction_error_def)
next
  case (Some e)
  then obtain i p where e: "error_slot (mJanusTransactionMap c) t = Some (i, p)" by (cases e) auto
  with assms(1) obtain jt where jt: "deref p = Some jt" "c' = close_transaction i c"
    by (auto simp: transaction_error_def bind_eq_Some_conv)
  have "i < length (mJanusTransactionMap c)" "snd (mJanusTransactionMap c ! i) = p"
    using error_slot_Some [OF e] by (auto dest: arg_cong [where f = snd])
  then have "slot_cb i \<noteq> None" using live_slot(1) [OF assms(2)] jt(1) by auto
  then show ?thesis using close_transaction_inv [OF assms(2)] jt(2) by simp
qed

lemma event_leaving_inv: "event_leaving msg c = Some (Return c') \<Longrightarrow> conn_inv js c \<Longrightarrow> conn_inv js c'"
  by (auto simp: event_leaving_def bind_eq_Some_conv split: option.splits if_splits)

lemma event_unpublished_inv: "event_unpublished msg c = Some (Return c') \<Longrightarrow> conn_inv js c \<Longrightarrow> conn_inv js c'"
  by (auto simp: event_unpublished_def bind_eq_Some_conv split: option.splits if_splits)

lemma event_joined_inv: "event_joined msg jh c = Some c' \<Longrightarrow> conn_inv js c \<Longrightarrow> conn_inv js c'"
  by (auto simp: event_joined_def bind_eq_Some_conv onPublisherJoined_callback_def split: option.splits if_splits ptr.splits)
    (metis ptr.exhaust)

lemma onRemoteJsep_inv: "onRemoteJsep f jh buf c = Some c' \<Longrightarrow> conn_inv js c \<Longrightarrow> conn_inv js c'"
  by (auto simp: onRemoteJsep_def onPublisherRemoteJsep_callback_def subscriberHandleRemoteJsep_callback_def bind_eq_Some_conv
      split: OnRemoteJsep.splits option.splits if_splits)

lemma free_handle_inv:
  "conn_inv js c \<Longrightarrow> conn_inv js (c\<lparr>mJanusHandlesMap := (mJanusHandlesMap c)[i := (h, Dangling)]\<rparr>)"
  by (auto simp: conn_inv_def conn_defs handle_ok_def list_all_iff dest!: set_update_subset_insert [THEN subsetD])

definition jsep_feed :: "string \<Rightarrow> string option" where
  "jsep_feed msg = (case search msg ''plugindata.data.configured'' of Some v \<Rightarrow> Some v | None \<Rightarrow> search msg ''plugindata.data.id'')"

lemma event_jsep_Return:
  assumes "event_jsep msg rest jh c = Some (Return c')"
  obtains i p h f c1 c2 where "jh = Some (i, p)" "deref p = Some h" "jh_onRemoteJsep h = Ptr f"
    "c1 = c \<or> c1 = c\<lparr>mFeedIdIsOnline := True\<rparr>" "onRemoteJsep f h (msg @ rest) c1 = Some c2"
    "c' = c2\<lparr>mJanusHandlesMap := (mJanusHandlesMap c2)[i := (fst (mJanusHandlesMap c2 ! i), Dangling)]\<rparr>"
proof -
  note d = assms [unfolded event_jsep_def jsep_feed_def [symmetric] Let_def]
  obtain jsep fid i p where s: "search msg ''jsep'' = Some jsep" "jsep_feed msg = Some fid" "jh = Some (i, p)"
    using d by (auto split: option.splits)
  from d [unfolded s] obtain h where h: "deref p = Some h" by (auto simp: bind_eq_Some_conv)
  obtain f where f: "jh_onRemoteJsep h = Ptr f" using d [unfolded s] h by (cases "jh_onRemoteJsep h") auto
  from d [unfolded s] h f have ne: "\<not> is_str [] jsep" by (auto split: if_splits)
  from d [unfolded s] h f ne obtain feedId where fd: "number fid = Some feedId" by (auto simp: bind_eq_Some_conv)
  let ?c1 = "if feedId \<noteq> 0 \<and> feedId = mFeedId c then c\<lparr>mFeedIdIsOnline := True\<rparr> else c"
  obtain c2 where "onRemoteJsep f h (msg @ rest) ?c1 = Some c2"
    "c' = c2\<lparr>mJanusHandlesMap := (mJanusHandlesMap c2)[i := (fst (mJanusHandlesMap c2 ! i), Dangling)]\<rparr>"
    using d [unfolded s] h f ne fd by (cases "onRemoteJsep f h (msg @ rest) ?c1") simp_all
  then show thesis by (intro that [OF s(3) h f]) simp_all
qed

lemma event_jsep_inv: "event_jsep msg rest jh c = Some (Return c') \<Longrightarrow> conn_inv js c \<Longrightarrow> conn_inv js c'"
  by (erule event_jsep_Return) (auto dest!: onRemoteJsep_inv [where js = js] intro!: free_handle_inv)

lemma event_nacks_inv: "event_nacks msg c = Some (Return c') \<Longrightarrow> conn_inv js c \<Longrightarrow> conn_inv js c'"
  by (auto simp: event_nacks_def bind_eq_Some_conv split: option.splits if_splits)

lemma event_error_inv: "event_error msg c = Some (Return c') \<Longrightarrow> conn_inv js c \<Longrightarrow> conn_inv js c'"
  by (auto simp: event_error_def bind_eq_Some_conv split: option.splits if_splits)

lemma event_subscribe_inv: "event_subscribe E pid c = Some c' \<Longrightarrow> conn_inv js c \<Longrightarrow> conn_inv js c'"
  by (auto simp: event_subscribe_def split: if_splits elim!: subscriberCreateHandle_inv)

lemma event_publishers_inv: "event_publishers E msg c = Some c' \<Longrightarrow> conn_inv js c \<Longrightarrow> conn_inv js c'"
  by (auto simp: event_publishers_def bind_eq_Some_conv Let_def split: option.splits if_splits elim!: event_subscribe_inv)

lemma flow_then_Some: "flow_then f r = Some c' \<longleftrightarrow> f = Return c' \<or> (\<exists>u. f = Next u) \<and> r = Some c'"
  by (auto simp: flow_then_def split: flow.splits)

lemmas event_invs = event_leaving_inv event_unpublished_inv event_joined_inv event_jsep_inv event_nacks_inv event_error_inv event_publishers_inv

lemma onEvent_inv: "onEvent E msg rest c = Some c' \<Longrightarrow> conn_inv js c \<Longrightarrow> conn_inv js c'"
  unfolding onEvent_def by (auto simp: bind_eq_Some_conv flow_then_Some split: if_splits dest: event_invs [where js = js])

lemma session_data_inv: "session_data msg c = Some c' \<Longrightarrow> conn_inv js c \<Longrightarrow> conn_inv js c'"
  by (auto simp: session_data_def bind_eq_Some_conv split: option.splits if_splits)

lemma session_attribute_inv: "session_attribute msg rest u c = Some c' \<Longrightarrow> conn_inv js c \<Longrightarrow> conn_inv js c'"
  by (auto simp: session_attribute_def bind_eq_Some_conv split: option.splits if_splits)

lemma session_user_inv: "session_user msg rest c = Some c' \<Longrightarrow> conn_inv js c \<Longrightarrow> conn_inv js c'"
  by (auto simp: session_user_def bind_eq_Some_conv Let_def split: option.splits if_splits elim!: session_attribute_inv)

lemma onSessionEvent_inv: "onSessionEvent msg rest c = Some c' \<Longrightarrow> conn_inv js c \<Longrightarrow> conn_inv js c'"
  by (auto simp: onSessionEvent_def bind_eq_Some_conv split: if_splits dest: session_data_inv session_user_inv)

lemma onRTCMessage_inv: "onRTCMessage E msg rest c = Some c' \<Longrightarrow> conn_inv js c \<Longrightarrow> conn_inv js c'"
  by (auto simp: onRTCMessage_def bind_eq_Some_conv Let_def media_event_def split: option.splits if_splits
      dest: transaction_success_inv transaction_error_inv onEvent_inv onSessionEvent_inv)

lemma ws_inv: "RTCConnection_baidurtc_client E ev c = Some c' \<Longrightarrow> conn_inv js c \<Longrightarrow> conn_inv js c'"
  by (auto simp: RTCConnection_baidurtc_client_def onRTCOpen_def onRTCClosed_def split: ws_event.splits
      dest: onRTCMessage_inv elim!: createSession_inv)

lemma conn_step_inv: "conn_step js c c' \<Longrightarrow> conn_inv js c \<Longrightarrow> conn_inv js c'"
proof (induction rule: conn_step.induct)
  case (user v c)
  then show ?case by (simp add: setUserId_def conn_inv_def conn_defs)
next
  case (param v f c)
  then show ?case by (auto simp: setRoomName_def setAppId_def setTokenStr_def setDisplayName_def setCerPath_def setMediaServerIP_def
    setSDKTag_def setVideoCodec_def) (simp_all add: conn_inv_def conn_defs)
next
  case (flag f c b)
  then show ?case by (auto simp: setAsPublisher_def setAsListener_def setHasAudio_def setHasVideo_def setHasData_def setAutoSubscribe_def)
next
  case (trickle E h cand c c')
  then show ?case using trickleCandicate_same by blast
qed (auto simp: disconnect_def onRTCFailure_def setFeedId_def dest: ws_inv connecting_inv keepAlive_inv publisherCreateOffer_inv
    trickleCandicateComplete_inv subscriberCreateHandle_inv subscriberCreateAnswer_inv subscriberConfig_inv sendMessageToUser_inv
    unpublish_inv detach_inv)

definition conn_init :: "FRTCConnection \<Rightarrow> bool" where
  "conn_init c \<longleftrightarrow> c = FRTCConnection_construct"

lemma construct_inv: "conn_inv js FRTCConnection_construct"
proof -
  have "jint ''10001''" unfolding jint_def
    by (intro exI [of _ "[]"] exI [of _ "''10001''"]) (simp add: jdigits_def isdigit_def)
  then show ?thesis
    by (simp add: conn_inv_def conn_defs FRTCConnection_construct_def slot_ok_def handle_ok_def RTC_JANUS_TRANSACTION_MAP_LEN_def
        RTC_JANUS_HANDLE_MAP_LEN_def list_all_iff plain_lit)
qed

interpretation conninv: invariant_system conn_init "conn_step js" "conn_inv js" for js
  by unfold_locales (auto intro: conn_step_inv simp: conn_init_def construct_inv)

section \<open>Properties\<close>

lemma reach_conn_inv: "reach conn_init (conn_step js) c \<Longrightarrow> conn_inv js c"
  by (rule conninv.reach_inv)

text \<open>
  Every request that the connection sends is a JSON document which its own parser accepts, in
  every run and whatever the server answers, when the parameters set by the client need no escape,
  the user is a number, and descriptions and messages are escaped.
\<close>

theorem rtc_requests_json:
  assumes "reach conn_init (conn_step True) c" "m \<in> set (mTx c)"
  shows "JSON_Validate (Some (chars m)) (length m) = JSONSuccess"
  using reach_conn_inv [OF assms(1)] assms(2) by (auto simp: conn_inv_def json_ok_def validate_def list_all_iff)

definition env_ex :: "nat \<Rightarrow> env" where
  "env_ex k = \<lparr>env_rand = (\<lambda>i. k), env_mem = True\<rparr>"

lemma env_ex_mem [simp]: "env_mem (env_ex k)"
  by (simp add: env_ex_def)

definition conn_up :: FRTCConnection where
  "conn_up = snd (the (connecting ''wss://media'' 0 True FRTCConnection_construct))"

definition conn_open :: FRTCConnection where
  "conn_open = the (onRTCOpen (env_ex 0) conn_up)"

lemma print_str_Some: "length s < n \<Longrightarrow> print_str n s = Some s"
  by (simp add: print_str_def)

lemma lld_0: "lld 0 = ''0''"
proof -
  have "digit_char 0 = CHR ''0''" by code_simp
  then show ?thesis by (simp add: lld_def dec.simps [of 0])
qed

lemma construct_lengths: "mAppId FRTCConnection_construct = []" "mRoomName FRTCConnection_construct = ''2131''"
  "mUserId FRTCConnection_construct = ''10001''" "mTokenStr FRTCConnection_construct = []"
  by (simp_all add: FRTCConnection_construct_def)

lemma conn_up_eq: "\<exists>n. connecting ''wss://media'' 0 True FRTCConnection_construct = Some (n, conn_up)"
  by (simp add: conn_up_def connecting_def construct_lengths lld_0 print_str_def g_rtc_connect_url_def DEFAULT_SIZE_def Let_def)

lemma conn_up_reach: "reach conn_init (conn_step js) conn_up"
proof -
  obtain n where "connecting ''wss://media'' 0 True FRTCConnection_construct = Some (n, conn_up)" using conn_up_eq ..
  then show ?thesis
    by (intro reach_step [OF reach_init, of _ FRTCConnection_construct]) (auto simp: conn_init_def plain_lit intro!: conn_step.connect)
qed

lemma conn_open_eq: "onRTCOpen (env_ex 0) conn_up = Some conn_open" "mRTCConnected conn_open"
  "mTx conn_open = [g_rtc_create_session (replicate 12 CHR ''A'') [] [] ''wss://media'']"
proof -
  have t: "transaction_id (env_ex 0) = replicate 12 CHR ''A''" by code_simp
  have up: "mSDKTag conn_up = []" "mMediaServerIP conn_up = []" "mOriginURI conn_up = ''wss://media''" "mWSConnetion conn_up = Ptr ()"
    "mTx conn_up = []"
    by (simp_all add: conn_up_def connecting_def construct_lengths lld_0 print_str_def g_rtc_connect_url_def DEFAULT_SIZE_def Let_def)
      (simp_all add: FRTCConnection_construct_def)
  have l: "length (g_rtc_create_session (replicate 12 CHR ''A'') [] [] ''wss://media'') < DEFAULT_SIZE"
    by (simp add: g_rtc_create_session_def DEFAULT_SIZE_def)
  show "onRTCOpen (env_ex 0) conn_up = Some conn_open" "mRTCConnected conn_open"
    "mTx conn_open = [g_rtc_create_session (replicate 12 CHR ''A'') [] [] ''wss://media'']"
    using l by (simp_all add: conn_open_def onRTCOpen_def createSession_def observe_def t up print_str_Some open_transaction_def
      sendMessage_def deref_def)
qed

lemma conn_open_reach: "reach conn_init (conn_step js) conn_open"
  by (rule reach_step [OF conn_up_reach], rule conn_step.ws [of "env_ex 0" MG_EV_WS_OPEN])
    (simp add: RTCConnection_baidurtc_client_def conn_open_eq)

theorem rtc_requests_json_witness:
  "JSON_Validate (Some (chars (g_rtc_create_session (replicate 12 CHR ''A'') [] [] ''wss://media'')))
     (length (g_rtc_create_session (replicate 12 CHR ''A'') [] [] ''wss://media'')) = JSONSuccess"
  by (rule rtc_requests_json [OF conn_open_reach]) (simp add: conn_open_eq(3))

subsection \<open>Dispatch of replies\<close>

lemma strncmp_eq_take: "strncmp_eq a b (length b) \<longleftrightarrow> take (length b) a = b"
proof (induction b arbitrary: a)
  case (Cons y b)
  then show ?case by (cases a) auto
qed simp

lemma is_str_self [simp]: "is_str s s"
  by (simp add: is_str_def strncmp_eq_take)

lemma is_str_id: "length t = 12 \<Longrightarrow> length a = 12 \<or> a = [] \<Longrightarrow> is_str a t \<longleftrightarrow> a = t"
  unfolding is_str_def strncmp_eq_take by auto

lemma find_transaction_first:
  "i < length m \<Longrightarrow> is_str (fst (m ! i)) t \<Longrightarrow> (\<And>k. k < i \<Longrightarrow> \<not> is_str (fst (m ! k)) t) \<Longrightarrow> find_transaction m t = Some i"
proof (induction m t arbitrary: i rule: find_transaction.induct)
  case (2 jtId jt m t)
  show ?case
  proof (cases i)
    case (Suc j)
    with 2(4) [of 0] have "\<not> is_str jtId t" by simp
    moreover have "find_transaction m t = Some j"
      using Suc 2(2,3) 2(4) [of "Suc k" for k] \<open>\<not> is_str jtId t\<close> by (intro 2(1)) auto
    ultimately show ?thesis using Suc by simp
  qed (use 2(3) in simp)
qed simp

lemma open_slot:
  assumes "conn_inv js c" "i < 8" "fst (mJanusTransactionMap c ! i) = t" "t \<noteq> []"
  obtains cb where "slot_cb i = Some cb" "mJanusTransactionMap c ! i = (t, Ptr \<lparr>jt_transactionId = t, jt_onSuccess = cb\<rparr>)" "length t = 12"
proof -
  have "slot_ok i (mJanusTransactionMap c ! i)" using assms(1,2) by (simp add: conn_inv_def table_ok_def)
  then show thesis using assms(3,4) that by (auto simp: slot_ok_def split: prod.splits)
qed

lemma success_reply:
  assumes "mRTCConnected c" "validate msg" "search msg ''janus'' = Some ''success''" "search msg ''transaction'' = Some t"
  shows "onRTCMessage E msg rest c = transaction_success E msg rest t c"
  using assms by (simp add: onRTCMessage_def found_def)

text \<open>The search compares as many characters as the reply has: it finds the first slot whose identifier starts with them.\<close>

lemma is_str_prefix: "is_str a t \<longleftrightarrow> prefix t a"
  by (metis append_eq_conv_conj is_str_def prefix_def strncmp_eq_take)

lemma find_map_Suc: "find P (map Suc xs) = map_option Suc (find (\<lambda>i. P (Suc i)) xs)"
  by (induction xs) auto

lemma find_transaction_prefix: "find_transaction m t = find (\<lambda>i. prefix t (fst (m ! i))) [0..<length m]"
proof (induction m)
  case (Cons e m)
  have "[0..<length (e # m)] = 0 # map Suc [0..<length m]" by (simp add: map_Suc_upt upt_conv_Cons del: upt_Suc)
  then show ?case using Cons by (cases e) (simp add: is_str_prefix find_map_Suc del: upt_Suc)
qed simp

lemma sendMessage_table: "sendMessage b c = Some c' \<Longrightarrow> mJanusTransactionMap c' = mJanusTransactionMap c"
  by (auto simp: sendMessage_def bind_eq_Some_conv split: if_splits)

text \<open>The entry of a transaction that was just opened.\<close>

definition new_transaction :: "env \<Rightarrow> OnTransactionSuccess \<Rightarrow> string \<times> RtcJanusTransaction ptr" where
  "new_transaction E cb = (transaction_id E, Ptr \<lparr>jt_transactionId = transaction_id E, jt_onSuccess = cb\<rparr>)"

lemma open_transaction_table:
  "open_transaction E i cb c = Some c' \<Longrightarrow> mJanusTransactionMap c' = (mJanusTransactionMap c)[i := new_transaction E cb]"
  by (auto simp: open_transaction_def new_transaction_def split: if_splits)

lemma joins_table:
  "publisherJoinRoom E h c = Some c' \<Longrightarrow> mJanusTransactionMap c' = mJanusTransactionMap c"
  "subscriberJoinRoom E h f c = Some c' \<Longrightarrow> mJanusTransactionMap c' = mJanusTransactionMap c"
  by (auto simp: publisherJoinRoom_def subscriberJoinRoom_def bind_eq_Some_conv dest: sendMessage_table)

lemma handle_table [simp]: "mJanusTransactionMap (set_handle i jh c) = mJanusTransactionMap c"
  by (simp add: set_handle_def)

text \<open>What a callback does to the table: the first two send the next request, which takes the next slot.\<close>

lemma onSuccess_table:
  assumes "slot_cb i = Some cb" "onSuccess cb E msg rest c = Some c'"
  shows "mJanusTransactionMap c' = mJanusTransactionMap c
    \<or> i < 2 \<and> mJanusTransactionMap c' = (mJanusTransactionMap c)[Suc i := new_transaction E (the (slot_cb (Suc i)))]"
proof (cases cb)
  case CreateSession
  then have "i = 0" using assms(1) by (auto simp: slot_cb_def split: if_splits)
  then show ?thesis using assms(2) CreateSession
    by (auto simp: onSuccess_def createSession_callback_def publisherCreateHandle_def bind_eq_Some_conv slot_cb_def
        dest!: sendMessage_table open_transaction_table split: if_splits option.splits)
next
  case PublisherCreateHandle
  then have "i = 1" using assms(1) by (auto simp: slot_cb_def split: if_splits)
  then show ?thesis using assms(2) PublisherCreateHandle
    by (auto simp: onSuccess_def publisherCreateHandle_callback_def createRoom_def bind_eq_Some_conv slot_cb_def numeral_2_eq_2
        dest!: sendMessage_table open_transaction_table split: if_splits option.splits)
next
  case CreateRoom
  then show ?thesis using assms(2)
    by (auto simp: onSuccess_def createRoom_callback_def bind_eq_Some_conv Let_def dest!: joins_table split: if_splits option.splits)
next
  case SubscriberCreateHandle
  then show ?thesis using assms(2)
    by (auto simp: onSuccess_def subscriberCreateHandle_callback_def bind_eq_Some_conv dest!: joins_table split: if_splits option.splits)
qed

lemma closed_table:
  assumes "slot_cb i = Some cb" "map_option (close_transaction i) (onSuccess cb E msg rest c) = Some c'"
  shows "mJanusTransactionMap c' = (mJanusTransactionMap c)[i := ([], Dangling)]
    \<or> i < 2 \<and> mJanusTransactionMap c' = (mJanusTransactionMap c)[i := ([], Dangling), Suc i := new_transaction E (the (slot_cb (Suc i)))]"
proof -
  obtain c1 where "onSuccess cb E msg rest c = Some c1" "c' = close_transaction i c1" using assms(2) by auto
  then show ?thesis using onSuccess_table [OF assms(1), of E msg rest c c1]
    by (auto simp: close_transaction_def list_update_swap)
qed

text \<open>
  C14. In every run, a success message runs the callback of one transaction: of the first slot whose
  identifier starts with the identifier \<open>t\<close> in the message, since no more than the characters of
  \<open>t\<close> are compared. For a full identifier that is the transaction it names. The callback runs on
  the message and then the slot is closed. No other slot changes but the next one, which the request
  of the first two callbacks takes, whether or not it was free. When no identifier starts with \<open>t\<close>, nothing
  changes; and when \<open>t\<close> is empty and the first slot closed, a null or freed callback is called.
\<close>

theorem rtc_reply_dispatch:
  assumes r: "reach conn_init (conn_step js) c" "mRTCConnected c" "tab = mJanusTransactionMap c"
    and m: "validate msg" "search msg ''janus'' = Some ''success''" "search msg ''transaction'' = Some t"
  shows "case find (\<lambda>i. prefix t (fst (tab ! i))) [0..<8] of
      None \<Rightarrow> onRTCMessage E msg rest c = Some c
    | Some i \<Rightarrow>
        if fst (tab ! i) = [] then t = [] \<and> onRTCMessage E msg rest c = None
        else (length t = 12 \<longrightarrow> fst (tab ! i) = t)
          \<and> (\<exists>cb. slot_cb i = Some cb \<and> onRTCMessage E msg rest c = map_option (close_transaction i) (onSuccess cb E msg rest c))
          \<and> (\<forall>c'. onRTCMessage E msg rest c = Some c' \<longrightarrow> mJanusTransactionMap c' = tab[i := ([], Dangling)]
              \<or> i < 2 \<and> mJanusTransactionMap c' = tab[i := ([], Dangling), Suc i := new_transaction E (the (slot_cb (Suc i)))])"
proof -
  have inv: "conn_inv js c" by (rule reach_conn_inv [OF r(1)])
  then have len: "length tab = 8" using r(3) by (simp add: conn_inv_def table_ok_def)
  note msg = success_reply [OF r(2) m, of E rest]
  have ft: "find_transaction (mJanusTransactionMap c) t = find (\<lambda>i. prefix t (fst (tab ! i))) [0..<8]"
    using len r(3) by (simp add: find_transaction_prefix)
  show ?thesis
  proof (cases "find (\<lambda>i. prefix t (fst (tab ! i))) [0..<8]")
    case None
    then show ?thesis using ft by (simp add: msg transaction_success_def)
  next
    case (Some i)
    then have i: "i < 8" "prefix t (fst (tab ! i))" by (auto simp: find_Some_iff)
    show ?thesis
    proof (cases "fst (tab ! i) = []")
      case True
      have "slot_ok i (tab ! i)" using inv i r(3) by (simp add: conn_inv_def table_ok_def)
      then have "deref (snd (tab ! i)) = None" using True by (auto simp: slot_ok_def deref_def split: prod.splits)
      then show ?thesis using Some True i ft r(3) by (simp add: msg transaction_success_def)
    next
      case False
      obtain cb where cb: "slot_cb i = Some cb" "tab ! i = (fst (tab ! i), Ptr \<lparr>jt_transactionId = fst (tab ! i), jt_onSuccess = cb\<rparr>)"
        "length (fst (tab ! i)) = 12" using open_slot [OF inv i(1) _ False] r(3) by metis
      have d: "deref (snd (tab ! i)) = Some \<lparr>jt_transactionId = fst (tab ! i), jt_onSuccess = cb\<rparr>" by (subst cb(2)) (simp add: deref_def)
      have o: "onRTCMessage E msg rest c = map_option (close_transaction i) (onSuccess cb E msg rest c)"
        using Some ft d r(3) by (simp add: msg transaction_success_def map_option_case Option.bind_def split: option.split)
      have "fst (tab ! i) = t" if "length t = 12" using i(2) cb(3) that by (auto simp: prefix_def)
      then show ?thesis using Some False cb(1) o closed_table [OF cb(1), of E msg rest c] r(3) by auto
    qed
  qed
qed

text \<open>
  A success message without a transaction is fatal. While no session is being created, the empty
  identifier of the first slot matches, and the callback is called through a pointer that is null
  or already freed.
\<close>

theorem rtc_reply_without_transaction:
  assumes "reach conn_init (conn_step js) c" "mRTCConnected c" "fst (mJanusTransactionMap c ! 0) = []"
  shows "onRTCMessage E ''{\"janus\":\"success\"}'' rest c = None"
proof -
  have inv: "conn_inv js c" by (rule reach_conn_inv [OF assms(1)])
  have "slot_ok 0 (mJanusTransactionMap c ! 0)" using inv by (simp add: conn_inv_def table_ok_def)
  then have p: "deref (snd (mJanusTransactionMap c ! 0)) = None" using assms(3) by (auto simp: slot_ok_def deref_def)
  have "0 < length (mJanusTransactionMap c)" using inv by (simp add: conn_inv_def table_ok_def)
  then have f: "find_transaction (mJanusTransactionMap c) [] = Some 0"
    by (intro find_transaction_first) (simp_all add: is_str_def)
  have v: "validate ''{\"janus\":\"success\"}''" by code_simp
  have j: "search ''{\"janus\":\"success\"}'' ''janus'' = Some ''success''" by code_simp
  have t: "search ''{\"janus\":\"success\"}'' ''transaction'' = None" by code_simp
  show ?thesis using assms(2) v j t f p by (simp add: onRTCMessage_def found_def transaction_success_def)
qed

subsection \<open>Login\<close>


text \<open>The effect of a request that opens a transaction, and of one that does not.\<close>

definition requested :: "env \<Rightarrow> nat \<Rightarrow> OnTransactionSuccess \<Rightarrow> string \<Rightarrow> FRTCConnection \<Rightarrow> FRTCConnection" where
  "requested E i cb s c = c\<lparr>mJanusTransactionMap := (mJanusTransactionMap c)
     [i := (transaction_id E, Ptr \<lparr>jt_transactionId = transaction_id E, jt_onSuccess = cb\<rparr>)], mTx := mTx c @ [s]\<rparr>"

lemma transaction_request:
  assumes "env_mem E" "mRTCConnected c" "mWSConnetion c = Ptr ()" "length s < n"
  shows "do { b \<leftarrow> print_str n s; c \<leftarrow> open_transaction E i cb c; sendMessage b c } = Some (requested E i cb s c)"
  using assms by (simp add: print_str_def open_transaction_def sendMessage_def deref_def requested_def)

lemma plain_request:
  assumes "mRTCConnected c" "mWSConnetion c = Ptr ()" "length s < n"
  shows "do { b \<leftarrow> print_str n s; sendMessage b c } = Some (c\<lparr>mTx := mTx c @ [s]\<rparr>)"
  using assms by (simp add: print_str_def sendMessage_def deref_def)

lemma reply_runs:
  assumes "mRTCConnected c" "validate msg" "search msg ''janus'' = Some ''success''" "search msg ''transaction'' = Some t"
    and "i < length (mJanusTransactionMap c)" "mJanusTransactionMap c ! i = (t, Ptr jt)" "t \<noteq> []"
    and "\<And>k. k < i \<Longrightarrow> fst (mJanusTransactionMap c ! k) = []"
    and "onSuccess (jt_onSuccess jt) E msg [] c = Some c'"
  shows "onRTCMessage E msg [] c = Some (close_transaction i c')"
proof -
  have "\<not> is_str [] t" using assms(7) by (cases t) (simp_all add: is_str_def)
  then have "find_transaction (mJanusTransactionMap c) t = Some i"
    using assms(5,6,8) by (intro find_transaction_first) simp_all
  then show ?thesis
    using assms(6,9) by (simp add: success_reply [OF assms(1-4)] transaction_success_def deref_def)
qed

text \<open>The first reply stores the session and asks for a handle.\<close>

lemma login_session:
  assumes "mRTCConnected c" "mWSConnetion c = Ptr ()" "env_mem E" "length (mJanusTransactionMap c) = 8"
    and "mJanusTransactionMap c ! 0 = (t, Ptr jt)" "t \<noteq> []" "jt_onSuccess jt = CreateSession"
    and "validate m" "search m ''janus'' = Some ''success''" "search m ''transaction'' = Some t" "search m ''data.id'' = Some (lld sid)"
    and "search m ''standalone'' = None" "search m ''data.version'' = None"
    and "length (g_rtc_attach_cmd (transaction_id E) (lld sid)) < DEFAULT_SIZE"
  shows "onRTCMessage E m [] c = Some (close_transaction 0 (requested E 1 PublisherCreateHandle
    (g_rtc_attach_cmd (transaction_id E) (lld sid)) (c\<lparr>mSessionId := sid\<rparr>)))"
proof (rule reply_runs [OF assms(1,8-10) _ assms(5,6)])
  show "onSuccess (jt_onSuccess jt) E m [] c = Some (requested E 1 PublisherCreateHandle
      (g_rtc_attach_cmd (transaction_id E) (lld sid)) (c\<lparr>mSessionId := sid\<rparr>))"
    using assms transaction_request [of E "c\<lparr>mSessionId := sid\<rparr>"]
    by (simp add: onSuccess_def createSession_callback_def publisherCreateHandle_def)
qed (use assms(4) in simp_all)

text \<open>The second one is answered with a request for a room.\<close>

lemma login_handle:
  assumes "mRTCConnected c" "mWSConnetion c = Ptr ()" "env_mem E" "length (mJanusTransactionMap c) = 8"
    and "mJanusTransactionMap c ! 1 = (t, Ptr jt)" "t \<noteq> []" "jt_onSuccess jt = PublisherCreateHandle"
    and "fst (mJanusTransactionMap c ! 0) = []" "\<not> mMediaServerStandalone_needRoomID c"
    and "validate m" "search m ''janus'' = Some ''success''" "search m ''transaction'' = Some t" "search m ''data.id'' = Some (lld hid)"
    and "s = g_rtc_create_room (mUserId c) (mAppId c) ''room_name'' (mRoomName c) ''RTOS'' (mVideoCodec c) (mAudioCodec c)
      (transaction_id E) (lld (mSessionId c)) (lld hid)" "length s < DEFAULT_SIZE"
  shows "onRTCMessage E m [] c = Some (close_transaction 1 (requested E 2 CreateRoom s c))"
proof (rule reply_runs [OF assms(1,10-12) _ assms(5,6)])
  show "onSuccess (jt_onSuccess jt) E m [] c = Some (requested E 2 CreateRoom s c)"
    using assms transaction_request [of E c]
    by (simp add: onSuccess_def publisherCreateHandle_callback_def createRoom_def)
qed (use assms(4,8) in simp_all)

text \<open>The third one stores the room and the handle, and the publisher joins.\<close>

lemma login_room:
  assumes "mRTCConnected c" "mWSConnetion c = Ptr ()" "env_mem E" "length (mJanusTransactionMap c) = 8"
    and "mJanusTransactionMap c ! 2 = (t, Ptr jt)" "t \<noteq> []" "jt_onSuccess jt = CreateRoom"
    and "fst (mJanusTransactionMap c ! 0) = []" "fst (mJanusTransactionMap c ! 1) = []" "mAsPublisher c"
    and "validate m" "search m ''janus'' = Some ''success''" "search m ''transaction'' = Some t" "search m ''sender'' = Some (lld hid)"
    and "search m ''plugindata.data.room'' = Some (lld room)" "search m ''jsep'' = None"
    and "s = g_rtc_join_room (lld room) (mDisplayName c) (lld (atoll (mUserId c))) (mAppId c) (mRoomName c) (mTokenStr c)
      (transaction_id E) (lld (mSessionId c)) (lld hid)" "length s < DEFAULT_SIZE"
  shows "onRTCMessage E m [] c = Some (close_transaction 2 ((set_handle 0 \<lparr>jh_handleId = hid, jh_feedId = mFeedId c,
    jh_onJoined = Ptr OnPublisherJoined, jh_onRemoteJsep = Ptr OnPublisherRemoteJsep\<rparr> (c\<lparr>mRoomId := room\<rparr>))\<lparr>mTx := mTx c @ [s]\<rparr>))"
    (is "_ = Some (close_transaction 2 ?c')")
proof (rule reply_runs [OF assms(1,11-13) _ assms(5,6)])
  show "onSuccess (jt_onSuccess jt) E m [] c = Some ?c'"
    using assms plain_request [of "set_handle 0 \<lparr>jh_handleId = hid, jh_feedId = mFeedId c,
      jh_onJoined = Ptr OnPublisherJoined, jh_onRemoteJsep = Ptr OnPublisherRemoteJsep\<rparr> (c\<lparr>mRoomId := room\<rparr>)" s]
    by (simp add: onSuccess_def createRoom_callback_def publisherJoinRoom_def set_handle_def)
qed (use assms(4,8,9) in \<open>auto simp: less_Suc_eq numeral_2_eq_2\<close>)

definition is_reply :: "string \<Rightarrow> string \<Rightarrow> bool" where
  "is_reply m t \<longleftrightarrow> validate m \<and> search m ''janus'' = Some ''success'' \<and> search m ''transaction'' = Some t"

text \<open>The four requests of a login, with the numbers that the replies bring.\<close>

definition login_requests :: "env \<Rightarrow> env \<Rightarrow> env \<Rightarrow> env \<Rightarrow> u64 \<Rightarrow> u64 \<Rightarrow> u64 \<Rightarrow> FRTCConnection \<Rightarrow> string list" where
  "login_requests E0 E1 E2 E3 sid hid room c =
     [g_rtc_create_session (transaction_id E0) (mSDKTag c) (mMediaServerIP c) (mOriginURI c),
      g_rtc_attach_cmd (transaction_id E1) (lld sid),
      g_rtc_create_room (mUserId c) (mAppId c) ''room_name'' (mRoomName c) ''RTOS'' (mVideoCodec c) (mAudioCodec c)
        (transaction_id E2) (lld sid) (lld hid),
      g_rtc_join_room (lld room) (mDisplayName c) (lld (atoll (mUserId c))) (mAppId c) (mRoomName c) (mTokenStr c)
        (transaction_id E3) (lld sid) (lld hid)]"

lemma transaction_id_nonempty [simp]: "transaction_id E \<noteq> []"
  using transaction_id_ok(1) [of E] by auto

text \<open>
  C15. A publisher logs in. From the opening of the WebSocket on, the three replies of the server lead
  to the four requests that create a session, a handle and a room and join it, in this order, each
  with the numbers of the replies before it. At the end the session, the room and the handle are
  those of the server, the handle has the callbacks of a publisher, and no transaction is open.
\<close>

theorem rtc_login:
  assumes fresh: "map fst (mJanusTransactionMap c) = replicate 8 []" "mWSConnetion c = Ptr ()" "length (mJanusHandlesMap c) = 2"
      "mAsPublisher c" "\<not> mMediaServerStandalone_needRoomID c"
    and mem: "env_mem E0" "env_mem E1" "env_mem E2" "env_mem E3"
    and m1: "is_reply m1 (transaction_id E0)" "search m1 ''data.id'' = Some (lld sid)" "search m1 ''standalone'' = None"
      "search m1 ''data.version'' = None"
    and m2: "is_reply m2 (transaction_id E1)" "search m2 ''data.id'' = Some (lld hid)"
    and m3: "is_reply m3 (transaction_id E2)" "search m3 ''sender'' = Some (lld hid)"
      "search m3 ''plugindata.data.room'' = Some (lld room)" "search m3 ''jsep'' = None"
    and short: "\<forall>r \<in> set (login_requests E0 E1 E2 E3 sid hid room c). length r < DEFAULT_SIZE"
  shows "\<exists>c'. do { c \<leftarrow> onRTCOpen E0 c; c \<leftarrow> onRTCMessage E1 m1 [] c; c \<leftarrow> onRTCMessage E2 m2 [] c; onRTCMessage E3 m3 [] c } = Some c'
    \<and> mTx c' = mTx c @ login_requests E0 E1 E2 E3 sid hid room c
    \<and> mSessionId c' = sid \<and> mRoomId c' = room
    \<and> mJanusHandlesMap c' ! 0 = (hid, Ptr \<lparr>jh_handleId = hid, jh_feedId = mFeedId c, jh_onJoined = Ptr OnPublisherJoined,
        jh_onRemoteJsep = Ptr OnPublisherRemoteJsep\<rparr>)
    \<and> map fst (mJanusTransactionMap c') = replicate 8 []"
proof -
  have len: "length (mJanusTransactionMap c) = 8" using arg_cong [OF fresh(1), of length] by simp
  let ?rs = "login_requests E0 E1 E2 E3 sid hid room c"
  note fields = observe_def requested_def close_transaction_def set_handle_def
  have r: "length (?rs ! 0) < DEFAULT_SIZE" "length (?rs ! 1) < DEFAULT_SIZE" "length (?rs ! 2) < DEFAULT_SIZE" "length (?rs ! 3) < DEFAULT_SIZE"
    using short by (simp_all add: login_requests_def)
  define c0 where "c0 = observe onRTCLoginOK (c\<lparr>mRTCConnected := True, mbAliving := True\<rparr>)"
  define c1 where "c1 = requested E0 0 CreateSession (?rs ! 0) c0"
  define c2 where "c2 = close_transaction 0 (requested E1 1 PublisherCreateHandle (?rs ! 1) (c1\<lparr>mSessionId := sid\<rparr>))"
  define c3 where "c3 = close_transaction 1 (requested E2 2 CreateRoom (?rs ! 2) c2)"
  define jh where "jh = \<lparr>jh_handleId = hid, jh_feedId = mFeedId c, jh_onJoined = Ptr OnPublisherJoined, jh_onRemoteJsep = Ptr OnPublisherRemoteJsep\<rparr>"
  define c4 where "c4 = close_transaction 2 ((set_handle 0 jh (c3\<lparr>mRoomId := room\<rparr>))\<lparr>mTx := mTx c3 @ [?rs ! 3]\<rparr>)"
  have keep: "f c3 = f c0" "f c2 = f c0" "f c1 = f c0" if "f \<in> {mSDKTag, mMediaServerIP, mOriginURI, mUserId, mAppId, mRoomName, mVideoCodec,
      mAudioCodec, mDisplayName, mTokenStr}" for f
    using that by (auto simp: c3_def c2_def c1_def fields)
  have keep0: "f c0 = f c" if "f \<in> {mSDKTag, mMediaServerIP, mOriginURI, mUserId, mAppId, mRoomName, mVideoCodec,
      mAudioCodec, mDisplayName, mTokenStr}" for f
    using that by (auto simp: c0_def fields)
  have up: "mRTCConnected c0" "mRTCConnected c1" "mRTCConnected c2" "mRTCConnected c3"
    "mWSConnetion c0 = Ptr ()" "mWSConnetion c1 = Ptr ()" "mWSConnetion c2 = Ptr ()" "mWSConnetion c3 = Ptr ()"
    using fresh(2) by (simp_all add: c3_def c2_def c1_def c0_def fields)
  have tab: "length (mJanusTransactionMap c1) = 8" "length (mJanusTransactionMap c2) = 8" "length (mJanusTransactionMap c3) = 8"
    "mJanusTransactionMap c1 ! 0 = (transaction_id E0, Ptr \<lparr>jt_transactionId = transaction_id E0, jt_onSuccess = CreateSession\<rparr>)"
    "mJanusTransactionMap c2 ! 1 = (transaction_id E1, Ptr \<lparr>jt_transactionId = transaction_id E1, jt_onSuccess = PublisherCreateHandle\<rparr>)"
    "mJanusTransactionMap c3 ! 2 = (transaction_id E2, Ptr \<lparr>jt_transactionId = transaction_id E2, jt_onSuccess = CreateRoom\<rparr>)"
    "fst (mJanusTransactionMap c2 ! 0) = []" "fst (mJanusTransactionMap c3 ! 0) = []" "fst (mJanusTransactionMap c3 ! 1) = []"
    using len by (simp_all add: c3_def c2_def c1_def c0_def fields)
  have state: "mSessionId c2 = sid" "mSessionId c3 = sid" "\<not> mMediaServerStandalone_needRoomID c2" "mAsPublisher c3" "mFeedId c3 = mFeedId c"
    using fresh(4,5) by (simp_all add: c3_def c2_def c1_def c0_def fields)
  have "onRTCOpen E0 c = Some c1"
    unfolding onRTCOpen_def createSession_def c1_def c0_def [symmetric]
    using transaction_request [OF mem(1) up(1) up(5)] r by (simp add: login_requests_def keep0)
  moreover have "onRTCMessage E1 m1 [] c1 = Some c2"
    using login_session [OF up(2,6) mem(2) tab(1,4)] m1 r by (simp add: is_reply_def c2_def login_requests_def)
  moreover have "onRTCMessage E2 m2 [] c2 = Some c3"
    using login_handle [OF up(3,7) mem(3) tab(2,5)] m2 r tab state by (simp add: is_reply_def c3_def login_requests_def keep keep0)
  moreover have "onRTCMessage E3 m3 [] c3 = Some c4"
    using login_room [OF up(4,8) mem(4) tab(3,6), of m3 hid room] m3 r tab state
    by (simp add: is_reply_def c4_def jh_def login_requests_def keep keep0)
  moreover have "map fst (mJanusTransactionMap c4) = replicate 8 []"
  proof -
    have "mJanusTransactionMap c4 = (mJanusTransactionMap c)[0 := ([], Dangling), 1 := ([], Dangling), 2 := ([], Dangling)]"
      by (simp add: c4_def c3_def c2_def c1_def c0_def fields list_update_swap)
    then show ?thesis by (simp add: map_update fresh(1) numeral_eq_Suc)
  qed
  moreover have "mTx c4 = mTx c @ ?rs" by (simp add: c4_def c3_def c2_def c1_def c0_def fields) (simp add: login_requests_def)
  moreover have "mSessionId c4 = sid" "mRoomId c4 = room" using state by (simp_all add: c4_def fields)
  moreover have "mJanusHandlesMap c4 ! 0 = (hid, Ptr jh)"
    using fresh(3) by (simp add: c4_def c3_def c2_def c1_def c0_def fields jh_def)
  ultimately show ?thesis by (intro exI [of _ c4]) (simp add: jh_def)
qed

text \<open>The three replies of a server.\<close>

definition reply1 :: string where
  "reply1 = ''{\"janus\":\"success\",\"transaction\":\"AAAAAAAAAAAA\",\"data\":{\"id\":7}}''"

definition reply2 :: string where
  "reply2 = ''{\"janus\":\"success\",\"transaction\":\"BBBBBBBBBBBB\",\"data\":{\"id\":8}}''"

definition reply3 :: string where
  "reply3 = ''{\"janus\":\"success\",\"transaction\":\"CCCCCCCCCCCC\",\"sender\":8,\"plugindata\":{\"data\":{\"room\":9}}}''"

lemma lld_digit: "d < 10 \<Longrightarrow> lld (of_nat d) = [digit_char d]"
proof -
  assume "d < 10"
  then have "sint (of_nat d :: u64) = int d"
    by (simp add: sint_uint unsigned_of_nat take_bit_nat_eq_self signed_take_bit_int_eq_self_iff)
  then show ?thesis using \<open>d < 10\<close> by (simp add: lld_def dec.simps [of d])
qed

lemma lld_ex: "lld 7 = ''7''" "lld 8 = ''8''" "lld 9 = ''9''"
proof -
  have d: "digit_char 7 = CHR ''7''" "digit_char 8 = CHR ''8''" "digit_char 9 = CHR ''9''" by code_simp+
  show "lld 7 = ''7''" "lld 8 = ''8''" "lld 9 = ''9''" using lld_digit [of 7] lld_digit [of 8] lld_digit [of 9] d by simp_all
qed

lemma ids_ex: "transaction_id (env_ex 0) = ''AAAAAAAAAAAA''" "transaction_id (env_ex 1) = ''BBBBBBBBBBBB''"
  "transaction_id (env_ex 2) = ''CCCCCCCCCCCC''" "transaction_id (env_ex 3) = ''DDDDDDDDDDDD''"
  by code_simp+

lemma reply1_ex: "is_reply reply1 ''AAAAAAAAAAAA''" "search reply1 ''data.id'' = Some ''7''" "search reply1 ''standalone'' = None"
  "search reply1 ''data.version'' = None"
  by code_simp+

lemma reply2_ex: "is_reply reply2 ''BBBBBBBBBBBB''" "search reply2 ''data.id'' = Some ''8''"
  by code_simp+

lemma reply3_ex: "is_reply reply3 ''CCCCCCCCCCCC''" "search reply3 ''sender'' = Some ''8''"
  "search reply3 ''plugindata.data.room'' = Some ''9''" "search reply3 ''jsep'' = None"
  by code_simp+

lemma conn_up_fields:
  "mSDKTag conn_up = []" "mMediaServerIP conn_up = []" "mOriginURI conn_up = ''wss://media''" "mWSConnetion conn_up = Ptr ()"
  "mTx conn_up = []" "mUserId conn_up = ''10001''" "mAppId conn_up = []" "mRoomName conn_up = ''2131''" "mVideoCodec conn_up = ''h263''"
  "mAudioCodec conn_up = ''pcmu''" "mDisplayName conn_up = ''BRTC RTOS demo''" "mTokenStr conn_up = []" "mAsPublisher conn_up"
  "\<not> mMediaServerStandalone_needRoomID conn_up" "mFeedId conn_up = 0"
  "mJanusTransactionMap conn_up = replicate 8 ([], Null)" "mJanusHandlesMap conn_up = replicate 2 (0, Null)"
  by (simp_all add: conn_up_def connecting_def construct_lengths lld_0 print_str_def g_rtc_connect_url_def DEFAULT_SIZE_def Let_def)
    (simp_all add: FRTCConnection_construct_def RTC_JANUS_TRANSACTION_MAP_LEN_def RTC_JANUS_HANDLE_MAP_LEN_def)

lemma login_short: "r \<in> set (login_requests (env_ex 0) (env_ex 1) (env_ex 2) (env_ex 3) 7 8 9 conn_up) \<Longrightarrow> length r < DEFAULT_SIZE"
  using lld_length [of "atoll ''10001''"]
  by (auto simp: login_requests_def conn_up_fields transaction_id_ok(1) lld_ex DEFAULT_SIZE_def MIN_SIZE_def g_rtc_create_session_def g_rtc_attach_cmd_def
      g_rtc_create_room_def g_rtc_join_room_def)

theorem rtc_login_witness:
  "\<exists>c'. do { c \<leftarrow> onRTCOpen (env_ex 0) conn_up; c \<leftarrow> onRTCMessage (env_ex 1) reply1 [] c; c \<leftarrow> onRTCMessage (env_ex 2) reply2 [] c;
       onRTCMessage (env_ex 3) reply3 [] c } = Some c'
     \<and> mTx c' = login_requests (env_ex 0) (env_ex 1) (env_ex 2) (env_ex 3) 7 8 9 conn_up
     \<and> mSessionId c' = 7 \<and> mRoomId c' = 9 \<and> fst (mJanusHandlesMap c' ! 0) = 8"
proof -
  note login = rtc_login [of conn_up "env_ex 0" "env_ex 1" "env_ex 2" "env_ex 3" reply1 7 reply2 8 reply3 9]
  have "\<forall>r \<in> set (login_requests (env_ex 0) (env_ex 1) (env_ex 2) (env_ex 3) 7 8 9 conn_up). length r < DEFAULT_SIZE"
    using login_short by blast
  then obtain c' where "do { c \<leftarrow> onRTCOpen (env_ex 0) conn_up; c \<leftarrow> onRTCMessage (env_ex 1) reply1 [] c;
       c \<leftarrow> onRTCMessage (env_ex 2) reply2 [] c; onRTCMessage (env_ex 3) reply3 [] c } = Some c'"
    "mTx c' = mTx conn_up @ login_requests (env_ex 0) (env_ex 1) (env_ex 2) (env_ex 3) 7 8 9 conn_up"
    "mSessionId c' = 7" "mRoomId c' = 9" "fst (mJanusHandlesMap c' ! 0) = 8"
    using login [unfolded ids_ex lld_ex] reply1_ex reply2_ex reply3_ex by (auto simp: conn_up_fields)
  then show ?thesis by (intro exI [of _ c']) (simp add: conn_up_fields)
qed

lemma conn_open_table: "mJanusTransactionMap conn_open = (''AAAAAAAAAAAA'', Ptr \<lparr>jt_transactionId = ''AAAAAAAAAAAA'',
  jt_onSuccess = CreateSession\<rparr>) # replicate 7 ([], Null)" "mWSConnetion conn_open = Ptr ()"
proof -
  let ?m = "g_rtc_create_session ''AAAAAAAAAAAA'' [] [] ''wss://media''"
  have "length ?m < DEFAULT_SIZE" by (simp add: g_rtc_create_session_def DEFAULT_SIZE_def)
  then have "onRTCOpen (env_ex 0) conn_up = Some (requested (env_ex 0) 0 CreateSession ?m
      (observe onRTCLoginOK (conn_up\<lparr>mRTCConnected := True, mbAliving := True\<rparr>)))"
    unfolding onRTCOpen_def createSession_def
    using transaction_request [of "env_ex 0" "observe onRTCLoginOK (conn_up\<lparr>mRTCConnected := True, mbAliving := True\<rparr>)"]
    by (simp add: observe_def conn_up_fields ids_ex)
  then have eq: "conn_open = requested (env_ex 0) 0 CreateSession ?m
      (observe onRTCLoginOK (conn_up\<lparr>mRTCConnected := True, mbAliving := True\<rparr>))" by (simp add: conn_open_def)
  show "mJanusTransactionMap conn_open = (''AAAAAAAAAAAA'', Ptr \<lparr>jt_transactionId = ''AAAAAAAAAAAA'',
      jt_onSuccess = CreateSession\<rparr>) # replicate 7 ([], Null)" "mWSConnetion conn_open = Ptr ()"
    unfolding eq by (simp_all add: requested_def observe_def conn_up_fields ids_ex numeral_eq_Suc)
qed

theorem rtc_reply_dispatch_witness:
  "\<exists>cb. slot_cb 0 = Some cb
     \<and> onRTCMessage (env_ex 1) reply1 [] conn_open = map_option (close_transaction 0) (onSuccess cb (env_ex 1) reply1 [] conn_open)"
proof -
  let ?t = "''AAAAAAAAAAAA''"
  have f: "find (\<lambda>i. prefix ?t (fst (mJanusTransactionMap conn_open ! i))) [0..<8] = Some 0"
    by (simp add: conn_open_table upt_conv_Cons)
  show ?thesis
    using rtc_reply_dispatch [OF conn_open_reach conn_open_eq(2) refl, of reply1 ?t "env_ex 1" "[]"] reply1_ex(1) f
    by (simp add: is_reply_def conn_open_table)
qed

theorem rtc_reply_without_transaction_witness:
  "\<exists>c. reach conn_init (conn_step True) c \<and> mSessionId c = 7 \<and> onRTCMessage (env_ex 2) ''{\"janus\":\"success\"}'' [] c = None"
proof -
  let ?c = "close_transaction 0 (requested (env_ex 1) 1 PublisherCreateHandle (g_rtc_attach_cmd (transaction_id (env_ex 1)) (lld 7))
    (conn_open\<lparr>mSessionId := 7\<rparr>))"
  have "onRTCMessage (env_ex 1) reply1 [] conn_open = Some ?c"
    using login_session [of conn_open "env_ex 1" "''AAAAAAAAAAAA''" _ reply1 7] reply1_ex conn_open_eq(2)
    by (simp add: conn_open_table is_reply_def lld_ex transaction_id_ok(1) g_rtc_attach_cmd_def DEFAULT_SIZE_def)
  then have r: "reach conn_init (conn_step True) ?c"
    by (intro reach_step [OF conn_open_reach] conn_step.ws [of "env_ex 1" "MG_EV_WS_MSG reply1 []"])
      (simp add: RTCConnection_baidurtc_client_def)
  have "mRTCConnected ?c" "fst (mJanusTransactionMap ?c ! 0) = []" "mSessionId ?c = 7"
    using conn_open_eq(2) by (simp_all add: close_transaction_def requested_def conn_open_table)
  then show ?thesis using rtc_reply_without_transaction [OF r, of "env_ex 2" "[]"] r by blast
qed

subsection \<open>What goes wrong\<close>

text \<open>The format for a candidate has a quote too many.\<close>

lemma trickle_not_json: "\<not> validate (g_rtc_trickle_cmd ''1'' ''A'' ''7'' ''8'')"
  by code_simp

text \<open>The event about media never says that media is sent: the wrong value is compared.\<close>

lemma media_never_sending:
  assumes "is_str ''media'' janus" "\<not> is_str ''success'' janus"
  shows "\<exists>t. media_event msg janus c = observe (onRTCMediaStreamingEvent 0 t False) c"
proof -
  have "janus \<noteq> []" using assms(2) by (auto simp: is_str_def)
  then obtain x s where "janus = x # s" by (cases janus) auto
  then have "\<not> is_str ''true'' janus" using assms(1) by (auto simp: is_str_def)
  then show ?thesis by (auto simp: media_event_def Let_def split: option.splits)
qed

text \<open>The handle is freed with its first remote description, and a second one reads it.\<close>

lemma jsep_twice:
  assumes "event_jsep msg rest (Some (i, p)) c = Some (Return c')" "i < length (mJanusHandlesMap c')"
  shows "snd (mJanusHandlesMap c' ! i) = Dangling \<and> event_jsep msg rest (Some (i, Dangling)) c' = None"
proof -
  have "snd (mJanusHandlesMap c' ! i) = Dangling" using assms(1) by (rule event_jsep_Return) (use assms(2) in auto)
  moreover have "event_jsep msg rest (Some (i, Dangling)) c' = None"
    using assms(1) by (auto simp: event_jsep_def deref_def Let_def split: option.splits)
  ultimately show ?thesis by simp
qed

text \<open>The handle of a subscriber has no callback for the event that it joined: an indeterminate pointer is called.\<close>

lemma subscriber_joined_garbage:
  assumes "search msg ''plugindata.data.videoroom'' = Some ''joined''" "jh_onJoined jh = Dangling"
  shows "event_joined msg (Some (1, Ptr jh)) c = None"
  using assms by (simp add: event_joined_def deref_def)

text \<open>A room number cannot be used: it is printed as if it were a string.\<close>

lemma room_number_unusable: "mMediaServerStandalone_needRoomID c \<Longrightarrow> createRoom E h c = None"
  by (simp add: createRoom_def)

end
