(* ===== verification/PeerConn.thy ===== *)
theory PeerConn
  imports Prelude
begin

text \<open>
  The peer connection of the application, \<^verbatim>\<open>barertc/src/peerconn.c\<close>, with its media tracks,
  \<^verbatim>\<open>barertc/src/mediatrack.c\<close>: the offer/answer state machine, the events of ICE and DTLS, and
  the timer that retries the start of ICE.

  Calls that leave the two files (SDP coding, the handlers of the owner, the streams, the NAT
  traversal session) are recorded in the order they are made in the field \<open>pc_log\<close>; their results
  are arguments. An audio or video object is represented by the stream it owns (\<^verbatim>\<open>audio_strm\<close> and
  \<^verbatim>\<open>video_strm\<close> give the stream of an object and null for null). The tracks are only ever removed all
  together, so a pointer to a track is its position in the list. A dereference of a null pointer
  gives \<open>None\<close>.
\<close>

section \<open>State\<close>

type_synonym strm = nat

datatype signaling_st = SS_STABLE | SS_HAVE_LOCAL_OFFER | SS_HAVE_REMOTE_OFFER
datatype sdp_type = SDP_OFFER | SDP_ANSWER
datatype media_kind = MEDIA_KIND_AUDIO | MEDIA_KIND_VIDEO
datatype menc_event = MENC_EVENT_SECURE | MENC_EVENT_VERIFY_REQUEST | MENC_EVENT_PEER_VERIFIED

record media_track =
  mt_kind :: media_kind
  mt_u :: "strm option"
  mt_ice_conn :: bool
  mt_dtls_ok :: bool
  mt_rtp :: bool
  mt_rtcp :: bool

datatype call =
    GatherH | EstabH nat | CloseH err
  | SdpDecode sdp_type err | SdpEncode sdp_type err
  | VideoSdpAttrDecode strm | StreamUpdate strm
  | StreamSetSecure "strm option" bool | StreamStart "strm option" | StreamStartMediaenc strm err
  | MnatUpdate err
  | EncoderSet media_kind "strm option" | StartSource media_kind "strm option"
  | AudioStop "strm option" | VideoStop "strm option"

record mnat =
  mnat_sessh :: bool
  mnat_updateh :: bool

record peer_connection =
  pc_streaml :: "strm list"
  pc_medial :: "media_track list"
  pc_mnat :: "mnat option"
  pc_mnats :: bool
  pc_mencs :: bool
  pc_signaling_state :: signaling_st
  pc_gatherh :: bool
  pc_estabh :: bool
  pc_closeh :: bool
  pc_ice_tmr :: bool
  pc_ice_retry_times :: nat
  pc_gather_ok :: bool
  pc_sdp_enc_ok :: bool
  pc_sdp_dec_ok :: bool
  pc_log :: "call list"

definition log_call :: "call \<Rightarrow> peer_connection \<Rightarrow> peer_connection" where
  "log_call c pc = pc\<lparr>pc_log := pc_log pc @ [c]\<rparr>"

section \<open>Media tracks\<close>

definition media_track_add :: "bool \<Rightarrow> media_kind \<Rightarrow> peer_connection \<Rightarrow> nat option \<times> peer_connection" where
  "media_track_add mem_ok kind pc =
     (if \<not> mem_ok then (None, pc)
      else (Some (length (pc_medial pc)),
            pc\<lparr>pc_medial := pc_medial pc @ [\<lparr>mt_kind = kind, mt_u = None, mt_ice_conn = False,
                                              mt_dtls_ok = False, mt_rtp = False, mt_rtcp = False\<rparr>]\<rparr>))"

definition media_get_stream :: "media_track option \<Rightarrow> strm option" where
  "media_get_stream media = (case media of None \<Rightarrow> None | Some m \<Rightarrow> mt_u m)"

definition media_kind_name :: "media_kind \<Rightarrow> string" where
  "media_kind_name kind = (case kind of MEDIA_KIND_AUDIO \<Rightarrow> ''audio'' | MEDIA_KIND_VIDEO \<Rightarrow> ''video'')"

text \<open>
  Starting a track: \<open>fmt\<close> says whether the remote media has a format, \<open>enc_err\<close> and \<open>src_err\<close> are
  the results of setting the encoder and starting the source. The result is the error and the
  calls made.
\<close>

definition mediatrack_start :: "media_kind \<Rightarrow> media_track option \<Rightarrow> bool \<Rightarrow> err \<Rightarrow> err \<Rightarrow> err \<times> call list" where
  "mediatrack_start kind media fmt enc_err src_err =
     (case media of
        None \<Rightarrow> (EINVAL, [])
      | Some m \<Rightarrow>
          if \<not> mt_ice_conn m \<or> \<not> mt_dtls_ok m then (EPROTO, [])
          else if fmt then
            if enc_err \<noteq> OK then (enc_err, [EncoderSet kind (mt_u m)])
            else (src_err, [EncoderSet kind (mt_u m), StartSource kind (mt_u m)])
          else (OK, []))"

definition mediatrack_start_audio :: "media_track option \<Rightarrow> bool \<Rightarrow> err \<Rightarrow> err \<Rightarrow> err \<times> call list" where
  "mediatrack_start_audio = mediatrack_start MEDIA_KIND_AUDIO"

definition mediatrack_start_video :: "media_track option \<Rightarrow> bool \<Rightarrow> err \<Rightarrow> err \<Rightarrow> err \<times> call list" where
  "mediatrack_start_video = mediatrack_start MEDIA_KIND_VIDEO"

definition mediatrack_stop :: "media_track option \<Rightarrow> call list" where
  "mediatrack_stop media =
     (case media of
        None \<Rightarrow> []
      | Some m \<Rightarrow> (case mt_kind m of
                    MEDIA_KIND_AUDIO \<Rightarrow> [AudioStop (mt_u m)]
                  | MEDIA_KIND_VIDEO \<Rightarrow> [VideoStop (mt_u m)]))"

section \<open>The peer connection\<close>

definition signaling_state_name :: "signaling_st \<Rightarrow> string" where
  "signaling_state_name ss =
     (case ss of SS_STABLE \<Rightarrow> ''stable'' | SS_HAVE_LOCAL_OFFER \<Rightarrow> ''have-local-offer''
      | SS_HAVE_REMOTE_OFFER \<Rightarrow> ''have-remote-offer'')"

definition destructor :: "peer_connection \<Rightarrow> peer_connection" where
  "destructor pc =
     pc\<lparr>pc_log := pc_log pc @ concat (map (\<lambda>m. mediatrack_stop (Some m)) (pc_medial pc)),
        pc_medial := [], pc_mnats := False, pc_mencs := False\<rparr>"

text \<open>The position of the first track with the stream.\<close>

fun lookup_media :: "media_track list \<Rightarrow> strm option \<Rightarrow> nat option" where
  "lookup_media [] s = None"
| "lookup_media (m # ms) s =
     (if s = media_get_stream (Some m) then Some 0 else map_option Suc (lookup_media ms s))"

definition pc_close :: "err \<Rightarrow> peer_connection \<Rightarrow> peer_connection" where
  "pc_close e pc =
     (let closeh = pc_closeh pc; pc = pc\<lparr>pc_closeh := False\<rparr>
      in if closeh then log_call (CloseH e) pc else pc)"

definition audio_error_handler :: "err \<Rightarrow> peer_connection \<Rightarrow> peer_connection" where
  "audio_error_handler e pc = pc_close e pc"

definition video_error_handler :: "err \<Rightarrow> peer_connection \<Rightarrow> peer_connection" where
  "video_error_handler e pc = pc_close e pc"

definition mnat_estab_handler :: "err \<Rightarrow> u16 \<Rightarrow> peer_connection \<Rightarrow> peer_connection" where
  "mnat_estab_handler e scode pc =
     (if e \<noteq> OK then pc_close e pc
      else if scode \<noteq> 0 then pc_close EPROTO pc
      else
        let pc = pc\<lparr>pc_gather_ok := True\<rparr>
        in if pc_gatherh pc then log_call GatherH pc else pc)"

definition set_track :: "nat \<Rightarrow> (media_track \<Rightarrow> media_track) \<Rightarrow> peer_connection \<Rightarrow> peer_connection" where
  "set_track i f pc = pc\<lparr>pc_medial := (pc_medial pc)[i := f (pc_medial pc ! i)]\<rparr>"

definition menc_event_handler :: "menc_event \<Rightarrow> strm option \<Rightarrow> peer_connection \<Rightarrow> peer_connection option" where
  "menc_event_handler event s pc =
     (let media = lookup_media (pc_medial pc) s in
      case event of
        MENC_EVENT_SECURE \<Rightarrow>
          (case media of
             None \<Rightarrow> None
           | Some i \<Rightarrow>
               let pc = set_track i (\<lambda>m. m\<lparr>mt_dtls_ok := True\<rparr>) pc;
                   pc = log_call (StreamStart s) (log_call (StreamSetSecure s True) pc)
               in Some (if pc_estabh pc then log_call (EstabH i) pc else pc))
      | _ \<Rightarrow> Some pc)"

definition menc_error_handler :: "err \<Rightarrow> peer_connection \<Rightarrow> peer_connection" where
  "menc_error_handler e pc = (if pc_closeh pc then log_call (CloseH e) pc else pc)"

definition mnatconn_handler :: "err \<Rightarrow> strm \<Rightarrow> nat \<Rightarrow> peer_connection \<Rightarrow> peer_connection" where
  "mnatconn_handler menc_err s i pc =
     (let pc = set_track i (\<lambda>m. m\<lparr>mt_ice_conn := True\<rparr>) pc;
          pc = log_call (StreamStartMediaenc s menc_err) pc
      in if menc_err \<noteq> OK then pc_close menc_err pc else pc)"

definition rtpestab_handler :: "nat \<Rightarrow> peer_connection \<Rightarrow> peer_connection" where
  "rtpestab_handler i pc = set_track i (\<lambda>m. m\<lparr>mt_rtp := True\<rparr>) pc"

definition rtcp_handler :: "nat \<Rightarrow> peer_connection \<Rightarrow> peer_connection" where
  "rtcp_handler i pc = set_track i (\<lambda>m. m\<lparr>mt_rtcp := True\<rparr>) pc"

definition stream_error_handler :: "err \<Rightarrow> peer_connection \<Rightarrow> peer_connection" where
  "stream_error_handler e pc = pc_close e pc"

definition pc0 :: peer_connection where
  "pc0 = \<lparr>pc_streaml = [], pc_medial = [], pc_mnat = None, pc_mnats = False, pc_mencs = False,
          pc_signaling_state = SS_STABLE, pc_gatherh = False, pc_estabh = False, pc_closeh = False,
          pc_ice_tmr = False, pc_ice_retry_times = 0, pc_gather_ok = False, pc_sdp_enc_ok = False,
          pc_sdp_dec_ok = False, pc_log = []\<rparr>"

text \<open>
  \<open>mnat\<close> and \<open>menc\<close> are the modules to use (for the second only whether it has a session handler
  matters), \<open>mem_ok\<close>, \<open>sdp_err\<close>, \<open>mnat_err\<close> and \<open>menc_err\<close> the results of the allocations.
\<close>

definition peerconnection_new :: "bool \<Rightarrow> mnat option \<Rightarrow> bool option \<Rightarrow> bool \<Rightarrow> err \<Rightarrow> err \<Rightarrow> err \<Rightarrow>
    bool \<Rightarrow> bool \<Rightarrow> bool \<Rightarrow> err + peer_connection" where
  "peerconnection_new pcp mnat menc mem_ok sdp_err mnat_err menc_err gatherh estabh closeh =
     (if \<not> pcp then Inl EINVAL
      else case (mnat, menc) of
        (Some mn, Some menc_sessh) \<Rightarrow>
          if \<not> mem_ok then Inl ENOMEM
          else if sdp_err \<noteq> OK then Inl sdp_err
          else if mnat_sessh mn \<and> mnat_err \<noteq> OK then Inl mnat_err
          else if menc_sessh \<and> menc_err \<noteq> OK then Inl menc_err
          else Inr (pc0\<lparr>pc_mnat := (if mnat_sessh mn then Some mn else None), pc_mnats := mnat_sessh mn,
                        pc_mencs := menc_sessh, pc_gatherh := gatherh, pc_estabh := estabh, pc_closeh := closeh\<rparr>)
      | _ \<Rightarrow> Inl EINVAL)"

text \<open>\<open>alloc\<close> is the result of \<^verbatim>\<open>audio_alloc\<close> or \<^verbatim>\<open>video_alloc\<close>, which append the new stream to the list.\<close>

definition peerconnection_add :: "media_kind \<Rightarrow> bool \<Rightarrow> bool \<Rightarrow> err + strm \<Rightarrow> peer_connection \<Rightarrow> (err \<times> peer_connection) option" where
  "peerconnection_add kind args_ok mem_ok alloc pc =
     (if \<not> args_ok then Some (EINVAL, pc)
      else case media_track_add mem_ok kind pc of
        (None, pc) \<Rightarrow> None
      | (Some i, pc) \<Rightarrow>
          (case alloc of
             Inl e \<Rightarrow> Some (e, pc)
           | Inr s \<Rightarrow> Some (OK, (set_track i (\<lambda>m. m\<lparr>mt_u := Some s\<rparr>) pc)\<lparr>pc_streaml := pc_streaml pc @ [s]\<rparr>)))"

definition peerconnection_add_audio :: "bool \<Rightarrow> bool \<Rightarrow> err + strm \<Rightarrow> peer_connection \<Rightarrow> (err \<times> peer_connection) option" where
  "peerconnection_add_audio = peerconnection_add MEDIA_KIND_AUDIO"

definition peerconnection_add_video :: "bool \<Rightarrow> bool \<Rightarrow> err + strm \<Rightarrow> peer_connection \<Rightarrow> (err \<times> peer_connection) option" where
  "peerconnection_add_video = peerconnection_add MEDIA_KIND_VIDEO"

text \<open>\<open>dec_err\<close> is the result of decoding the description.\<close>

definition peerconnection_set_remote_descr :: "sdp_type option \<Rightarrow> err \<Rightarrow> peer_connection \<Rightarrow> err \<times> peer_connection" where
  "peerconnection_set_remote_descr sd dec_err pc =
     (case sd of
        None \<Rightarrow> (EINVAL, pc)
      | Some type \<Rightarrow>
          if pc_signaling_state pc = SS_HAVE_REMOTE_OFFER then (EPROTO, pc)
          else
            let pc = pc\<lparr>pc_signaling_state := (if type = SDP_OFFER then SS_HAVE_REMOTE_OFFER else SS_STABLE)\<rparr>;
                pc = log_call (SdpDecode type dec_err) pc
            in if dec_err \<noteq> OK then (dec_err, pc)
               else
                 let calls = concat (map (\<lambda>m. case (mt_kind m, mt_u m) of
                                               (MEDIA_KIND_VIDEO, Some s) \<Rightarrow> [VideoSdpAttrDecode s] | _ \<Rightarrow> [])
                                     (pc_medial pc)) @ map StreamUpdate (pc_streaml pc)
                 in (OK, pc\<lparr>pc_log := pc_log pc @ calls, pc_sdp_dec_ok := True\<rparr>))"

definition peerconnection_create_offer :: "err \<Rightarrow> peer_connection \<Rightarrow> err \<times> peer_connection" where
  "peerconnection_create_offer enc_err pc =
     (if pc_signaling_state pc \<noteq> SS_STABLE then (EPROTO, pc)
      else
        let pc = log_call (SdpEncode SDP_OFFER enc_err) pc
        in if enc_err \<noteq> OK then (enc_err, pc)
           else (OK, pc\<lparr>pc_signaling_state := SS_HAVE_LOCAL_OFFER, pc_sdp_enc_ok := True\<rparr>))"

definition peerconnection_create_answer :: "err \<Rightarrow> peer_connection \<Rightarrow> err \<times> peer_connection" where
  "peerconnection_create_answer enc_err pc =
     (if pc_signaling_state pc \<noteq> SS_HAVE_REMOTE_OFFER then (EPROTO, pc)
      else
        let pc = log_call (SdpEncode SDP_ANSWER enc_err) pc
        in if enc_err \<noteq> OK then (enc_err, pc)
           else (OK, pc\<lparr>pc_signaling_state := SS_STABLE, pc_sdp_enc_ok := True\<rparr>))"

definition peerconnection_start_ice :: "err \<Rightarrow> peer_connection \<Rightarrow> (err \<times> peer_connection) option" where
  "peerconnection_start_ice upd_err pc =
     (if \<not> pc_sdp_dec_ok pc then
        if pc_ice_retry_times pc < 10
        then Some (OK, pc\<lparr>pc_ice_retry_times := pc_ice_retry_times pc + 1, pc_ice_tmr := True\<rparr>)
        else Some (EPROTO, pc)
      else case pc_mnat pc of
        None \<Rightarrow> None
      | Some mn \<Rightarrow>
          if mnat_updateh mn \<and> pc_mnats pc then Some (upd_err, log_call (MnatUpdate upd_err) pc)
          else Some (OK, pc))"

text \<open>The main loop runs an expired timer: it is taken out of the list before its handler is called.\<close>

definition ice_tmr_expired :: "err \<Rightarrow> peer_connection \<Rightarrow> (err \<times> peer_connection) option" where
  "ice_tmr_expired upd_err pc =
     (if pc_ice_tmr pc then peerconnection_start_ice upd_err (pc\<lparr>pc_ice_tmr := False\<rparr>) else Some (OK, pc))"

definition start_media_track :: "nat \<Rightarrow> peer_connection \<Rightarrow> peer_connection" where
  "start_media_track i pc =
     (let pc = set_track i (\<lambda>m. m\<lparr>mt_dtls_ok := True\<rparr>) pc;
          s = mt_u (pc_medial pc ! i);
          pc = log_call (StreamStart s) (log_call (StreamSetSecure s True) pc)
      in if pc_estabh pc then log_call (EstabH i) pc else pc)"

definition peerconnection_start_media :: "peer_connection \<Rightarrow> peer_connection" where
  "peerconnection_start_media pc = fold start_media_track [0..<length (pc_medial pc)] pc"

definition peerconnection_signaling :: "peer_connection option \<Rightarrow> signaling_st" where
  "peerconnection_signaling pc = (case pc of None \<Rightarrow> SS_STABLE | Some pc \<Rightarrow> pc_signaling_state pc)"

definition peerconnection_close :: "peer_connection \<Rightarrow> peer_connection" where
  "peerconnection_close pc = pc\<lparr>pc_closeh := False, pc_mnats := False\<rparr>"

section \<open>Runs\<close>

text \<open>
  A run of a peer connection: calls of its owner, expiry of its timer, and events of its streams
  and sessions, in any order. The flag says whether the media encryption reports errors.
\<close>

inductive pc_step :: "bool \<Rightarrow> peer_connection \<Rightarrow> peer_connection \<Rightarrow> bool" for me :: bool where
  add_audio: "peerconnection_add_audio args_ok mem_ok al pc = Some (e, pc') \<Longrightarrow> pc_step me pc pc'"
| add_video: "peerconnection_add_video args_ok mem_ok al pc = Some (e, pc') \<Longrightarrow> pc_step me pc pc'"
| set_remote: "peerconnection_set_remote_descr sd d pc = (e, pc') \<Longrightarrow> pc_step me pc pc'"
| create_offer: "peerconnection_create_offer d pc = (e, pc') \<Longrightarrow> pc_step me pc pc'"
| create_answer: "peerconnection_create_answer d pc = (e, pc') \<Longrightarrow> pc_step me pc pc'"
| start_ice: "peerconnection_start_ice u pc = Some (e, pc') \<Longrightarrow> pc_step me pc pc'"
| ice_tmr: "ice_tmr_expired u pc = Some (e, pc') \<Longrightarrow> pc_step me pc pc'"
| start_media: "pc_step me pc (peerconnection_start_media pc)"
| close: "pc_step me pc (peerconnection_close pc)"
| mnat_estab: "pc_step me pc (mnat_estab_handler e scode pc)"
| menc_event: "menc_event_handler ev s pc = Some pc' \<Longrightarrow> pc_step me pc pc'"
| menc_error: "me \<Longrightarrow> pc_step me pc (menc_error_handler e pc)"
| mnatconn: "i < length (pc_medial pc) \<Longrightarrow> pc_step me pc (mnatconn_handler e s i pc)"
| rtpestab: "i < length (pc_medial pc) \<Longrightarrow> pc_step me pc (rtpestab_handler i pc)"
| rtcp: "i < length (pc_medial pc) \<Longrightarrow> pc_step me pc (rtcp_handler i pc)"
| stream_error: "pc_step me pc (stream_error_handler e pc)"
| audio_error: "pc_step me pc (audio_error_handler e pc)"
| video_error: "pc_step me pc (video_error_handler e pc)"

definition pc_init :: "peer_connection \<Rightarrow> bool" where
  "pc_init pc \<longleftrightarrow> (\<exists>pcp mnat menc mem_ok se me ne g es c. peerconnection_new pcp mnat menc mem_ok se me ne g es c = Inr pc)"

text \<open>
  The signalling state as the history of the descriptions determines it: what the last accepted
  remote description or the last created local one was.
\<close>

fun sig_event :: "signaling_st \<Rightarrow> call \<Rightarrow> signaling_st" where
  "sig_event ss (SdpDecode SDP_OFFER e) = SS_HAVE_REMOTE_OFFER"
| "sig_event ss (SdpDecode SDP_ANSWER e) = SS_STABLE"
| "sig_event ss (SdpEncode SDP_OFFER e) = (if e = OK then SS_HAVE_LOCAL_OFFER else ss)"
| "sig_event ss (SdpEncode SDP_ANSWER e) = (if e = OK then SS_STABLE else ss)"
| "sig_event ss _ = ss"

definition sig_of :: "call list \<Rightarrow> signaling_st" where
  "sig_of log = foldl sig_event SS_STABLE log"

definition remote_offers :: "call list \<Rightarrow> nat" where
  "remote_offers log = length (filter (\<lambda>c. case c of SdpDecode SDP_OFFER e \<Rightarrow> True | _ \<Rightarrow> False) log)"

definition answers :: "call list \<Rightarrow> nat" where
  "answers log = length (filter (\<lambda>c. case c of SdpEncode SDP_ANSWER e \<Rightarrow> e = OK | _ \<Rightarrow> False) log)"

definition closes :: "call list \<Rightarrow> nat" where
  "closes log = length (filter (\<lambda>c. case c of CloseH e \<Rightarrow> True | _ \<Rightarrow> False) log)"

definition sdp_quiet :: "call list \<Rightarrow> bool" where
  "sdp_quiet log \<longleftrightarrow> list_all (\<lambda>c. case c of SdpDecode t e \<Rightarrow> False | SdpEncode t e \<Rightarrow> False | CloseH e \<Rightarrow> False
     | EstabH i \<Rightarrow> False | _ \<Rightarrow> True) log"

definition pc_inv :: "bool \<Rightarrow> peer_connection \<Rightarrow> bool" where
  "pc_inv me pc \<longleftrightarrow>
     sig_of (pc_log pc) = pc_signaling_state pc \<and>
     remote_offers (pc_log pc) = answers (pc_log pc) + (if pc_signaling_state pc = SS_HAVE_REMOTE_OFFER then 1 else 0) \<and>
     pc_ice_retry_times pc \<le> 10 \<and> (pc_ice_tmr pc \<longrightarrow> 0 < pc_ice_retry_times pc) \<and>
     pc_streaml pc = List.map_filter mt_u (pc_medial pc) \<and>
     (\<not> me \<longrightarrow> closes (pc_log pc) + (if pc_closeh pc then 1 else 0) \<le> 1) \<and>
     (\<forall>i. EstabH i \<in> set (pc_log pc) \<longrightarrow> i < length (pc_medial pc) \<and> mt_dtls_ok (pc_medial pc ! i))"

lemma log_counts [simp]:
  "remote_offers (a @ b) = remote_offers a + remote_offers b" "answers (a @ b) = answers a + answers b"
  "closes (a @ b) = closes a + closes b"
  by (simp_all add: remote_offers_def answers_def closes_def)

lemma log_count_Cons [simp]:
  "remote_offers (c # l) = (case c of SdpDecode SDP_OFFER e \<Rightarrow> 1 | _ \<Rightarrow> 0) + remote_offers l"
  "answers (c # l) = (case c of SdpEncode SDP_ANSWER e \<Rightarrow> if e = OK then 1 else 0 | _ \<Rightarrow> 0) + answers l"
  "closes (c # l) = (case c of CloseH e \<Rightarrow> 1 | _ \<Rightarrow> 0) + closes l"
  by (auto simp: remote_offers_def answers_def closes_def split: call.split sdp_type.split)

lemma sig_of_simps [simp]: "sig_of [] = SS_STABLE" "sig_of (l @ l') = foldl sig_event (sig_of l) l'"
  by (simp_all add: sig_of_def)

lemma log_count_Nil [simp]: "remote_offers [] = 0" "answers [] = 0" "closes [] = 0"
  by (simp_all add: remote_offers_def answers_def closes_def)

lemma sdp_quiet_log:
  "sdp_quiet l \<Longrightarrow> foldl sig_event ss l = ss \<and> remote_offers l = 0 \<and> answers l = 0 \<and> closes l = 0 \<and> EstabH i \<notin> set l"
  by (induction l arbitrary: ss) (auto simp: sdp_quiet_def split: call.splits)

subsection \<open>The invariant is kept\<close>

text \<open>Steps that touch neither the history nor the tracks, quiet calls, and updates of a track.\<close>

lemma map_filter_map: "List.map_filter f xs = List.map_filter id (map f xs)"
  by (induction xs) (auto simp: map_filter_simps split: option.split)

lemma map_u_update: "mt_u (f (xs ! i)) = mt_u (xs ! i) \<Longrightarrow> map mt_u (xs[i := f (xs ! i)]) = map mt_u xs"
  by (metis list_update_id map_update)

lemma pc_inv_calls: "pc_inv me pc \<Longrightarrow> sdp_quiet l \<Longrightarrow> pc_inv me (pc\<lparr>pc_log := pc_log pc @ l\<rparr>)"
  using sdp_quiet_log [of l] by (auto simp: pc_inv_def)

lemma pc_inv_frame [simp]:
  "pc_inv me (pc\<lparr>pc_sdp_dec_ok := b\<rparr>) = pc_inv me pc" "pc_inv me (pc\<lparr>pc_gather_ok := b\<rparr>) = pc_inv me pc"
  by (simp_all add: pc_inv_def)

lemma pc_inv_call: "pc_inv me pc \<Longrightarrow> sdp_quiet [c] \<Longrightarrow> pc_inv me (log_call c pc)"
  by (simp add: log_call_def pc_inv_calls)

lemma pc_inv_track:
  assumes "pc_inv me pc" "\<And>m. mt_u (f m) = mt_u m" "\<And>m. mt_dtls_ok m \<Longrightarrow> mt_dtls_ok (f m)"
  shows "pc_inv me (set_track i f pc)"
proof -
  have "List.map_filter mt_u ((pc_medial pc)[i := f (pc_medial pc ! i)]) = List.map_filter mt_u (pc_medial pc)"
    by (simp only: map_filter_map [of mt_u] map_u_update assms(2))
  moreover have "mt_dtls_ok ((pc_medial pc)[i := f (pc_medial pc ! i)] ! k)"
    if "k < length (pc_medial pc)" "mt_dtls_ok (pc_medial pc ! k)" for k
    using that assms(3) by (cases "i = k") simp_all
  ultimately show ?thesis using assms(1) by (auto simp: pc_inv_def set_track_def)
qed

lemma pc_inv_estab: "pc_inv me pc \<Longrightarrow> i < length (pc_medial pc) \<Longrightarrow> mt_dtls_ok (pc_medial pc ! i) \<Longrightarrow> pc_inv me (log_call (EstabH i) pc)"
  by (auto simp: pc_inv_def log_call_def)

lemma pc_inv_close: "pc_inv me pc \<Longrightarrow> pc_inv me (pc_close e pc)"
  by (auto simp: pc_inv_def pc_close_def log_call_def Let_def)

lemma lookup_media_less: "lookup_media ms s = Some i \<Longrightarrow> i < length ms \<and> mt_u (ms ! i) = s"
  by (induction ms arbitrary: i) (auto simp: media_get_stream_def split: if_splits)

lemma quiet_simps [simp]:
  "sdp_quiet [StreamStart s]" "sdp_quiet [StreamSetSecure s b]" "sdp_quiet [StreamStartMediaenc t e]" "sdp_quiet [GatherH]"
  "sdp_quiet [MnatUpdate e]"
  by (simp_all add: sdp_quiet_def)

lemma log_call_fields [simp]:
  "pc_medial (log_call c pc) = pc_medial pc" "pc_estabh (log_call c pc) = pc_estabh pc"
  "pc_medial (set_track i f pc) = (pc_medial pc)[i := f (pc_medial pc ! i)]" "pc_estabh (set_track i f pc) = pc_estabh pc"
  by (simp_all add: log_call_def set_track_def)

text \<open>A track becomes secure and is reported.\<close>

lemma secure_track_inv:
  assumes "pc_inv me pc" "i < length (pc_medial pc)"
    and "pc' = log_call (StreamStart s) (log_call (StreamSetSecure s True) (set_track i (\<lambda>m. m\<lparr>mt_dtls_ok := True\<rparr>) pc))"
  shows "pc_inv me (if pc_estabh pc' then log_call (EstabH i) pc' else pc')"
proof -
  have "pc_inv me pc'" unfolding assms(3) by (intro pc_inv_call pc_inv_track assms(1)) simp_all
  moreover have "i < length (pc_medial pc')" "mt_dtls_ok (pc_medial pc' ! i)" using assms(2) by (simp_all add: assms(3))
  ultimately show ?thesis by (simp add: pc_inv_estab)
qed

lemma start_media_inv: "pc_inv me pc \<Longrightarrow> pc_inv me (peerconnection_start_media pc)"
proof -
  have "pc_inv me pc \<Longrightarrow> \<forall>i \<in> set is. i < length (pc_medial pc) \<Longrightarrow> pc_inv me (fold start_media_track is pc)" for "is" pc
  proof (induction "is" arbitrary: pc)
    case (Cons i "is")
    have "pc_inv me (start_media_track i pc)"
      unfolding start_media_track_def Let_def by (rule secure_track_inv [OF _ _ refl]) (use Cons.prems in simp_all)
    moreover have "length (pc_medial (start_media_track i pc)) = length (pc_medial pc)"
      by (simp add: start_media_track_def Let_def)
    ultimately show ?case using Cons by simp
  qed simp
  then show "pc_inv me pc \<Longrightarrow> pc_inv me (peerconnection_start_media pc)" by (simp add: peerconnection_start_media_def)
qed

lemma quiet_decode_calls:
  "sdp_quiet (concat (map (\<lambda>m. case (mt_kind m, mt_u m) of (MEDIA_KIND_VIDEO, Some s) \<Rightarrow> [VideoSdpAttrDecode s] | _ \<Rightarrow> []) ms)
     @ map StreamUpdate ss)"
  by (auto simp: sdp_quiet_def list_all_iff split: media_kind.splits option.splits)

definition decoded :: "sdp_type \<Rightarrow> err \<Rightarrow> peer_connection \<Rightarrow> peer_connection" where
  "decoded t d pc = log_call (SdpDecode t d) (pc\<lparr>pc_signaling_state := (if t = SDP_OFFER then SS_HAVE_REMOTE_OFFER else SS_STABLE)\<rparr>)"

lemma set_remote_cases:
  assumes r: "peerconnection_set_remote_descr sd d pc = (e, pc')"
  obtains (same) "pc' = pc" "e \<noteq> OK"
    | (failed) t where "sd = Some t" "pc_signaling_state pc \<noteq> SS_HAVE_REMOTE_OFFER" "d \<noteq> OK" "e = d" "pc' = decoded t d pc"
    | (accepted) t cs where "sd = Some t" "pc_signaling_state pc \<noteq> SS_HAVE_REMOTE_OFFER" "d = OK" "e = OK" "sdp_quiet cs"
        "pc' = (decoded t d pc)\<lparr>pc_log := pc_log (decoded t d pc) @ cs, pc_sdp_dec_ok := True\<rparr>"
proof (cases "sd = None \<or> pc_signaling_state pc = SS_HAVE_REMOTE_OFFER")
  case True
  then have "pc' = pc \<and> e \<noteq> OK"
    using r by (auto simp: peerconnection_set_remote_descr_def errno_defs split: option.splits if_splits)
  then show thesis using that(1) by blast
next
  case False
  then obtain t where t: "sd = Some t" by auto
  let ?cs = "concat (map (\<lambda>m. case (mt_kind m, mt_u m) of (MEDIA_KIND_VIDEO, Some s) \<Rightarrow> [VideoSdpAttrDecode s] | _ \<Rightarrow> [])
    (pc_medial (decoded t d pc))) @ map StreamUpdate (pc_streaml (decoded t d pc))"
  have "(e, pc') = (if d \<noteq> OK then (d, decoded t d pc)
      else (OK, (decoded t d pc)\<lparr>pc_log := pc_log (decoded t d pc) @ ?cs, pc_sdp_dec_ok := True\<rparr>))"
    using r False unfolding peerconnection_set_remote_descr_def Let_def t option.case decoded_def by auto
  then have "d \<noteq> OK \<and> e = d \<and> pc' = decoded t d pc
      \<or> d = OK \<and> e = OK \<and> pc' = (decoded t d pc)\<lparr>pc_log := pc_log (decoded t d pc) @ ?cs, pc_sdp_dec_ok := True\<rparr>"
    by (simp split: if_splits)
  then show thesis using that(2) [OF t] that(3) [OF t _ _ _ quiet_decode_calls] False by blast
qed

lemma set_remote_inv:
  assumes r: "peerconnection_set_remote_descr sd d pc = (e, pc')" and i: "pc_inv me pc"
  shows "pc_inv me pc'"
proof -
  have dec: "pc_inv me (decoded t d pc)" if "pc_signaling_state pc \<noteq> SS_HAVE_REMOTE_OFFER" for t
    using i that by (cases t) (auto simp: pc_inv_def decoded_def log_call_def)
  show ?thesis using r
  proof (cases rule: set_remote_cases)
    case (accepted t cs)
    show ?thesis unfolding accepted(6) pc_inv_frame by (rule pc_inv_calls [OF dec [OF accepted(2)] accepted(5)])
  qed (use i dec in simp_all)
qed

lemma start_ice_cases:
  assumes "peerconnection_start_ice u pc = Some (e, pc')"
  obtains (wait) "pc_ice_retry_times pc < 10" "e = OK"
      "pc' = pc\<lparr>pc_ice_retry_times := pc_ice_retry_times pc + 1, pc_ice_tmr := True\<rparr>"
    | (same) "pc' = pc" | (update) "pc' = log_call (MnatUpdate u) pc" "e = u"
proof -
  have "pc_ice_retry_times pc < 10 \<and> e = OK \<and> pc' = pc\<lparr>pc_ice_retry_times := pc_ice_retry_times pc + 1, pc_ice_tmr := True\<rparr>
      \<or> pc' = pc \<or> pc' = log_call (MnatUpdate u) pc \<and> e = u"
    using assms unfolding peerconnection_start_ice_def by (simp split: if_splits option.splits) blast+
  then show thesis using that by blast
qed

lemma start_ice_inv:
  assumes "peerconnection_start_ice u pc = Some (e, pc')" "pc_inv me pc"
  shows "pc_inv me pc'"
  using assms(1)
proof (cases rule: start_ice_cases)
  case wait
  then show ?thesis using assms(2) by (simp add: pc_inv_def)
qed (use assms(2) in \<open>simp_all add: pc_inv_call\<close>)

lemma pc_inv_append:
  assumes "pc_inv me pc"
  shows "pc_inv me (pc\<lparr>pc_medial := pc_medial pc @ [t], pc_streaml := pc_streaml pc @ List.map_filter mt_u [t]\<rparr>)"
proof -
  have "(pc_medial pc @ [t]) ! j = pc_medial pc ! j" if "j < length (pc_medial pc)" for j
    using that by (simp add: nth_append)
  moreover have "List.map_filter mt_u (pc_medial pc @ [t]) = List.map_filter mt_u (pc_medial pc) @ List.map_filter mt_u [t]"
    by (simp add: map_filter_def)
  ultimately show ?thesis using assms unfolding pc_inv_def by (simp add: less_Suc_eq)
qed

lemma add_inv:
  assumes r: "peerconnection_add k a m al pc = Some (e, pc')" and i: "pc_inv me pc"
  shows "pc_inv me pc'"
proof (cases "a \<and> m")
  case True
  define t where "t = \<lparr>mt_kind = k, mt_u = None, mt_ice_conn = False, mt_dtls_ok = False, mt_rtp = False, mt_rtcp = False\<rparr>"
  let ?t = "case al of Inl e \<Rightarrow> t | Inr s \<Rightarrow> t\<lparr>mt_u := Some s\<rparr>"
  have "pc' = pc\<lparr>pc_medial := pc_medial pc @ [?t], pc_streaml := pc_streaml pc @ List.map_filter mt_u [?t]\<rparr>"
    using r True by (cases al) (simp_all add: peerconnection_add_def media_track_add_def set_track_def t_def map_filter_simps, auto)
  then show ?thesis using pc_inv_append [OF i] by simp
next
  case False
  then show ?thesis using r i by (auto simp: peerconnection_add_def media_track_add_def split: if_splits)
qed

lemma create_offer_inv:
  assumes "peerconnection_create_offer d pc = (e, pc')" "pc_inv me pc"
  shows "pc_inv me pc'"
proof -
  consider "pc' = pc" | "pc_signaling_state pc = SS_STABLE" "d \<noteq> OK" "pc' = log_call (SdpEncode SDP_OFFER d) pc"
    | "pc_signaling_state pc = SS_STABLE" "d = OK"
      "pc' = (log_call (SdpEncode SDP_OFFER d) pc)\<lparr>pc_signaling_state := SS_HAVE_LOCAL_OFFER, pc_sdp_enc_ok := True\<rparr>"
    using assms(1) by (auto simp: peerconnection_create_offer_def Let_def split: if_splits)
  then show ?thesis by cases (use assms(2) in \<open>simp_all add: pc_inv_def log_call_def\<close>)
qed

lemma create_answer_inv:
  assumes "peerconnection_create_answer d pc = (e, pc')" "pc_inv me pc"
  shows "pc_inv me pc'"
proof -
  consider "pc' = pc" | "pc_signaling_state pc = SS_HAVE_REMOTE_OFFER" "d \<noteq> OK" "pc' = log_call (SdpEncode SDP_ANSWER d) pc"
    | "pc_signaling_state pc = SS_HAVE_REMOTE_OFFER" "d = OK"
      "pc' = (log_call (SdpEncode SDP_ANSWER d) pc)\<lparr>pc_signaling_state := SS_STABLE, pc_sdp_enc_ok := True\<rparr>"
    using assms(1) by (auto simp: peerconnection_create_answer_def Let_def split: if_splits)
  then show ?thesis by cases (use assms(2) in \<open>simp_all add: pc_inv_def log_call_def\<close>)
qed

lemma menc_event_inv: "menc_event_handler ev s pc = Some pc' \<Longrightarrow> pc_inv me pc \<Longrightarrow> pc_inv me pc'"
proof (cases "ev = MENC_EVENT_SECURE")
  case True
  assume r: "menc_event_handler ev s pc = Some pc'" and i: "pc_inv me pc"
  then obtain k where k: "lookup_media (pc_medial pc) s = Some k" using True by (auto simp: menc_event_handler_def split: option.splits)
  with lookup_media_less have "k < length (pc_medial pc)" by blast
  from secure_track_inv [OF i this refl, of s] show ?thesis using r True k by (auto simp: menc_event_handler_def Let_def)
qed (cases ev; auto simp: menc_event_handler_def Let_def)

lemma mnatconn_inv:
  assumes "pc_inv me pc"
  shows "pc_inv me (mnatconn_handler e s i pc)"
proof -
  have "pc_inv me (log_call (StreamStartMediaenc s e) (set_track i (\<lambda>m. m\<lparr>mt_ice_conn := True\<rparr>) pc))"
    by (intro pc_inv_call pc_inv_track assms) simp_all
  then show ?thesis by (auto simp: mnatconn_handler_def Let_def pc_inv_close)
qed

lemma mnat_estab_inv: "pc_inv me pc \<Longrightarrow> pc_inv me (mnat_estab_handler e scode pc)"
  by (simp add: mnat_estab_handler_def Let_def pc_inv_close pc_inv_call)

lemma ice_tmr_inv:
  assumes "ice_tmr_expired u pc = Some (e, pc')" "pc_inv me pc"
  shows "pc_inv me pc'"
proof -
  have "pc_inv me (pc\<lparr>pc_ice_tmr := False\<rparr>)" using assms(2) by (simp add: pc_inv_def)
  with assms start_ice_inv show ?thesis by (auto simp: ice_tmr_expired_def split: if_splits)
qed

lemma handler_inv:
  assumes "pc_inv me pc"
  shows "pc_inv me (peerconnection_close pc)" "me \<Longrightarrow> pc_inv me (menc_error_handler e pc)"
    "pc_inv me (rtpestab_handler i pc)" "pc_inv me (rtcp_handler i pc)"
proof -
  show "pc_inv me (peerconnection_close pc)" using assms by (auto simp: peerconnection_close_def pc_inv_def)
  show "me \<Longrightarrow> pc_inv me (menc_error_handler e pc)" using assms by (auto simp: menc_error_handler_def pc_inv_def log_call_def)
qed (simp_all add: rtpestab_handler_def rtcp_handler_def pc_inv_track assms)

lemmas pc_inv_ops = add_inv set_remote_inv create_offer_inv create_answer_inv start_ice_inv ice_tmr_inv start_media_inv
  mnat_estab_inv menc_event_inv mnatconn_inv handler_inv pc_inv_close

lemma pc_step_inv: "pc_step me pc pc' \<Longrightarrow> pc_inv me pc \<Longrightarrow> pc_inv me pc'"
  by (induction rule: pc_step.induct)
    (unfold peerconnection_add_audio_def peerconnection_add_video_def stream_error_handler_def audio_error_handler_def
      video_error_handler_def, (blast intro: pc_inv_ops)+)

lemma pc_init_inv: "pc_init pc \<Longrightarrow> pc_inv me pc"
  by (auto simp: pc_init_def peerconnection_new_def pc_inv_def pc0_def map_filter_simps split: if_splits option.splits)

interpretation pcinv: invariant_system pc_init "pc_step me" "pc_inv me" for me
  by unfold_locales (auto intro: pc_init_inv pc_step_inv)

section \<open>Properties\<close>

lemma reach_pc_inv: "reach pc_init (pc_step me) pc \<Longrightarrow> pc_inv me pc"
  by (rule pcinv.reach_inv)

text \<open>
  C10. Offer and answer are in step. In every state a peer connection can reach, whatever its owner,
  its timer and its streams did, the signalling state is the one that the history of descriptions
  determines, and the remote offers taken are as many as the answers given, plus one exactly in the
  state have-remote-offer. So no offer is answered twice and none is overwritten by another offer.
\<close>

theorem pc_offer_answer:
  assumes "reach pc_init (pc_step me) pc"
  shows "sig_of (pc_log pc) = pc_signaling_state pc
    \<and> remote_offers (pc_log pc) = answers (pc_log pc) + (if pc_signaling_state pc = SS_HAVE_REMOTE_OFFER then 1 else 0)
    \<and> (pc_signaling_state pc = SS_HAVE_REMOTE_OFFER \<longleftrightarrow> fst (peerconnection_create_answer OK pc) = OK)
    \<and> (pc_signaling_state pc = SS_STABLE \<longleftrightarrow> fst (peerconnection_create_offer OK pc) = OK)"
  using reach_pc_inv [OF assms]
  by (simp add: pc_inv_def peerconnection_create_answer_def peerconnection_create_offer_def Let_def errno_defs)

text \<open>A connection with a full ICE module, and a run of it: one audio track, a remote offer and its answer.\<close>

definition ice_mnat :: mnat where
  "ice_mnat = \<lparr>mnat_sessh = True, mnat_updateh = True\<rparr>"

definition pc_new_ex :: peer_connection where
  "pc_new_ex = pc0\<lparr>pc_mnat := Some ice_mnat, pc_mnats := True, pc_mencs := True, pc_gatherh := True, pc_estabh := True, pc_closeh := True\<rparr>"

lemma pc_new_ex_reach: "reach pc_init (pc_step me) pc_new_ex"
  by (rule reach_init, unfold pc_init_def,
      rule exI [of _ True], rule exI [of _ "Some ice_mnat"], rule exI [of _ "Some True"], rule exI [of _ True],
      (rule exI [of _ OK])+, (rule exI [of _ True])+) (simp add: peerconnection_new_def pc_new_ex_def ice_mnat_def)

definition pc_track_ex :: peer_connection where
  "pc_track_ex = snd (the (peerconnection_add_audio True True (Inr 7) pc_new_ex))"

definition pc_offer_ex :: peer_connection where
  "pc_offer_ex = snd (peerconnection_set_remote_descr (Some SDP_OFFER) OK pc_track_ex)"

lemma pc_track_ex_reach: "reach pc_init (pc_step me) pc_track_ex"
proof (rule reach_step [OF pc_new_ex_reach], rule pc_step.add_audio)
  show "peerconnection_add_audio True True (Inr 7) pc_new_ex = Some (OK, pc_track_ex)" by code_simp
qed

lemma pc_offer_ex_reach: "reach pc_init (pc_step me) pc_offer_ex"
proof (rule reach_step [OF pc_track_ex_reach], rule pc_step.set_remote)
  show "peerconnection_set_remote_descr (Some SDP_OFFER) OK pc_track_ex = (OK, pc_offer_ex)" by code_simp
qed

theorem pc_offer_answer_witness:
  "reach pc_init (pc_step True) pc_offer_ex \<and> pc_signaling_state pc_offer_ex = SS_HAVE_REMOTE_OFFER
   \<and> remote_offers (pc_log pc_offer_ex) = answers (pc_log pc_offer_ex) + 1
   \<and> fst (peerconnection_create_answer OK pc_offer_ex) = OK"
proof -
  have "pc_signaling_state pc_offer_ex = SS_HAVE_REMOTE_OFFER" by code_simp
  then show ?thesis using pc_offer_answer [OF pc_offer_ex_reach [of True]] pc_offer_ex_reach [of True] by simp
qed

text \<open>A connection whose close handler is gone stays silent.\<close>

definition silent :: "nat \<Rightarrow> peer_connection \<Rightarrow> bool" where
  "silent n pc \<longleftrightarrow> \<not> pc_closeh pc \<and> closes (pc_log pc) = n"

lemma silent_log [simp]:
  "sdp_quiet [c] \<Longrightarrow> silent n (log_call c pc) = silent n pc" "silent n (log_call (EstabH i) pc) = silent n pc"
  "silent n (log_call (SdpDecode t e) pc) = silent n pc" "silent n (log_call (SdpEncode t e) pc) = silent n pc"
  using sdp_quiet_log [of "[c]"] by (simp_all add: silent_def log_call_def)

lemma silent_frame [simp]: "silent n (decoded t d pc) = silent n pc"
  "silent n (set_track i f pc) = silent n pc" "silent n (pc\<lparr>pc_gather_ok := b\<rparr>) = silent n pc"
  "silent n (pc\<lparr>pc_ice_tmr := b\<rparr>) = silent n pc" "silent n (pc\<lparr>pc_ice_retry_times := k\<rparr>) = silent n pc"
  "silent n (pc\<lparr>pc_signaling_state := ss\<rparr>) = silent n pc"
  "silent n (pc\<lparr>pc_sdp_enc_ok := b\<rparr>) = silent n pc" "silent n (pc\<lparr>pc_sdp_dec_ok := b\<rparr>) = silent n pc"
  "silent n (pc\<lparr>pc_streaml := l\<rparr>) = silent n pc" "silent n (pc\<lparr>pc_medial := ml\<rparr>) = silent n pc"
  "sdp_quiet cs \<Longrightarrow> silent n (pc\<lparr>pc_log := pc_log pc @ cs\<rparr>) = silent n pc"
  using sdp_quiet_log [of cs] by (simp_all add: silent_def set_track_def decoded_def log_call_def)

lemma silent_close [simp]: "silent n pc \<Longrightarrow> silent n (pc_close e pc)"
  by (simp add: silent_def pc_close_def Let_def)

lemma silent_start_media: "silent n pc \<Longrightarrow> silent n (peerconnection_start_media pc)"
proof -
  have "silent n pc \<Longrightarrow> silent n (fold start_media_track is pc)" for "is"
    by (induction "is" arbitrary: pc) (simp_all add: start_media_track_def Let_def)
  then show "silent n pc \<Longrightarrow> silent n (peerconnection_start_media pc)" by (simp add: peerconnection_start_media_def)
qed

lemma silent_add: "peerconnection_add k a m al pc = Some (e, pc') \<Longrightarrow> silent n pc \<Longrightarrow> silent n pc'"
  by (cases al) (simp_all add: peerconnection_add_def media_track_add_def split: if_splits, auto)

lemma silent_set_remote:
  assumes "peerconnection_set_remote_descr sd d pc = (e, pc')" "silent n pc"
  shows "silent n pc'"
  using assms(1) by (cases rule: set_remote_cases) (use assms(2) in simp_all)

lemma silent_start_ice: "peerconnection_start_ice u pc = Some (e, pc') \<Longrightarrow> silent n pc \<Longrightarrow> silent n pc'"
  by (erule start_ice_cases) simp_all

lemma silent_ice_tmr: "ice_tmr_expired u pc = Some (e, pc') \<Longrightarrow> silent n pc \<Longrightarrow> silent n pc'"
  using silent_start_ice [of u "pc\<lparr>pc_ice_tmr := False\<rparr>" e pc' n] by (simp add: ice_tmr_expired_def split: if_splits)

lemma silent_menc_event: "menc_event_handler ev s pc = Some pc' \<Longrightarrow> silent n pc \<Longrightarrow> silent n pc'"
  by (cases ev; cases "lookup_media (pc_medial pc) s") (simp_all add: menc_event_handler_def Let_def split: if_splits, auto)

lemma silent_create_offer: "peerconnection_create_offer d pc = (e, pc') \<Longrightarrow> silent n pc \<Longrightarrow> silent n pc'"
  by (simp add: peerconnection_create_offer_def Let_def split: if_splits) auto

lemma silent_create_answer: "peerconnection_create_answer d pc = (e, pc') \<Longrightarrow> silent n pc \<Longrightarrow> silent n pc'"
  by (simp add: peerconnection_create_answer_def Let_def split: if_splits) auto

lemma silent_handlers:
  "silent n pc \<Longrightarrow> silent n (peerconnection_close pc)" "silent n pc \<Longrightarrow> silent n (menc_error_handler e pc)"
  "silent n pc \<Longrightarrow> silent n (mnat_estab_handler e sc pc)" "silent n pc \<Longrightarrow> silent n (mnatconn_handler e s i pc)"
  "silent n pc \<Longrightarrow> silent n (rtpestab_handler i pc)" "silent n pc \<Longrightarrow> silent n (rtcp_handler i pc)"
  by (simp_all add: mnat_estab_handler_def mnatconn_handler_def rtpestab_handler_def rtcp_handler_def Let_def)
    (simp_all add: silent_def menc_error_handler_def peerconnection_close_def)

lemmas silent_ops = silent_add silent_set_remote silent_create_offer silent_create_answer silent_start_ice silent_ice_tmr
  silent_start_media silent_menc_event silent_handlers silent_close

lemma silent_step: "pc_step me pc pc' \<Longrightarrow> silent n pc \<Longrightarrow> silent n pc'"
  by (induction rule: pc_step.induct)
    (unfold peerconnection_add_audio_def peerconnection_add_video_def stream_error_handler_def audio_error_handler_def
      video_error_handler_def, (blast intro: silent_ops)+)

lemma steps_silent: "(pc_step me)\<^sup>*\<^sup>* pc pc' \<Longrightarrow> silent n pc \<Longrightarrow> silent n pc'"
  by (induction rule: rtranclp_induct) (auto intro: silent_step)

text \<open>
  C21. The owner is told of the end at most once: as long as the media encryption reports no
  error, the close handler is called at most once in any run, whatever fails and in which order, and
  never after it was called or the owner closed the connection itself.
\<close>

theorem pc_close_once:
  assumes "reach pc_init (pc_step False) pc"
  shows "closes (pc_log pc) \<le> 1 \<and> (closes (pc_log pc) = 1 \<longrightarrow> \<not> pc_closeh pc)
    \<and> ((pc_step me)\<^sup>*\<^sup>* (peerconnection_close pc) pc' \<longrightarrow> closes (pc_log pc') = closes (pc_log pc))"
proof -
  have "closes (pc_log pc') = closes (pc_log pc)" if "(pc_step me)\<^sup>*\<^sup>* (peerconnection_close pc) pc'"
    using steps_silent [OF that] by (simp add: silent_def peerconnection_close_def)
  then show ?thesis using reach_pc_inv [OF assms] by (auto simp: pc_inv_def)
qed

theorem pc_close_once_witness:
  "\<exists>pc pc'. reach pc_init (pc_step False) pc \<and> (pc_step True)\<^sup>*\<^sup>* (peerconnection_close pc) pc' \<and> pc_mnats pc \<and> \<not> pc_closeh pc
     \<and> closes (pc_log pc) = 1 \<and> closes (pc_log pc') = 1"
proof -
  let ?pc = "stream_error_handler ETIMEDOUT pc_offer_ex"
  have r: "reach pc_init (pc_step False) ?pc" by (rule reach_step [OF pc_offer_ex_reach pc_step.stream_error])
  have s: "(pc_step True)\<^sup>*\<^sup>* (peerconnection_close ?pc) (menc_error_handler EPROTO (peerconnection_close ?pc))"
    by (rule r_into_rtranclp, rule pc_step.menc_error) simp
  have c: "closes (pc_log ?pc) = 1" "pc_mnats ?pc" by code_simp+
  note once = pc_close_once [OF r, of True "menc_error_handler EPROTO (peerconnection_close ?pc)", unfolded c(1)]
  show ?thesis by (intro exI conjI, rule r, rule s, rule c(2)) (use once s c(1) in blast)+
qed

text \<open>
  The restriction to runs without errors of the media encryption is needed: that handler does not
  take the close handler away before it calls it.
\<close>

lemma pc_closed_twice:
  "\<exists>pc. reach pc_init (pc_step True) pc \<and> closes (pc_log pc) = 2"
proof -
  let ?pc = "stream_error_handler ETIMEDOUT (menc_error_handler EPROTO pc_offer_ex)"
  have "reach pc_init (pc_step True) ?pc"
    by (rule reach_step [OF reach_step [OF pc_offer_ex_reach pc_step.menc_error] pc_step.stream_error]) simp
  moreover have "closes (pc_log ?pc) = 2" by code_simp
  ultimately show ?thesis by blast
qed

subsection \<open>Starting ICE\<close>

text \<open>
  C25. The retries end. When the owner starts ICE before a remote description was decoded, a timer tries
  again. The relation between a state with the timer armed and the state after its expiry is
  well-founded: however the timer is served, it is not armed for ever.
\<close>

theorem ice_retry_terminates:
  "wf {(pc', pc). pc_ice_tmr pc \<and> (\<exists>u e. ice_tmr_expired u pc = Some (e, pc'))}"
proof (rule wf_subset [OF wf_measure])
  have "(10 - pc_ice_retry_times pc') * 2 + (if pc_ice_tmr pc' then 1 else 0)
      < (10 - pc_ice_retry_times pc) * 2 + (if pc_ice_tmr pc then 1 else 0)"
    if "pc_ice_tmr pc" "ice_tmr_expired u pc = Some (e, pc')" for pc pc' u e
  proof -
    have "peerconnection_start_ice u (pc\<lparr>pc_ice_tmr := False\<rparr>) = Some (e, pc')" using that by (simp add: ice_tmr_expired_def)
    then show ?thesis by (cases rule: start_ice_cases) (use that(1) in \<open>simp_all add: log_call_def\<close>)
  qed
  then show "{(pc', pc). pc_ice_tmr pc \<and> (\<exists>u e. ice_tmr_expired u pc = Some (e, pc'))}
      \<subseteq> measure (\<lambda>pc. (10 - pc_ice_retry_times pc) * 2 + (if pc_ice_tmr pc then 1 else 0))"
    by auto
qed

text \<open>The main loop serves the timer until it is not armed any more, at most \<open>fuel\<close> times; the result is that of the last try.\<close>

fun ice_drain :: "nat \<Rightarrow> err \<Rightarrow> peer_connection \<Rightarrow> (err \<times> peer_connection) option" where
  "ice_drain 0 u pc = None"
| "ice_drain (Suc fuel) u pc =
     (case ice_tmr_expired u pc of
        None \<Rightarrow> None
      | Some (e, pc') \<Rightarrow> if pc_ice_tmr pc' then ice_drain fuel u pc' else Some (e, pc'))"

lemma ice_drain_waits:
  assumes "\<not> pc_sdp_dec_ok pc" "pc_ice_tmr pc" "pc_ice_retry_times pc + k = 10"
  shows "ice_drain (Suc k) u pc = Some (EPROTO, pc\<lparr>pc_ice_tmr := False, pc_ice_retry_times := 10\<rparr>)"
  using assms
proof (induction k arbitrary: pc)
  case 0
  then show ?case by (simp add: ice_tmr_expired_def peerconnection_start_ice_def)
next
  case (Suc k)
  let ?pc = "pc\<lparr>pc_ice_retry_times := pc_ice_retry_times pc + 1, pc_ice_tmr := True\<rparr>"
  have "ice_tmr_expired u pc = Some (OK, ?pc)"
    using Suc.prems by (simp add: ice_tmr_expired_def peerconnection_start_ice_def)
  then have "ice_drain (Suc (Suc k)) u pc = ice_drain (Suc k) u ?pc" by (subst ice_drain.simps(2)) (simp del: ice_drain.simps)
  also have "\<dots> = Some (EPROTO, ?pc\<lparr>pc_ice_tmr := False, pc_ice_retry_times := 10\<rparr>)"
    by (rule Suc.IH) (use Suc.prems in simp_all)
  finally show ?case by simp
qed

text \<open>
  C24. Every start of ICE comes to an end within eleven expiries of the timer. If the remote
  description has been decoded when the timer expires, ICE is started with the remote candidates on
  that very expiry; if it has not been, ICE is given up after the tenth retry, with the result EPROTO
  that the timer ignores. In both cases the timer is off.
\<close>

theorem ice_start_live:
  assumes "reach pc_init (pc_step me) pc" "pc_ice_tmr pc"
    and "pc_mnat pc = Some mn" "mnat_updateh mn" "pc_mnats pc"
  shows "if pc_sdp_dec_ok pc
    then ice_tmr_expired u pc = Some (u, log_call (MnatUpdate u) (pc\<lparr>pc_ice_tmr := False\<rparr>))
    else ice_drain (11 - pc_ice_retry_times pc) u pc = Some (EPROTO, pc\<lparr>pc_ice_tmr := False, pc_ice_retry_times := 10\<rparr>)"
proof (cases "pc_sdp_dec_ok pc")
  case True
  then show ?thesis using assms by (simp add: ice_tmr_expired_def peerconnection_start_ice_def)
next
  case False
  have le: "pc_ice_retry_times pc \<le> 10" using reach_pc_inv [OF assms(1)] by (simp add: pc_inv_def)
  then have "11 - pc_ice_retry_times pc = Suc (10 - pc_ice_retry_times pc)" by simp
  then show ?thesis using False le ice_drain_waits [OF False assms(2)] by simp
qed

definition pc_waiting_ex :: peer_connection where
  "pc_waiting_ex = snd (the (peerconnection_start_ice OK pc_track_ex))"

lemma pc_waiting_ex_reach: "reach pc_init (pc_step me) pc_waiting_ex"
proof (rule reach_step [OF pc_track_ex_reach], rule pc_step.start_ice)
  show "peerconnection_start_ice OK pc_track_ex = Some (OK, pc_waiting_ex)" by code_simp
qed

theorem ice_start_live_witness:
  "\<exists>pc. pc_ice_tmr pc \<and> reach pc_init (pc_step True) pc
     \<and> ice_drain 10 OK pc = Some (EPROTO, pc\<lparr>pc_ice_tmr := False, pc_ice_retry_times := 10\<rparr>)"
proof -
  have "pc_ice_tmr pc_waiting_ex" "pc_mnat pc_waiting_ex = Some ice_mnat" "mnat_updateh ice_mnat" "pc_mnats pc_waiting_ex"
    by code_simp+
  moreover have "11 - pc_ice_retry_times pc_waiting_ex = 10" "\<not> pc_sdp_dec_ok pc_waiting_ex" by code_simp+
  ultimately show ?thesis
    using ice_start_live [OF pc_waiting_ex_reach [of True], of ice_mnat OK] pc_waiting_ex_reach [of True] by auto
qed

subsection \<open>Tracks and streams\<close>

lemma lookup_media_stream: "s \<in> set (List.map_filter mt_u ms) \<Longrightarrow> \<exists>i. lookup_media ms (Some s) = Some i"
  by (induction ms) (auto simp: media_get_stream_def map_filter_simps split: if_splits option.splits)

text \<open>
  C26. The tracks of a connection are well-formed in every run: the streams of the connection are
  those of its tracks, in their order; a stream that becomes secure belongs to a track, so that the
  handler finds it; and a track is reported as established only when it is a track of the
  connection whose media is secure, with no null pointer followed.
\<close>

theorem pc_tracks_ok:
  assumes "reach pc_init (pc_step me) pc"
  shows "pc_streaml pc = List.map_filter mt_u (pc_medial pc)
    \<and> (s \<in> set (pc_streaml pc) \<longrightarrow> menc_event_handler ev (Some s) pc \<noteq> None)
    \<and> (EstabH i \<in> set (pc_log pc) \<longrightarrow> i < length (pc_medial pc) \<and> mt_dtls_ok (pc_medial pc ! i))"
proof -
  have i: "pc_inv me pc" by (rule reach_pc_inv [OF assms])
  then have "menc_event_handler ev (Some s) pc \<noteq> None" if "s \<in> set (pc_streaml pc)"
    using lookup_media_stream [of s "pc_medial pc"] that
    by (auto simp: pc_inv_def menc_event_handler_def Let_def split: menc_event.splits)
  with i show ?thesis by (auto simp: pc_inv_def)
qed

theorem pc_tracks_ok_witness:
  "\<exists>pc. reach pc_init (pc_step True) pc \<and> pc_streaml pc = [7] \<and> EstabH 0 \<in> set (pc_log pc) \<and> mt_dtls_ok (pc_medial pc ! 0)
     \<and> menc_event_handler MENC_EVENT_SECURE (Some 7) pc \<noteq> None"
proof -
  let ?pc = "the (menc_event_handler MENC_EVENT_SECURE (Some 7) pc_offer_ex)"
  have "menc_event_handler MENC_EVENT_SECURE (Some 7) pc_offer_ex = Some ?pc" by code_simp
  then have r: "reach pc_init (pc_step True) ?pc" by (intro reach_step [OF pc_offer_ex_reach] pc_step.menc_event)
  have c: "pc_streaml ?pc = [7]" "EstabH 0 \<in> set (pc_log ?pc)" by code_simp+
  note ok = pc_tracks_ok [OF r, of 7 MENC_EVENT_SECURE 0, unfolded c(1)]
  show ?thesis by (intro exI conjI, rule r, rule c(1), rule c(2)) (use ok c(2) in simp_all)
qed

text \<open>A stream of no track makes the handler follow a null pointer.\<close>

lemma menc_event_null: "menc_event_handler MENC_EVENT_SECURE (Some 9) pc_track_ex = None"
  by code_simp

subsection \<open>What goes wrong\<close>

text \<open>
  A description that cannot be decoded does not leave the signalling state as it was. After a
  remote offer whose decoding fails, the connection is in have-remote-offer: every further remote
  description and every local offer is refused with EPROTO, and an answer to the offer that was not
  understood is possible.
\<close>

theorem pc_bad_offer_sticks:
  assumes "pc_signaling_state pc \<noteq> SS_HAVE_REMOTE_OFFER" "d \<noteq> OK"
    and "peerconnection_set_remote_descr (Some SDP_OFFER) d pc = (e, pc')"
  shows "e = d \<and> pc_signaling_state pc' = SS_HAVE_REMOTE_OFFER
    \<and> peerconnection_set_remote_descr (Some t) d' pc' = (EPROTO, pc') \<and> peerconnection_create_offer d' pc' = (EPROTO, pc')
    \<and> fst (peerconnection_create_answer OK pc') = OK"
proof -
  have "e = d" "pc' = decoded SDP_OFFER d pc"
    using assms by (auto simp: peerconnection_set_remote_descr_def decoded_def Let_def)
  then show ?thesis
    by (simp add: decoded_def log_call_def peerconnection_set_remote_descr_def peerconnection_create_offer_def
        peerconnection_create_answer_def Let_def)
qed

theorem pc_bad_offer_sticks_witness:
  "\<exists>pc'. peerconnection_set_remote_descr (Some SDP_OFFER) EBADMSG pc_track_ex = (EBADMSG, pc')
     \<and> peerconnection_set_remote_descr (Some SDP_OFFER) OK pc' = (EPROTO, pc')"
proof -
  let ?r = "peerconnection_set_remote_descr (Some SDP_OFFER) EBADMSG pc_track_ex"
  have "pc_signaling_state pc_track_ex \<noteq> SS_HAVE_REMOTE_OFFER" "EBADMSG \<noteq> OK" by code_simp+
  from pc_bad_offer_sticks [OF this, of "fst ?r" "snd ?r" SDP_OFFER OK] show ?thesis by (metis prod.collapse)
qed

text \<open>The timer is not cancelled when the connection is closed or freed.\<close>

lemma ice_tmr_survives:
  "\<exists>pc. reach pc_init (pc_step False) pc \<and> pc_ice_tmr (destructor (peerconnection_close pc))"
proof -
  have "pc_ice_tmr (destructor (peerconnection_close pc_waiting_ex))" by code_simp
  with pc_waiting_ex_reach show ?thesis by blast
qed

text \<open>A module without session handler is not kept, and starting ICE follows the null pointer once a description is there.\<close>

lemma start_ice_null:
  assumes "peerconnection_new True (Some mn) menc True OK OK OK g es c = Inr pc" "\<not> mnat_sessh mn"
    and "peerconnection_set_remote_descr (Some t) OK pc = (OK, pc')"
  shows "peerconnection_start_ice u pc' = None"
  using assms
  by (auto simp: peerconnection_new_def peerconnection_set_remote_descr_def peerconnection_start_ice_def log_call_def Let_def
      pc0_def errno_defs split: option.splits if_splits)

end
