(* ===== verification/RtcClient.thy ===== *)
theory RtcClient
  imports RtcRun PeerConn Mbuf
begin

text \<open>
  The client: its sessions (\<^verbatim>\<open>baidu_rtc_client_session.c\<close>, with \<^verbatim>\<open>descr.c\<close>), the observer of the
  signalling connection and the operations of its user (\<^verbatim>\<open>baidu_rtc_signal_client.c\<close>,
  \<^verbatim>\<open>baidu_rtc_interface.c\<close>). It ties the peer connections of theory \<^verbatim>\<open>PeerConn\<close> to the signalling
  connection of theory \<^verbatim>\<open>RtcConnection\<close>.

  The calls that the signalling connection makes to its observer are carried out when its handler
  returns, in their order. As there, \<^const>\<open>None\<close> stands for undefined behaviour.
\<close>

section \<open>What comes from outside\<close>

text \<open>
  The results of the code below: of allocating the observer and its handle (\<open>env_mem\<close> is for the other allocations), of creating a peer connection and its audio stream, of encoding a
  local description into a buffer, of decoding the JSON text of a remote description and its SDP, and
  of updating ICE and of starting a track. \<open>w_json\<close> is \<^verbatim>\<open>json_decode_odict\<close>: its error, or the strings under \<^verbatim>\<open>type\<close> and \<^verbatim>\<open>sdp\<close>.
\<close>

record world =
  w_env :: env
  w_observer_mem :: bool
  w_handle_mem :: bool
  w_mnat :: "mnat option"
  w_menc :: "bool option"
  w_new_mem :: bool
  w_new_err :: "err \<times> err \<times> err"
  w_audio :: "err + strm"
  w_sdp :: "err + mbuf"
  w_json :: "string \<Rightarrow> err + string option \<times> string option"
  w_descr_mem :: bool
  w_sdp_decode :: err
  w_ice :: err
  w_print_ok :: bool
  w_fmt :: bool
  w_encoder :: err
  w_source :: err

section \<open>Sessions\<close>

record client_session =
  cs_pc :: "peer_connection option"
  cs_handle_id :: u64

definition to_lower :: "char \<Rightarrow> char" where
  "to_lower c = (if 65 \<le> u8 c \<and> u8 c \<le> 90 then char_of (unat (u8 c + 32)) else c)"

definition str_casecmp_eq :: "string \<Rightarrow> string \<Rightarrow> bool" where
  "str_casecmp_eq s1 s2 \<longleftrightarrow> map to_lower s1 = map to_lower s2"

definition session_description_decode :: "world \<Rightarrow> string \<Rightarrow> err + sdp_type \<times> string" where
  "session_description_decode W jsep =
     (case w_json W jsep of
        Inl e \<Rightarrow> Inl e
      | Inr (Some type, Some sdp) \<Rightarrow>
          if str_casecmp_eq type ''offer'' then if w_descr_mem W then Inr (SDP_OFFER, sdp) else Inl ENOMEM
          else if str_casecmp_eq type ''answer'' then if w_descr_mem W then Inr (SDP_ANSWER, sdp) else Inl ENOMEM
          else Inl EPROTO
      | Inr _ \<Rightarrow> Inl EPROTO)"

definition sdptype_name :: "sdp_type \<Rightarrow> string" where
  "sdptype_name type = (case type of SDP_OFFER \<Rightarrow> ''offer'' | SDP_ANSWER \<Rightarrow> ''answer'')"

definition client_session_new :: "world \<Rightarrow> u64 \<Rightarrow> client_session option" where
  "client_session_new W handle_id = (if env_mem (w_env W) then Some \<lparr>cs_pc = None, cs_handle_id = handle_id\<rparr> else None)"

text \<open>The position of the first session with the handle.\<close>

fun client_session_lookup :: "client_session list \<Rightarrow> u64 \<Rightarrow> nat option" where
  "client_session_lookup [] handle_id = None"
| "client_session_lookup (s # sessl) handle_id =
     (if handle_id = cs_handle_id s then Some 0 else map_option Suc (client_session_lookup sessl handle_id))"

definition client_session_create_pc :: "world \<Rightarrow> client_session \<Rightarrow> (err \<times> client_session) option" where
  "client_session_create_pc W sess =
     (case w_new_err W of (e1, e2, e3) \<Rightarrow>
        case peerconnection_new True (w_mnat W) (w_menc W) (w_new_mem W) e1 e2 e3 True True True of
          Inl e \<Rightarrow> Some (e, sess)
        | Inr pc \<Rightarrow> do {
            (e, pc) \<leftarrow> peerconnection_add_audio True (w_new_mem W) (w_audio W) pc;
            Some (e, sess\<lparr>cs_pc := Some pc\<rparr>)
          })"

text \<open>
  The text of a local description: a NUL is written at the end of the buffer, which has to have
  room for it, and what stands before the first NUL is escaped.
\<close>

definition descr_chars :: "mbuf \<Rightarrow> string" where
  "descr_chars mb = map (\<lambda>b. char_of (unat b)) (takeWhile (\<lambda>b. b \<noteq> 0) (take (mb_end mb) (mb_buf mb)))"

definition descr_text :: "world \<Rightarrow> mbuf \<Rightarrow> string option option" where
  "descr_text W mb =
     (if mb_end mb < mb_size mb \<and> mb_end mb < length (mb_buf mb) then
        Some (if w_print_ok W
              then Some (snd (utf8_encode (Some to_str) (Some (descr_chars mb)) []))
              else None)
      else None)"

text \<open>\<open>peerconnection_create_offer\<close> of a session, with the buffer it fills: null when it fails.\<close>

definition session_offer :: "world \<Rightarrow> client_session \<Rightarrow> mbuf option \<times> client_session" where
  "session_offer W sess =
     (case cs_pc sess of
        None \<Rightarrow> (None, sess)
      | Some pc \<Rightarrow>
          let (e, pc) = peerconnection_create_offer (case w_sdp W of Inl e \<Rightarrow> e | Inr mb \<Rightarrow> OK) pc
          in ((if e = OK then case w_sdp W of Inl e \<Rightarrow> None | Inr mb \<Rightarrow> Some mb else None), sess\<lparr>cs_pc := Some pc\<rparr>))"

definition client_session_create_offer ::
  "world \<Rightarrow> client_session \<Rightarrow> FRTCConnection \<Rightarrow> (client_session \<times> FRTCConnection) option" where
  "client_session_create_offer W sess conn =
     (let (mb_sdp, sess) = session_offer W sess
      in do {
        mb \<leftarrow> mb_sdp;
        text \<leftarrow> descr_text W mb;
        conn \<leftarrow> (case text of
                   None \<Rightarrow> Some conn
                 | Some t \<Rightarrow> publisherCreateOffer (w_env W) (cs_handle_id sess) t conn);
        Some (sess, conn)
      })"

definition session_answer :: "world \<Rightarrow> client_session \<Rightarrow> mbuf option \<times> client_session" where
  "session_answer W sess =
     (case cs_pc sess of
        None \<Rightarrow> (None, sess)
      | Some pc \<Rightarrow>
          let (e, pc) = peerconnection_create_answer (case w_sdp W of Inl e \<Rightarrow> e | Inr mb \<Rightarrow> OK) pc
          in ((if e = OK then case w_sdp W of Inl e \<Rightarrow> None | Inr mb \<Rightarrow> Some mb else None), sess\<lparr>cs_pc := Some pc\<rparr>))"

definition client_session_create_answer ::
  "world \<Rightarrow> client_session \<Rightarrow> FRTCConnection \<Rightarrow> (client_session \<times> FRTCConnection) option" where
  "client_session_create_answer W sess conn =
     (let (mb_sdp, sess) = session_answer W sess
      in do {
        mb \<leftarrow> mb_sdp;
        text \<leftarrow> descr_text W mb;
        conn \<leftarrow> (case text of
                   None \<Rightarrow> Some conn
                 | Some t \<Rightarrow> subscriberCreateAnswer (w_env W) (cs_handle_id sess) t conn);
        Some (sess, conn)
      })"

definition client_session_set_remote_description :: "world \<Rightarrow> string \<Rightarrow> client_session \<Rightarrow> err \<times> client_session" where
  "client_session_set_remote_description W jsep sess =
     (case session_description_decode W jsep of
        Inl e \<Rightarrow> (e, sess)
      | Inr (type, sdp) \<Rightarrow>
          (case cs_pc sess of
             None \<Rightarrow> (EINVAL, sess)
           | Some pc \<Rightarrow>
               let (e, pc) = peerconnection_set_remote_descr (Some type) (w_sdp_decode W) pc
               in (e, sess\<lparr>cs_pc := Some pc\<rparr>)))"

text \<open>
  The handlers that a session gives to its peer connection: ICE is started when it has gathered, a
  track is started when it is established (its result is only logged), and the peer connection is
  dropped when it is closed.
\<close>

definition peerconnection_gather_handler :: "world \<Rightarrow> client_session \<Rightarrow> client_session option" where
  "peerconnection_gather_handler W sess =
     (case cs_pc sess of
        None \<Rightarrow> Some sess
      | Some pc \<Rightarrow> do { (e, pc) \<leftarrow> peerconnection_start_ice (w_ice W) pc; Some (sess\<lparr>cs_pc := Some pc\<rparr>) })"

definition peerconnection_estab_handler :: "world \<Rightarrow> nat \<Rightarrow> client_session \<Rightarrow> client_session" where
  "peerconnection_estab_handler W i sess =
     (case cs_pc sess of
        None \<Rightarrow> sess
      | Some pc \<Rightarrow>
          let m = pc_medial pc ! i;
              (e, calls) = (case mt_kind m of
                  MEDIA_KIND_AUDIO \<Rightarrow> mediatrack_start_audio (Some m) (w_fmt W) (w_encoder W) (w_source W)
                | MEDIA_KIND_VIDEO \<Rightarrow> mediatrack_start_video (Some m) (w_fmt W) (w_encoder W) (w_source W))
          in sess\<lparr>cs_pc := Some (pc\<lparr>pc_log := pc_log pc @ calls\<rparr>)\<rparr>)"

definition peerconnection_close_handler :: "client_session \<Rightarrow> client_session" where
  "peerconnection_close_handler sess = sess\<lparr>cs_pc := None\<rparr>"

text \<open>An event of the peer connection of a session, and the calls of the handlers it makes, in their order.\<close>

definition session_handler :: "world \<Rightarrow> call \<Rightarrow> client_session \<Rightarrow> client_session option" where
  "session_handler W c sess =
     (case c of
        GatherH \<Rightarrow> peerconnection_gather_handler W sess
      | EstabH i \<Rightarrow> Some (peerconnection_estab_handler W i sess)
      | CloseH e \<Rightarrow> Some (peerconnection_close_handler sess)
      | _ \<Rightarrow> Some sess)"

fun session_handlers :: "world \<Rightarrow> call list \<Rightarrow> client_session \<Rightarrow> client_session option" where
  "session_handlers W [] sess = Some sess"
| "session_handlers W (c # cs) sess = do { sess \<leftarrow> session_handler W c sess; session_handlers W cs sess }"

definition session_event :: "world \<Rightarrow> (peer_connection \<Rightarrow> peer_connection option) \<Rightarrow> client_session \<Rightarrow> client_session option" where
  "session_event W f sess = do {
     pc \<leftarrow> cs_pc sess;
     pc' \<leftarrow> f pc;
     session_handlers W (drop (length (pc_log pc)) (pc_log pc')) (sess\<lparr>cs_pc := Some pc'\<rparr>)
   }"

section \<open>The client\<close>

datatype RtcMessageType =
    RTC_MESSAGE_ROOM_EVENT_LOGIN_OK | RTC_MESSAGE_ROOM_EVENT_LOGIN_TIMEOUT | RTC_MESSAGE_ROOM_EVENT_LOGIN_ERROR
  | RTC_MESSAGE_ROOM_EVENT_CONNECTION_LOST | RTC_MESSAGE_ROOM_EVENT_REMOTE_COMING | RTC_MESSAGE_ROOM_EVENT_REMOTE_LEAVING
  | RTC_MESSAGE_ROOM_EVENT_REMOTE_RENDERING | RTC_MESSAGE_ROOM_EVENT_REMOTE_GONE | RTC_MESSAGE_ROOM_EVENT_SERVER_ERROR
  | RTC_ROOM_EVENT_AVAILABLE_SEND_BITRATE | RTC_ROOM_EVENT_FORCE_KEY_FRAME | RTC_ROOM_EVENT_ON_USER_JOINED_ROOM
  | RTC_ROOM_EVENT_ON_USER_LEAVING_ROOM | RTC_ROOM_EVENT_ON_USER_MESSAGE | RTC_ROOM_EVENT_ON_USER_ATTRIBUTE
  | RTC_MESSAGE_STATE_STREAM_UP | RTC_MESSAGE_STATE_SENDING_MEDIA_OK | RTC_MESSAGE_STATE_SENDING_MEDIA_FAILED
  | RTC_MESSAGE_STATE_STREAM_DOWN | RTC_STATE_STREAM_SLOW_LINK_NACKS

datatype RtcImageType =
    RTC_IMAGE_TYPE_NONE | RTC_IMAGE_TYPE_JPEG | RTC_IMAGE_TYPE_H263 | RTC_IMAGE_TYPE_H264 | RTC_IMAGE_TYPE_I420P
  | RTC_IMAGE_TYPE_RGB | RTC_IMAGE_TYPE_VP8

datatype RtcParamSettingType =
    RTC_AUDIO_PARAM_SETTINGS_ONLY_AUDIO | RTC_AUDIO_PARAM_SETTINGS_AEC_DUMP | RTC_AUDIO_PARAM_SETTINGS_LEVEL_CONTROL
  | RTC_AUDIO_PARAM_SETTINGS_MANUAL_CONFIG | RTC_AUDIO_PARAM_SETTINGS_EXPORT_RECORD | RTC_AUDIO_PARAM_SETTINGS_EXPORT_PLAYOUT
  | RTC_AUDIO_PARAM_SETTINGS_EXPORT_RECORD_PLAYOUT_MIX | RTC_VIDEO_PARAM_SETTINGS_FPS | RTC_VIDEO_PARAM_SETTINGS_RESOLUTION
  | RTC_VIDEO_PARAM_SETTINGS_BITRATE | RTC_VIDEO_PARAM_SETTINGS_CODECTYPE | RTC_VIDEO_PARAM_SETTINGS_SESSION_MODE
  | RTC_VIDEO_PARAM_SETTINGS_CAPTURE_MODE | RTC_VIDEO_PARAM_SETTINGS_RENDER_MODE | RTC_PARAM_SETTINGS_ALL | RTC_PARAM_SETTINGS_OTHERS

text \<open>The fields of a message that its sender sets.\<close>

record RtcMessage =
  msgType :: RtcMessageType
  msg_data :: "u64 option"
  extra_info :: "string option"

record RtcParameterSettings =
  HasVideo :: bool
  HasAudio :: bool
  HasData :: bool
  AudioINFrequency :: int
  AudioINChannel :: int
  AudioOUTFrequency :: int
  AudioOUTChannel :: int
  VideoWidth :: int
  VideoHeight :: int
  VideoFps :: int
  VideoMaxkbps :: int
  VideoMinkbps :: int
  ImageINType :: RtcImageType
  ImageOUTType :: RtcImageType
  ConnectionTimeoutMs :: int
  ReadTimeoutMs :: int
  AutoPublish :: bool
  AutoSubscribe :: bool
  AsPublisher :: bool
  AsListener :: bool

text \<open>
  \<open>sessl\<close> is the global list of sessions, \<open>count\<close> the number of connections made, \<open>messages\<close> what the
  listener got. The observer is allocated together with the connection. The user, the room and the
  token of the client itself are never set; what the login stores of them is overwritten at once.
\<close>

record BaiduRtcClient =
  cl_mIsInitialized :: bool
  cl_mIsLoginRoom :: bool
  cl_mFRTCconn :: "FRTCConnection option"
  cl_mRtcMessageListener :: bool
  cl_mAppId :: "string ptr"
  cl_mCer :: string
  cl_mFeedID :: string
  cl_mMediaServerURL :: string
  cl_mMediaServerIP :: string
  cl_mVideoCodec :: string
  cl_mAutoSubscribe :: bool
  cl_mListernerHandleId :: u64
  cl_mPulisherHandleId :: u64
  cl_mAutoPublish :: bool
  cl_mVideoCodecImageType :: "RtcImageType option"
  cl_mParamSettings :: RtcParameterSettings
  cl_sessl :: "client_session list"
  cl_count :: u64
  cl_messages :: "RtcMessage list"

definition notify :: "RtcMessageType \<Rightarrow> u64 option \<Rightarrow> string option \<Rightarrow> BaiduRtcClient \<Rightarrow> BaiduRtcClient" where
  "notify t d x cl =
     (if cl_mRtcMessageListener cl
      then cl\<lparr>cl_messages := cl_messages cl @ [\<lparr>msgType = t, msg_data = d, extra_info = x\<rparr>]\<rparr> else cl)"

subsection \<open>Publishing and subscribing\<close>

text \<open>A new session is appended, and used whether or not its peer connection could be created.\<close>

definition publishOwnFeed :: "world \<Rightarrow> BaiduRtcClient \<Rightarrow> BaiduRtcClient option" where
  "publishOwnFeed W cl = do {
     s \<leftarrow> client_session_new W (cl_mPulisherHandleId cl);
     (e, s) \<leftarrow> client_session_create_pc W s;
     conn \<leftarrow> cl_mFRTCconn cl;
     (s, conn) \<leftarrow> client_session_create_offer W s conn;
     Some (cl\<lparr>cl_sessl := cl_sessl cl @ [s], cl_mFRTCconn := Some conn\<rparr>)
   }"

definition onOffer :: "world \<Rightarrow> string \<Rightarrow> BaiduRtcClient \<Rightarrow> BaiduRtcClient option" where
  "onOffer W jsep cl = do {
     s \<leftarrow> client_session_new W (cl_mListernerHandleId cl);
     (e, s) \<leftarrow> client_session_create_pc W s;
     let (e, s) = client_session_set_remote_description W jsep s;
     conn \<leftarrow> cl_mFRTCconn cl;
     (s, conn) \<leftarrow> client_session_create_answer W s conn;
     Some (cl\<lparr>cl_sessl := cl_sessl cl @ [s], cl_mFRTCconn := Some conn\<rparr>)
   }"

subsection \<open>The observer\<close>

definition client_onPublisherJoined :: "world \<Rightarrow> u64 \<Rightarrow> BaiduRtcClient \<Rightarrow> BaiduRtcClient option" where
  "client_onPublisherJoined W handleId cl =
     (let cl = cl\<lparr>cl_mPulisherHandleId := handleId\<rparr>
      in if cl_mAutoPublish cl then publishOwnFeed W cl else Some cl)"

definition client_onPublisherRemoteJsep :: "world \<Rightarrow> u64 \<Rightarrow> string \<Rightarrow> BaiduRtcClient \<Rightarrow> BaiduRtcClient option" where
  "client_onPublisherRemoteJsep W handleId jsep cl =
     (case client_session_lookup (cl_sessl cl) handleId of
        None \<Rightarrow> Some cl
      | Some i \<Rightarrow>
          if \<not> env_mem (w_env W) then None
          else
            let (e, s) = client_session_set_remote_description W jsep (cl_sessl cl ! i)
            in Some (cl\<lparr>cl_sessl := (cl_sessl cl)[i := s]\<rparr>))"

definition client_subscriberHandleRemoteJsep :: "world \<Rightarrow> u64 \<Rightarrow> string \<Rightarrow> BaiduRtcClient \<Rightarrow> BaiduRtcClient option" where
  "client_subscriberHandleRemoteJsep W handleId jsep cl = onOffer W jsep (cl\<lparr>cl_mListernerHandleId := handleId\<rparr>)"

text \<open>Media is started on the publisher's peer connection, which is not checked.\<close>

definition client_onRTCWebrtcUp :: "world \<Rightarrow> u64 \<Rightarrow> BaiduRtcClient \<Rightarrow> BaiduRtcClient option" where
  "client_onRTCWebrtcUp W handleId cl = do {
     cl \<leftarrow> (if handleId = cl_mPulisherHandleId cl then
              case client_session_lookup (cl_sessl cl) (cl_mPulisherHandleId cl) of
                None \<Rightarrow> Some cl
              | Some i \<Rightarrow> do {
                  s \<leftarrow> session_event W (\<lambda>pc. Some (peerconnection_start_media pc)) (cl_sessl cl ! i);
                  Some (cl\<lparr>cl_sessl := (cl_sessl cl)[i := s]\<rparr>)
                }
            else Some cl);
     Some (notify RTC_MESSAGE_STATE_STREAM_UP (Some handleId) None cl)
   }"

text \<open>The handlers that tell the listener.\<close>

definition client_onCirrusDisconnected :: "BaiduRtcClient \<Rightarrow> BaiduRtcClient" where
  "client_onCirrusDisconnected cl = cl"

definition client_onLeaving :: "u64 \<Rightarrow> BaiduRtcClient \<Rightarrow> BaiduRtcClient" where
  "client_onLeaving handleId cl = notify RTC_MESSAGE_ROOM_EVENT_REMOTE_LEAVING (Some handleId) None cl"

definition client_onNACKs :: "u64 \<Rightarrow> BaiduRtcClient \<Rightarrow> BaiduRtcClient" where
  "client_onNACKs nacks cl = notify RTC_STATE_STREAM_SLOW_LINK_NACKS (Some nacks) None cl"

definition client_onUnpublished :: "BaiduRtcClient \<Rightarrow> BaiduRtcClient" where
  "client_onUnpublished cl = cl"

definition client_onRTCLoginOK :: "BaiduRtcClient \<Rightarrow> BaiduRtcClient" where
  "client_onRTCLoginOK cl = notify RTC_MESSAGE_ROOM_EVENT_LOGIN_OK None None cl"

definition client_onRTCLoginError :: "BaiduRtcClient \<Rightarrow> BaiduRtcClient" where
  "client_onRTCLoginError cl = notify RTC_MESSAGE_ROOM_EVENT_LOGIN_ERROR None None cl"

definition client_onRTCConnectError :: "BaiduRtcClient \<Rightarrow> BaiduRtcClient" where
  "client_onRTCConnectError cl = notify RTC_MESSAGE_ROOM_EVENT_LOGIN_ERROR None None cl"

definition client_onRTCMediaStreamingEvent :: "bool \<Rightarrow> BaiduRtcClient \<Rightarrow> BaiduRtcClient" where
  "client_onRTCMediaStreamingEvent sending cl = notify (if sending then RTC_MESSAGE_STATE_SENDING_MEDIA_OK else RTC_MESSAGE_STATE_SENDING_MEDIA_FAILED) None None cl"

definition client_onRTCHangUp :: "BaiduRtcClient \<Rightarrow> BaiduRtcClient" where
  "client_onRTCHangUp cl = notify RTC_MESSAGE_STATE_STREAM_DOWN None None cl"

definition client_onRTCFeedComing :: "u64 \<Rightarrow> string \<Rightarrow> BaiduRtcClient \<Rightarrow> BaiduRtcClient" where
  "client_onRTCFeedComing feedId name cl = notify RTC_MESSAGE_ROOM_EVENT_REMOTE_COMING (Some feedId) (Some name) cl"

definition client_onRTCUserMessage :: "u64 \<Rightarrow> string \<Rightarrow> BaiduRtcClient \<Rightarrow> BaiduRtcClient" where
  "client_onRTCUserMessage feedId msg cl = notify RTC_ROOM_EVENT_ON_USER_MESSAGE (Some feedId) (Some msg) cl"

definition client_onRTCUserAttribute :: "u64 \<Rightarrow> string \<Rightarrow> BaiduRtcClient \<Rightarrow> BaiduRtcClient" where
  "client_onRTCUserAttribute feedId attr cl = notify RTC_ROOM_EVENT_ON_USER_ATTRIBUTE (Some feedId) (Some attr) cl"

definition client_onRTCUserJoinedRoom :: "u64 \<Rightarrow> string \<Rightarrow> BaiduRtcClient \<Rightarrow> BaiduRtcClient" where
  "client_onRTCUserJoinedRoom feedId name cl = notify RTC_ROOM_EVENT_ON_USER_JOINED_ROOM (Some feedId) (Some name) cl"

definition client_onRTCUserLeavingRoom :: "u64 \<Rightarrow> BaiduRtcClient \<Rightarrow> BaiduRtcClient" where
  "client_onRTCUserLeavingRoom feedId cl = notify RTC_ROOM_EVENT_ON_USER_LEAVING_ROOM (Some feedId) None cl"

definition client_onRTCError :: "32 word \<Rightarrow> string \<Rightarrow> BaiduRtcClient \<Rightarrow> BaiduRtcClient" where
  "client_onRTCError error_code error cl = notify RTC_MESSAGE_ROOM_EVENT_SERVER_ERROR (Some (scast error_code)) (Some error) cl"

lemmas client_on_defs = client_onCirrusDisconnected_def client_onLeaving_def client_onNACKs_def client_onUnpublished_def client_onRTCLoginOK_def client_onRTCLoginError_def client_onRTCConnectError_def client_onRTCMediaStreamingEvent_def client_onRTCHangUp_def client_onRTCFeedComing_def client_onRTCUserMessage_def client_onRTCUserAttribute_def client_onRTCUserJoinedRoom_def client_onRTCUserLeavingRoom_def client_onRTCError_def

text \<open>The table of handlers: one of them is missing.\<close>

definition observer :: "world \<Rightarrow> observed \<Rightarrow> BaiduRtcClient \<Rightarrow> BaiduRtcClient option" where
  "observer W ev cl =
     (case ev of
        onCirrusDisconnected \<Rightarrow> Some (client_onCirrusDisconnected cl)
      | onPublisherJoined h \<Rightarrow> client_onPublisherJoined W h cl
      | onPublisherRemoteJsep h jsep \<Rightarrow> client_onPublisherRemoteJsep W h jsep cl
      | subscriberHandleRemoteJsep h jsep \<Rightarrow> client_subscriberHandleRemoteJsep W h jsep cl
      | onLeaving h \<Rightarrow> Some (client_onLeaving h cl)
      | onListenerNACKs n \<Rightarrow> None
      | onNACKs n \<Rightarrow> Some (client_onNACKs n cl)
      | onUnpublished \<Rightarrow> Some (client_onUnpublished cl)
      | onRTCLoginOK \<Rightarrow> Some (client_onRTCLoginOK cl)
      | onRTCLoginError \<Rightarrow> Some (client_onRTCLoginError cl)
      | onRTCConnectError \<Rightarrow> Some (client_onRTCConnectError cl)
      | onRTCWebrtcUp h \<Rightarrow> client_onRTCWebrtcUp W h cl
      | onRTCMediaStreamingEvent h t sending \<Rightarrow> Some (client_onRTCMediaStreamingEvent sending cl)
      | onRTCHangUp h \<Rightarrow> Some (client_onRTCHangUp cl)
      | onRTCFeedComing f name \<Rightarrow> Some (client_onRTCFeedComing f name cl)
      | onRTCUserMessage f msg \<Rightarrow> Some (client_onRTCUserMessage f msg cl)
      | onRTCUserAttribute f attr \<Rightarrow> Some (client_onRTCUserAttribute f attr cl)
      | onRTCUserJoinedRoom f name \<Rightarrow> Some (client_onRTCUserJoinedRoom f name cl)
      | onRTCUserLeavingRoom f \<Rightarrow> Some (client_onRTCUserLeavingRoom f cl)
      | onRTCError ec e \<Rightarrow> Some (client_onRTCError ec e cl))"

fun observe_all :: "world \<Rightarrow> observed list \<Rightarrow> BaiduRtcClient \<Rightarrow> BaiduRtcClient option" where
  "observe_all W [] cl = Some cl"
| "observe_all W (ev # evs) cl = do { cl \<leftarrow> observer W ev cl; observe_all W evs cl }"

text \<open>An operation of the signalling connection, and the calls of the observer it makes.\<close>

definition with_conn :: "world \<Rightarrow> (FRTCConnection \<Rightarrow> FRTCConnection option) \<Rightarrow> BaiduRtcClient \<Rightarrow> BaiduRtcClient option" where
  "with_conn W f cl = do {
     conn \<leftarrow> cl_mFRTCconn cl;
     conn' \<leftarrow> f conn;
     observe_all W (drop (length (mObserved conn)) (mObserved conn')) (cl\<lparr>cl_mFRTCconn := Some conn'\<rparr>)
   }"

definition websocket_event :: "world \<Rightarrow> ws_event \<Rightarrow> BaiduRtcClient \<Rightarrow> BaiduRtcClient option" where
  "websocket_event W ev = with_conn W (RTCConnection_baidurtc_client (w_env W) ev)"

subsection \<open>Operations of the user\<close>

definition defaultSetting :: RtcParameterSettings where
  "defaultSetting =
     \<lparr>HasVideo = True, HasAudio = True, HasData = False, AudioINFrequency = 48000, AudioINChannel = 1, AudioOUTFrequency = 16000,
      AudioOUTChannel = 1, VideoWidth = 176, VideoHeight = 144, VideoFps = 20, VideoMaxkbps = 1500, VideoMinkbps = 1000,
      ImageINType = RTC_IMAGE_TYPE_NONE, ImageOUTType = RTC_IMAGE_TYPE_H263, ConnectionTimeoutMs = 5000, ReadTimeoutMs = 5000,
      AutoPublish = True, AutoSubscribe = True, AsPublisher = True, AsListener = True\<rparr>"

definition createClient :: BaiduRtcClient where
  "createClient =
     \<lparr>cl_mIsInitialized = False, cl_mIsLoginRoom = False, cl_mFRTCconn = None, cl_mRtcMessageListener = False,
      cl_mAppId = Dangling, cl_mCer = [], cl_mFeedID = ''0'', cl_mMediaServerURL = ''wss://rtc.exp.bcelive.com/janus'',
      cl_mMediaServerIP = [], cl_mVideoCodec = ''h263'', cl_mAutoSubscribe = True,
      cl_mListernerHandleId = 0, cl_mPulisherHandleId = 0, cl_mAutoPublish = True, cl_mVideoCodecImageType = None,
      cl_mParamSettings = defaultSetting, cl_sessl = [], cl_count = 0, cl_messages = []\<rparr>"

text \<open>Freeing a client that was never initialised follows its null observer.\<close>

definition destoryClient :: "BaiduRtcClient \<Rightarrow> unit option" where
  "destoryClient cl = (case cl_mFRTCconn cl of None \<Rightarrow> None | Some conn \<Rightarrow> Some ())"

text \<open>
  The connection and the observer are allocated together, the first time. Without memory for the
  observer, the call returns \<^verbatim>\<open>false\<close> and leaves a connection that nothing was written to, which every other
  operation would read; without memory for the handle, it is written through a null pointer. The
  model has no state for either.
\<close>

definition init :: "world \<Rightarrow> BaiduRtcClient \<Rightarrow> (bool \<times> BaiduRtcClient) option" where
  "init W cl =
     (if cl_mIsInitialized cl then Some (False, cl)
      else if cl_mFRTCconn cl = None \<and> \<not> env_mem (w_env W) then Some (False, cl)
      else if cl_mFRTCconn cl = None \<and> \<not> w_observer_mem W then None
      else if \<not> w_handle_mem W then None
      else Some (True, cl\<lparr>cl_mFRTCconn := Some FRTCConnection_construct, cl_mIsInitialized := True\<rparr>))"

definition deInit :: "BaiduRtcClient \<Rightarrow> BaiduRtcClient option" where
  "deInit cl =
     (if \<not> cl_mIsInitialized cl then Some cl
      else do {
        conn \<leftarrow> cl_mFRTCconn cl;
        Some (cl\<lparr>cl_mFRTCconn := Some (if mRTCConnected conn then disconnect conn else conn),
                 cl_mIsLoginRoom := False, cl_mIsInitialized := False\<rparr>)
      })"

definition login_settings :: "app_text \<Rightarrow> room_text \<Rightarrow> user_text \<Rightarrow> name_text \<Rightarrow> token_text \<Rightarrow> BaiduRtcClient \<Rightarrow> FRTCConnection \<Rightarrow> FRTCConnection" where
  "login_settings app roomName userId displayName token cl conn =
     (let P = cl_mParamSettings cl
      in setDisplayName displayName (setHasVideo False (setTokenStr token (setUserId userId (setRoomName roomName
          (setAsPublisher (AsPublisher P) (setAsListener (AsListener P) (setAutoSubscribe (cl_mAutoSubscribe cl)
          (setMediaServerIP (cl_mMediaServerIP cl) (setHasData (HasData P) (setHasVideo (HasVideo P) (setHasAudio (HasAudio P)
          (setVideoCodec (cl_mVideoCodec cl) (setFeedId (cl_mFeedID cl) (setCerPath (cl_mCer cl) (setAppId app
          (setSDKTag ''BRTC.RTOS.SDK V3.0.1'' conn)))))))))))))))))"

definition loginRoom :: "world \<Rightarrow> bool \<Rightarrow> room_text \<Rightarrow> user_text \<Rightarrow> name_text \<Rightarrow> token_text \<Rightarrow> BaiduRtcClient \<Rightarrow> (bool \<times> BaiduRtcClient) option" where
  "loginRoom W ws_ok roomName userId displayName token cl =
     (if cl_mIsLoginRoom cl then Some (True, cl)
      else case cl_mFRTCconn cl of
        None \<Rightarrow> Some (False, cl)
      | Some conn \<Rightarrow> do {
          app \<leftarrow> deref (cl_mAppId cl);
          let conn = login_settings app roomName userId displayName token cl conn;
          let cl = cl\<lparr>cl_mParamSettings := (cl_mParamSettings cl)\<lparr>HasVideo := False\<rparr>\<rparr>;
          (n, conn') \<leftarrow> connecting (cl_mMediaServerURL cl) (cl_count cl) ws_ok conn;
          cl \<leftarrow> observe_all W (drop (length (mObserved conn)) (mObserved conn')) (cl\<lparr>cl_mFRTCconn := Some conn', cl_count := n\<rparr>);
          Some (True, cl\<lparr>cl_mIsLoginRoom := True\<rparr>)
        })"

definition logoutRoom :: "BaiduRtcClient \<Rightarrow> BaiduRtcClient option" where
  "logoutRoom cl =
     (if \<not> cl_mIsLoginRoom cl then Some cl
      else do {
        conn \<leftarrow> cl_mFRTCconn cl;
        Some (cl\<lparr>cl_mFRTCconn := Some (if mRTCConnected conn then disconnect conn else conn), cl_mIsLoginRoom := False\<rparr>)
      })"

definition client_sendMessageToUser :: "world \<Rightarrow> string \<Rightarrow> string \<Rightarrow> BaiduRtcClient \<Rightarrow> BaiduRtcClient option" where
  "client_sendMessageToUser W msg user cl =
     (if cl_mFRTCconn cl = None then Some cl else with_conn W (sendMessageToUser (w_env W) msg (atoll user) False) cl)"

definition subscribeStreaming :: "world \<Rightarrow> string \<Rightarrow> BaiduRtcClient \<Rightarrow> BaiduRtcClient option" where
  "subscribeStreaming W feedId cl =
     (let cl = cl\<lparr>cl_mFeedID := feedId\<rparr>
      in if cl_mFRTCconn cl = None then Some cl else with_conn W (subscriberCreateHandle (w_env W) (atoll feedId)) cl)"

definition stopSubscribeStreaming :: "world \<Rightarrow> BaiduRtcClient \<Rightarrow> BaiduRtcClient option" where
  "stopSubscribeStreaming W cl =
     (if cl_mFRTCconn cl = None then Some cl else with_conn W (detach (w_env W) (cl_mListernerHandleId cl)) cl)"

definition stopPublish :: "world \<Rightarrow> BaiduRtcClient \<Rightarrow> BaiduRtcClient option" where
  "stopPublish W cl =
     (if cl_mFRTCconn cl = None then Some cl else with_conn W (unpublish (w_env W) (cl_mPulisherHandleId cl)) cl)"

definition baidu_rtc_signal_keepalive :: "world \<Rightarrow> BaiduRtcClient \<Rightarrow> BaiduRtcClient option" where
  "baidu_rtc_signal_keepalive W cl =
     (case cl_mFRTCconn cl of
        None \<Rightarrow> Some cl
      | Some conn \<Rightarrow>
          if \<not> mWSCtx conn then Some cl
          else if \<not> mbAliving conn then observe_all W [onRTCConnectError, onCirrusDisconnected] cl
          else with_conn W (\<lambda>conn. keepAlive (w_env W) (conn\<lparr>mbAliving := False\<rparr>)) cl)"

definition baidu_rtc_signal_keepalive_check_result :: "world \<Rightarrow> BaiduRtcClient \<Rightarrow> BaiduRtcClient option" where
  "baidu_rtc_signal_keepalive_check_result W cl =
     (case cl_mFRTCconn cl of
        None \<Rightarrow> Some cl
      | Some conn \<Rightarrow>
          if mWSCtx conn \<and> \<not> mbAliving conn then observe_all W [onRTCConnectError, onCirrusDisconnected] cl else Some cl)"

definition setParamSettings :: "RtcParamSettingType \<Rightarrow> RtcParameterSettings option \<Rightarrow> BaiduRtcClient \<Rightarrow> BaiduRtcClient" where
  "setParamSettings paramType paramSettings cl =
     (case paramSettings of
        None \<Rightarrow> cl
      | Some p \<Rightarrow>
          if paramType = RTC_PARAM_SETTINGS_ALL then cl\<lparr>cl_mParamSettings := p\<rparr>
          else if paramType = RTC_VIDEO_PARAM_SETTINGS_BITRATE
          then cl\<lparr>cl_mParamSettings := (cl_mParamSettings cl)\<lparr>VideoMaxkbps := VideoMaxkbps p\<rparr>\<rparr>
          else cl)"

definition client_setFeedId :: "string \<Rightarrow> BaiduRtcClient \<Rightarrow> BaiduRtcClient" where
  "client_setFeedId feedId cl = cl\<lparr>cl_mFeedID := feedId\<rparr>"

definition setCER :: "string \<Rightarrow> BaiduRtcClient \<Rightarrow> BaiduRtcClient" where
  "setCER cerFile cl = cl\<lparr>cl_mCer := cerFile\<rparr>"

definition client_setVideoCodec :: "string \<Rightarrow> BaiduRtcClient \<Rightarrow> BaiduRtcClient" where
  "client_setVideoCodec vc cl =
     (case cl_mFRTCconn cl of
        None \<Rightarrow> cl
      | Some conn \<Rightarrow>
          let cl = (if strncmp_eq vc ''h263'' 4 then cl\<lparr>cl_mVideoCodecImageType := Some RTC_IMAGE_TYPE_H263\<rparr>
                    else if strncmp_eq vc ''h264'' 4 then cl\<lparr>cl_mVideoCodecImageType := Some RTC_IMAGE_TYPE_H264\<rparr>
                    else cl)
          in cl\<lparr>cl_mVideoCodec := vc, cl_mFRTCconn := Some (setVideoCodec vc conn)\<rparr>)"

definition setMediaServerURL :: "string option \<Rightarrow> BaiduRtcClient \<Rightarrow> BaiduRtcClient" where
  "setMediaServerURL url cl = (case url of None \<Rightarrow> cl | Some url \<Rightarrow> cl\<lparr>cl_mMediaServerURL := url\<rparr>)"

definition setAppID :: "string option \<Rightarrow> BaiduRtcClient \<Rightarrow> BaiduRtcClient" where
  "setAppID appid cl = (case appid of None \<Rightarrow> cl | Some a \<Rightarrow> cl\<lparr>cl_mAppId := Ptr a\<rparr>)"

definition client_setMediaServerIP :: "string \<Rightarrow> BaiduRtcClient \<Rightarrow> BaiduRtcClient" where
  "client_setMediaServerIP ip cl = cl\<lparr>cl_mMediaServerIP := ip\<rparr>"

definition registerRtcMessageListener :: "bool \<Rightarrow> BaiduRtcClient \<Rightarrow> BaiduRtcClient" where
  "registerRtcMessageListener b cl = cl\<lparr>cl_mRtcMessageListener := b\<rparr>"

definition brtc_set_auto_publish :: "bool \<Rightarrow> BaiduRtcClient \<Rightarrow> BaiduRtcClient" where
  "brtc_set_auto_publish b cl = cl\<lparr>cl_mAutoPublish := b\<rparr>"

definition brtc_set_auto_subscribe :: "bool \<Rightarrow> BaiduRtcClient \<Rightarrow> BaiduRtcClient" where
  "brtc_set_auto_subscribe b cl = cl\<lparr>cl_mAutoSubscribe := b\<rparr>"

definition startPublish :: "world \<Rightarrow> BaiduRtcClient \<Rightarrow> BaiduRtcClient option" where
  "startPublish W cl = publishOwnFeed W cl"

end
