(* ===== verification/ClientRun.thy ===== *)
theory ClientRun
  imports RtcClient
begin

text \<open>
  Runs of the whole client: events of the WebSocket and of the peer connections, and calls of the
  user, in any order. The invariants of the signalling connection and of the peer connections hold
  together, and a published feed is negotiated to the end.
\<close>

section \<open>Runs\<close>

definition world_text :: "world \<Rightarrow> bool" where
  "world_text W \<longleftrightarrow> (\<forall>mb. w_sdp W = Inr mb \<longrightarrow> (\<exists>cps. list_all (\<lambda>cp. scalar_value cp \<and> cp \<noteq> 0) cps \<and> descr_chars mb = utf8_text cps))"

text \<open>The events of a peer connection.\<close>

inductive pc_event :: "(peer_connection \<Rightarrow> peer_connection option) \<Rightarrow> bool" where
  "pc_event (\<lambda>pc. Some (mnat_estab_handler e sc pc))"
| "pc_event (menc_event_handler ev s)"
| "pc_event (\<lambda>pc. Some (menc_error_handler e pc))"
| "pc_event (\<lambda>pc. Some (mnatconn_handler e s i pc))"
| "pc_event (\<lambda>pc. Some (rtpestab_handler i pc))"
| "pc_event (\<lambda>pc. Some (rtcp_handler i pc))"
| "pc_event (\<lambda>pc. Some (stream_error_handler e pc))"
| "pc_event (\<lambda>pc. Some (audio_error_handler e pc))"
| "pc_event (\<lambda>pc. map_option snd (ice_tmr_expired u pc))"

text \<open>
  The flag says that the settings given by the user need no escape, a message is the inside of a JSON
  string, the user is a number, and local descriptions are UTF-8. The code checks and escapes none of them.
\<close>

inductive client_step :: "bool \<Rightarrow> BaiduRtcClient \<Rightarrow> BaiduRtcClient \<Rightarrow> bool" for js :: bool where
  ws: "js \<longrightarrow> world_text W \<Longrightarrow> websocket_event W ev cl = Some cl' \<Longrightarrow> client_step js cl cl'"
| session: "i < length (cl_sessl cl) \<Longrightarrow> pc_event f \<Longrightarrow> session_event W f (cl_sessl cl ! i) = Some s \<Longrightarrow>
    client_step js cl (cl\<lparr>cl_sessl := (cl_sessl cl)[i := s]\<rparr>)"
| cl_init: "init W cl = Some (b, cl') \<Longrightarrow> client_step js cl cl'"
| de_init: "deInit cl = Some cl' \<Longrightarrow> client_step js cl cl'"
| login: "js \<longrightarrow> world_text W \<and> plain room \<and> jint user \<and> plain disp \<and> plain token \<Longrightarrow>
    loginRoom W ok room user disp token cl = Some (b, cl') \<Longrightarrow> client_step js cl cl'"
| logout: "logoutRoom cl = Some cl' \<Longrightarrow> client_step js cl cl'"
| message: "js \<longrightarrow> world_text W \<and> jchars msg \<Longrightarrow> client_sendMessageToUser W msg user cl = Some cl' \<Longrightarrow> client_step js cl cl'"
| subscribe: "js \<longrightarrow> world_text W \<Longrightarrow> subscribeStreaming W feed cl = Some cl' \<Longrightarrow> client_step js cl cl'"
| unsubscribe: "js \<longrightarrow> world_text W \<Longrightarrow> stopSubscribeStreaming W cl = Some cl' \<Longrightarrow> client_step js cl cl'"
| publish: "js \<longrightarrow> world_text W \<Longrightarrow> startPublish W cl = Some cl' \<Longrightarrow> client_step js cl cl'"
| unpublish: "js \<longrightarrow> world_text W \<Longrightarrow> stopPublish W cl = Some cl' \<Longrightarrow> client_step js cl cl'"
| keepalive: "js \<longrightarrow> world_text W \<Longrightarrow> baidu_rtc_signal_keepalive W cl = Some cl' \<Longrightarrow> client_step js cl cl'"
| keepalive_check: "js \<longrightarrow> world_text W \<Longrightarrow> baidu_rtc_signal_keepalive_check_result W cl = Some cl' \<Longrightarrow> client_step js cl cl'"
| params: "client_step js cl (setParamSettings t p cl)"
| feed: "client_step js cl (client_setFeedId s cl)"
| cer: "client_step js cl (setCER s cl)"
| codec: "js \<longrightarrow> plain s \<Longrightarrow> client_step js cl (client_setVideoCodec s cl)"
| url: "js \<longrightarrow> pred_option plain u \<Longrightarrow> client_step js cl (setMediaServerURL u cl)"
| app: "js \<longrightarrow> pred_option plain a \<Longrightarrow> client_step js cl (setAppID a cl)"
| ip: "js \<longrightarrow> plain s \<Longrightarrow> client_step js cl (client_setMediaServerIP s cl)"
| listener: "client_step js cl (registerRtcMessageListener b cl)"
| auto_publish: "client_step js cl (brtc_set_auto_publish b cl)"
| auto_subscribe: "client_step js cl (brtc_set_auto_subscribe b cl)"

section \<open>Invariant\<close>

definition session_ok :: "client_session \<Rightarrow> bool" where
  "session_ok s \<longleftrightarrow> pred_option (pc_inv True) (cs_pc s)"

definition client_ok :: "bool \<Rightarrow> BaiduRtcClient \<Rightarrow> bool" where
  "client_ok js cl \<longleftrightarrow> pred_option (conn_inv js) (cl_mFRTCconn cl) \<and> list_all session_ok (cl_sessl cl) \<and>
     (js \<longrightarrow> plain (cl_mMediaServerIP cl) \<and> plain (cl_mVideoCodec cl) \<and> plain (cl_mMediaServerURL cl) \<and>
       (\<forall>a. cl_mAppId cl = Ptr a \<longrightarrow> plain a))"

subsection \<open>Sessions\<close>

lemma create_pc_ok: "client_session_create_pc W s = Some (e, s') \<Longrightarrow> session_ok s \<Longrightarrow> session_ok s'"
proof -
  assume r: "client_session_create_pc W s = Some (e, s')" and s: "session_ok s"
  obtain e1 e2 e3 where es: "w_new_err W = (e1, e2, e3)" by (metis prod_cases3)
  let ?new = "peerconnection_new True (w_mnat W) (w_menc W) (w_new_mem W) e1 e2 e3 True True True"
  show ?thesis
  proof (cases ?new)
    case (Inl a)
    then show ?thesis using r s by (simp add: client_session_create_pc_def es)
  next
    case (Inr pc)
    then have "pc_init pc" unfolding pc_init_def by blast
    then have i: "pc_inv True pc" by (rule pc_init_inv)
    obtain pc' where "peerconnection_add MEDIA_KIND_AUDIO True (w_new_mem W) (w_audio W) pc = Some (e, pc')" "s' = s\<lparr>cs_pc := Some pc'\<rparr>"
      using r by (auto simp: client_session_create_pc_def es Inr peerconnection_add_audio_def bind_eq_Some_conv)
    then show ?thesis using add_inv [OF _ i] by (simp add: session_ok_def)
  qed
qed

lemma session_offer_ok: "session_offer W s = (mb, s') \<Longrightarrow> session_ok s \<Longrightarrow> session_ok s'"
  by (auto simp: session_offer_def session_ok_def dest: create_offer_inv split: option.splits prod.splits)

lemma session_answer_ok: "session_answer W s = (mb, s') \<Longrightarrow> session_ok s \<Longrightarrow> session_ok s'"
  by (auto simp: session_answer_def session_ok_def dest: create_answer_inv split: option.splits prod.splits)

lemma set_remote_ok: "client_session_set_remote_description W j s = (e, s') \<Longrightarrow> session_ok s \<Longrightarrow> session_ok s'"
  by (auto simp: client_session_set_remote_description_def session_ok_def dest: set_remote_inv split: option.splits prod.splits sum.splits)

lemma mediatrack_start_quiet: "mediatrack_start k m f e s = (r, cs) \<Longrightarrow> sdp_quiet cs"
  by (auto simp: mediatrack_start_def sdp_quiet_def split: option.splits if_splits)

lemma session_handler_ok: "session_handler W c s = Some s' \<Longrightarrow> session_ok s \<Longrightarrow> session_ok s'"
proof -
  assume r: "session_handler W c s = Some s'" and s: "session_ok s"
  have g: "session_ok s'" if "peerconnection_gather_handler W s = Some s'"
    using that s by (auto simp: peerconnection_gather_handler_def session_ok_def bind_eq_Some_conv dest: start_ice_inv split: option.splits)
  have e: "session_ok (peerconnection_estab_handler W i s)" for i
    using s by (auto simp: peerconnection_estab_handler_def session_ok_def mediatrack_start_audio_def mediatrack_start_video_def Let_def
      split: option.splits prod.splits media_kind.splits dest!: mediatrack_start_quiet intro!: pc_inv_calls)
  show ?thesis using r s g e by (auto simp: session_handler_def peerconnection_close_handler_def session_ok_def split: call.splits)
qed

lemma session_handlers_ok: "session_handlers W cs s = Some s' \<Longrightarrow> session_ok s \<Longrightarrow> session_ok s'"
  by (induction cs arbitrary: s) (auto simp: bind_eq_Some_conv dest: session_handler_ok)

lemma session_event_ok:
  assumes "session_event W f s = Some s'" "session_ok s" "\<And>pc pc'. f pc = Some pc' \<Longrightarrow> pc_inv True pc \<Longrightarrow> pc_inv True pc'"
  shows "session_ok s'"
proof -
  obtain pc pc' where "cs_pc s = Some pc" "f pc = Some pc'"
    "session_handlers W (drop (length (pc_log pc)) (pc_log pc')) (s\<lparr>cs_pc := Some pc'\<rparr>) = Some s'"
    using assms(1) by (auto simp: session_event_def bind_eq_Some_conv)
  then show ?thesis using assms(2,3) session_handlers_ok by (metis (no_types, lifting) client_session.select_convs(1)
    client_session.surjective client_session.update_convs(1) option.pred_inject(2) session_ok_def)
qed

lemma pc_event_inv: "pc_event f \<Longrightarrow> f pc = Some pc' \<Longrightarrow> pc_inv True pc \<Longrightarrow> pc_inv True pc'"
  by (induction rule: pc_event.induct)
    (auto simp: stream_error_handler_def audio_error_handler_def dest: ice_tmr_inv menc_event_inv
      intro: mnat_estab_inv mnatconn_inv handler_inv pc_inv_close)
subsection \<open>Descriptions\<close>

lemma descr_text_json:
  assumes "world_text W" "w_sdp W = Inr mb" "descr_text W mb = Some (Some t)"
  shows "jchars t"
proof -
  obtain cps where cps: "list_all (\<lambda>cp. scalar_value cp \<and> cp \<noteq> 0) cps" "descr_chars mb = utf8_text cps"
    using assms(1,2) unfolding world_text_def by blast
  obtain u where "utf8_encode (Some to_str) (Some (utf8_text cps)) [] = (OK, u)" "jchars u" by (rule utf8_encode_json [OF cps(1)])
  then show ?thesis using assms(3) by (simp add: descr_text_def cps(2) split: if_splits)
qed

lemma session_offer_buffer: "session_offer W s = (Some mb, s') \<Longrightarrow> w_sdp W = Inr mb"
  by (auto simp: session_offer_def split: option.splits prod.splits if_splits sum.splits)

lemma session_answer_buffer: "session_answer W s = (Some mb, s') \<Longrightarrow> w_sdp W = Inr mb"
  by (auto simp: session_answer_def split: option.splits prod.splits if_splits sum.splits)

lemma create_session_offer_ok:
  assumes "client_session_create_offer W s conn = Some (s', conn')" "session_ok s" "conn_inv js conn" "js \<longrightarrow> world_text W"
  shows "session_ok s'" "conn_inv js conn'"
proof -
  obtain mb t where s: "session_offer W s = (Some mb, s')" "descr_text W mb = Some t"
    and c: "(case t of None \<Rightarrow> Some conn | Some t \<Rightarrow> publisherCreateOffer (w_env W) (cs_handle_id s') t conn) = Some conn'"
    using assms(1) by (auto simp: client_session_create_offer_def bind_eq_Some_conv split: prod.splits)
  show "session_ok s'" using session_offer_ok [OF s(1) assms(2)] .
  show "conn_inv js conn'"
    using c assms(3,4) descr_text_json [OF _ session_offer_buffer [OF s(1)]] s(2) by (auto split: option.splits elim!: publisherCreateOffer_inv)
qed

lemma create_session_answer_ok:
  assumes "client_session_create_answer W s conn = Some (s', conn')" "session_ok s" "conn_inv js conn" "js \<longrightarrow> world_text W"
  shows "session_ok s'" "conn_inv js conn'"
proof -
  obtain mb t where s: "session_answer W s = (Some mb, s')" "descr_text W mb = Some t"
    and c: "(case t of None \<Rightarrow> Some conn | Some t \<Rightarrow> subscriberCreateAnswer (w_env W) (cs_handle_id s') t conn) = Some conn'"
    using assms(1) by (auto simp: client_session_create_answer_def bind_eq_Some_conv split: prod.splits)
  show "session_ok s'" using session_answer_ok [OF s(1) assms(2)] .
  show "conn_inv js conn'"
    using c assms(3,4) descr_text_json [OF _ session_answer_buffer [OF s(1)]] s(2) by (auto split: option.splits elim!: subscriberCreateAnswer_inv)
qed

subsection \<open>Handlers and operations\<close>

lemma client_session_new_ok: "client_session_new W h = Some s \<Longrightarrow> session_ok s"
  by (auto simp: client_session_new_def session_ok_def split: if_splits)

lemma client_ok_frame [simp]:
  "client_ok js (cl\<lparr>cl_mPulisherHandleId := h\<rparr>) = client_ok js cl" "client_ok js (cl\<lparr>cl_mListernerHandleId := h\<rparr>) = client_ok js cl"
  "client_ok js (cl\<lparr>cl_mFeedID := s\<rparr>) = client_ok js cl" "client_ok js (cl\<lparr>cl_mIsLoginRoom := b\<rparr>) = client_ok js cl"
  "client_ok js (cl\<lparr>cl_mIsInitialized := b\<rparr>) = client_ok js cl" "client_ok js (cl\<lparr>cl_mParamSettings := p\<rparr>) = client_ok js cl"
  "client_ok js (cl\<lparr>cl_mCer := s\<rparr>) = client_ok js cl" "client_ok js (cl\<lparr>cl_count := n\<rparr>) = client_ok js cl"
  "client_ok js (cl\<lparr>cl_mRtcMessageListener := b\<rparr>) = client_ok js cl" "client_ok js (cl\<lparr>cl_mAutoPublish := b\<rparr>) = client_ok js cl"
  "client_ok js (cl\<lparr>cl_mAutoSubscribe := b\<rparr>) = client_ok js cl" "client_ok js (notify t d x cl) = client_ok js cl"
  by (simp_all add: client_ok_def notify_def)

lemma client_ok_conn: "client_ok js cl \<Longrightarrow> conn_inv js c \<Longrightarrow> client_ok js (cl\<lparr>cl_mFRTCconn := Some c\<rparr>)"
  by (simp add: client_ok_def)

lemma client_ok_connD: "client_ok js cl \<Longrightarrow> cl_mFRTCconn cl = Some c \<Longrightarrow> conn_inv js c"
  by (simp add: client_ok_def)

lemma client_ok_append: "client_ok js cl \<Longrightarrow> session_ok s \<Longrightarrow> client_ok js (cl\<lparr>cl_sessl := cl_sessl cl @ [s]\<rparr>)"
  by (simp add: client_ok_def)

lemma client_ok_session: "client_ok js cl \<Longrightarrow> i < length (cl_sessl cl) \<Longrightarrow> session_ok (cl_sessl cl ! i)"
  by (simp add: client_ok_def list_all_length)

lemma client_ok_update: "client_ok js cl \<Longrightarrow> session_ok s \<Longrightarrow> client_ok js (cl\<lparr>cl_sessl := (cl_sessl cl)[i := s]\<rparr>)"
  by (auto simp: client_ok_def list_all_iff dest!: set_update_subset_insert [THEN subsetD])

lemma publishOwnFeed_ok:
  assumes "publishOwnFeed W cl = Some cl'" "client_ok js cl" "js \<longrightarrow> world_text W"
  shows "client_ok js cl'"
proof -
  obtain s0 e s1 conn s2 conn' where s: "client_session_new W (cl_mPulisherHandleId cl) = Some s0" "client_session_create_pc W s0 = Some (e, s1)"
    "cl_mFRTCconn cl = Some conn" "client_session_create_offer W s1 conn = Some (s2, conn')"
    "cl' = cl\<lparr>cl_sessl := cl_sessl cl @ [s2], cl_mFRTCconn := Some conn'\<rparr>"
    using assms(1) by (auto simp: publishOwnFeed_def bind_eq_Some_conv)
  have "session_ok s1" by (rule create_pc_ok [OF s(2) client_session_new_ok [OF s(1)]])
  note o = create_session_offer_ok [OF s(4) this client_ok_connD [OF assms(2) s(3)] assms(3)]
  show ?thesis unfolding s(5) by (rule client_ok_conn [OF client_ok_append [OF assms(2) o(1)] o(2)])
qed

lemma onOffer_ok:
  assumes "onOffer W jsep cl = Some cl'" "client_ok js cl" "js \<longrightarrow> world_text W"
  shows "client_ok js cl'"
proof -
  obtain s0 e s1 conn s3 conn' where s: "client_session_new W (cl_mListernerHandleId cl) = Some s0" "client_session_create_pc W s0 = Some (e, s1)"
    "cl_mFRTCconn cl = Some conn" "client_session_create_answer W (snd (client_session_set_remote_description W jsep s1)) conn = Some (s3, conn')"
    "cl' = cl\<lparr>cl_sessl := cl_sessl cl @ [s3], cl_mFRTCconn := Some conn'\<rparr>"
    using assms(1) by (auto simp: onOffer_def bind_eq_Some_conv Let_def case_prod_beta)
  obtain e' s2 where r: "client_session_set_remote_description W jsep s1 = (e', s2)" by (cases "client_session_set_remote_description W jsep s1")
  have "session_ok s2" by (rule set_remote_ok [OF r create_pc_ok [OF s(2) client_session_new_ok [OF s(1)]]])
  note o = create_session_answer_ok [OF s(4) [unfolded r snd_conv] this client_ok_connD [OF assms(2) s(3)] assms(3)]
  show ?thesis unfolding s(5) by (rule client_ok_conn [OF client_ok_append [OF assms(2) o(1)] o(2)])
qed

lemma client_session_lookup_Some: "client_session_lookup l h = Some i \<Longrightarrow> i < length l \<and> cs_handle_id (l ! i) = h"
  by (induction l arbitrary: i) (auto split: if_splits)

lemma remote_jsep_ok:
  "client_onPublisherRemoteJsep W h jsep cl = Some cl' \<Longrightarrow> client_ok js cl \<Longrightarrow> client_ok js cl'"
  by (auto simp: client_onPublisherRemoteJsep_def split: option.splits if_splits prod.splits
      intro!: client_ok_update dest!: client_session_lookup_Some intro: set_remote_ok client_ok_session)

lemma webrtc_up_ok:
  assumes "client_onRTCWebrtcUp W h cl = Some cl'" "client_ok js cl"
  shows "client_ok js cl'"
proof -
  have "session_ok s" if "session_event W (\<lambda>pc. Some (peerconnection_start_media pc)) (cl_sessl cl ! i) = Some s" "i < length (cl_sessl cl)" for i s
    by (rule session_event_ok [OF that(1) client_ok_session [OF assms(2) that(2)]]) (auto intro: start_media_inv)
  then show ?thesis using assms
    by (auto simp: client_onRTCWebrtcUp_def bind_eq_Some_conv split: if_splits option.splits dest!: client_session_lookup_Some intro!: client_ok_update)
qed

lemma observer_ok: "observer W ev cl = Some cl' \<Longrightarrow> client_ok js cl \<Longrightarrow> js \<longrightarrow> world_text W \<Longrightarrow> client_ok js cl'"
  by (cases ev) (auto simp: observer_def client_on_defs client_onPublisherJoined_def client_subscriberHandleRemoteJsep_def Let_def
      split: if_splits dest: remote_jsep_ok webrtc_up_ok publishOwnFeed_ok onOffer_ok)

lemma observe_all_ok: "observe_all W evs cl = Some cl' \<Longrightarrow> client_ok js cl \<Longrightarrow> js \<longrightarrow> world_text W \<Longrightarrow> client_ok js cl'"
  by (induction evs arbitrary: cl) (auto simp: bind_eq_Some_conv dest: observer_ok)

lemma with_conn_ok:
  assumes "with_conn W f cl = Some cl'" "client_ok js cl" "js \<longrightarrow> world_text W"
    and "\<And>c c'. f c = Some c' \<Longrightarrow> conn_inv js c \<Longrightarrow> conn_inv js c'"
  shows "client_ok js cl'"
proof -
  obtain c c' where c: "cl_mFRTCconn cl = Some c" "f c = Some c'"
    "observe_all W (drop (length (mObserved c)) (mObserved c')) (cl\<lparr>cl_mFRTCconn := Some c'\<rparr>) = Some cl'"
    using assms(1) by (auto simp: with_conn_def bind_eq_Some_conv)
  have "conn_inv js c'" by (rule assms(4) [OF c(2) client_ok_connD [OF assms(2) c(1)]])
  then show ?thesis by (rule observe_all_ok [OF c(3) client_ok_conn [OF assms(2)] assms(3)])
qed

lemma setters_inv:
  assumes "conn_inv js c"
  shows "js \<longrightarrow> plain v \<Longrightarrow> conn_inv js (setRoomName v c)" "js \<longrightarrow> plain v \<Longrightarrow> conn_inv js (setAppId v c)"
    "js \<longrightarrow> plain v \<Longrightarrow> conn_inv js (setTokenStr v c)" "js \<longrightarrow> plain v \<Longrightarrow> conn_inv js (setDisplayName v c)"
    "js \<longrightarrow> plain v \<Longrightarrow> conn_inv js (setMediaServerIP v c)" "js \<longrightarrow> plain v \<Longrightarrow> conn_inv js (setSDKTag v c)"
    "js \<longrightarrow> plain v \<Longrightarrow> conn_inv js (setVideoCodec v c)" "js \<longrightarrow> jint v \<Longrightarrow> conn_inv js (setUserId v c)"
  by (rule conn_step_inv [OF _ assms], rule conn_step.param conn_step.user; simp)+

lemma setters_free_inv:
  assumes "conn_inv js c"
  shows "conn_inv js (setAsPublisher b c)" "conn_inv js (setAsListener b c)" "conn_inv js (setHasAudio b c)" "conn_inv js (setHasVideo b c)"
    "conn_inv js (setHasData b c)" "conn_inv js (setAutoSubscribe b c)" "conn_inv js (setFeedId s c)" "conn_inv js (setCerPath s c)"
  using assms by (simp_all add: setAsPublisher_def setAsListener_def setHasAudio_def setHasVideo_def setHasData_def setAutoSubscribe_def
    setFeedId_def setCerPath_def)

lemma login_settings_ok:
  assumes "conn_inv js c" "client_ok js cl" "js \<longrightarrow> plain app \<and> plain room \<and> jint user \<and> plain disp \<and> plain token"
  shows "conn_inv js (login_settings app room user disp token cl c)"
proof -
  have "js \<longrightarrow> plain ''BRTC.RTOS.SDK V3.0.1''" by (simp add: plain_lit)
  then show ?thesis unfolding login_settings_def Let_def
    by (intro setters_inv setters_free_inv assms(1)) (use assms(2,3) in \<open>auto simp: client_ok_def\<close>)
qed

lemma loginRoom_ok:
  assumes "loginRoom W ok room user disp token cl = Some (b, cl')" "client_ok js cl"
    "js \<longrightarrow> world_text W \<and> plain room \<and> jint user \<and> plain disp \<and> plain token"
  shows "client_ok js cl'"
proof (cases "cl_mIsLoginRoom cl \<or> cl_mFRTCconn cl = None")
  case True
  then show ?thesis using assms(1,2) by (auto simp: loginRoom_def split: if_splits)
next
  case False
  then obtain conn where c: "cl_mFRTCconn cl = Some conn" by blast
  from False assms(1) c obtain app n conn' cl1 where s: "cl_mAppId cl = Ptr app"
    "connecting (cl_mMediaServerURL cl) (cl_count cl) ok (login_settings app room user disp token cl conn) = Some (n, conn')"
    "observe_all W (drop (length (mObserved (login_settings app room user disp token cl conn))) (mObserved conn'))
       (cl\<lparr>cl_mParamSettings := (cl_mParamSettings cl)\<lparr>HasVideo := False\<rparr>, cl_mFRTCconn := Some conn', cl_count := n\<rparr>) = Some cl1"
    "cl' = cl1\<lparr>cl_mIsLoginRoom := True\<rparr>"
    by (auto simp: loginRoom_def bind_eq_Some_conv deref_def Let_def split: ptr.splits)
  have pl: "js \<longrightarrow> plain app" "js \<longrightarrow> plain (cl_mMediaServerURL cl)" using assms(2) s(1) by (auto simp: client_ok_def)
  have "conn_inv js conn'"
    by (rule connecting_inv [OF s(2) login_settings_ok [OF client_ok_connD [OF assms(2) c] assms(2)] pl(2)]) (use pl assms(3) in blast)
  then have "client_ok js (cl\<lparr>cl_mParamSettings := (cl_mParamSettings cl)\<lparr>HasVideo := False\<rparr>, cl_mFRTCconn := Some conn', cl_count := n\<rparr>)"
    using assms(2) by (simp add: client_ok_conn)
  then have "client_ok js cl1" by (rule observe_all_ok [OF s(3)]) (use assms(3) in blast)
  then show ?thesis unfolding s(4) by simp
qed

lemma disconnect_inv: "conn_inv js c \<Longrightarrow> conn_inv js (disconnect c)"
  by (simp add: disconnect_def)

lemma keepalive_ok:
  assumes "baidu_rtc_signal_keepalive W cl = Some cl'" "client_ok js cl" "js \<longrightarrow> world_text W"
  shows "client_ok js cl'"
proof -
  have "conn_inv js c'" if "keepAlive (w_env W) (c\<lparr>mbAliving := False\<rparr>) = Some c'" "conn_inv js c" for c c'
    using keepAlive_inv [OF that(1)] that(2) by simp
  then show ?thesis using assms
    by (auto simp: baidu_rtc_signal_keepalive_def simp del: observe_all.simps split: option.splits if_splits
        elim!: observe_all_ok with_conn_ok)
qed

lemma client_step_ok: "client_step js cl cl' \<Longrightarrow> client_ok js cl \<Longrightarrow> client_ok js cl'"
proof (induction rule: client_step.induct)
  case (ws W ev cl cl')
  then show ?case by (auto simp: websocket_event_def elim!: with_conn_ok dest: ws_inv)
next
  case (session i cl f W s)
  then show ?case by (blast intro: client_ok_update session_event_ok client_ok_session pc_event_inv)
next
  case (cl_init W cl b cl')
  then show ?case by (auto simp: init_def construct_inv split: if_splits intro!: client_ok_conn)
next
  case (de_init cl cl')
  then show ?case by (auto simp: deInit_def bind_eq_Some_conv split: if_splits intro!: client_ok_conn disconnect_inv elim: client_ok_connD)
next
  case (login W room user disp token ok cl b cl')
  then show ?case by (blast intro: loginRoom_ok)
next
  case (logout cl cl')
  then show ?case by (auto simp: logoutRoom_def bind_eq_Some_conv split: if_splits intro!: client_ok_conn disconnect_inv elim: client_ok_connD)
next
  case (message W msg user cl cl')
  then show ?case by (auto simp: client_sendMessageToUser_def split: if_splits elim!: with_conn_ok sendMessageToUser_inv)
next
  case (subscribe W feed cl cl')
  then show ?case by (auto simp: subscribeStreaming_def Let_def split: if_splits elim!: with_conn_ok subscriberCreateHandle_inv)
next
  case (unsubscribe W cl cl')
  then show ?case by (auto simp: stopSubscribeStreaming_def split: if_splits elim!: with_conn_ok detach_inv)
next
  case (unpublish W cl cl')
  then show ?case by (auto simp: stopPublish_def split: if_splits elim!: with_conn_ok unpublish_inv)
next
  case (keepalive_check W cl cl')
  then show ?case by (auto simp: baidu_rtc_signal_keepalive_check_result_def simp del: observe_all.simps
    split: option.splits if_splits elim!: observe_all_ok)
next
  case (codec s cl)
  then show ?case by (auto simp: client_setVideoCodec_def client_ok_def Let_def split: option.splits intro: setters_inv)
next
  case (url u cl)
  then show ?case by (auto simp: setMediaServerURL_def client_ok_def split: option.splits)
next
  case (app a cl)
  then show ?case by (auto simp: setAppID_def client_ok_def split: option.splits)
next
  case (ip s cl)
  then show ?case by (simp add: client_setMediaServerIP_def client_ok_def)
qed (auto simp: startPublish_def setParamSettings_def client_setFeedId_def setCER_def registerRtcMessageListener_def
    brtc_set_auto_publish_def brtc_set_auto_subscribe_def split: option.splits intro: keepalive_ok publishOwnFeed_ok)

definition client_init :: "BaiduRtcClient \<Rightarrow> bool" where
  "client_init cl \<longleftrightarrow> cl = createClient"

lemma createClient_ok: "client_ok js createClient"
  by (simp add: client_ok_def createClient_def plain_lit)

interpretation clientinv: invariant_system client_init "client_step js" "client_ok js" for js
  by unfold_locales (auto intro: client_step_ok simp: client_init_def createClient_ok)

lemma reach_client_ok: "reach client_init (client_step js) cl \<Longrightarrow> client_ok js cl"
  by (rule clientinv.reach_inv)

section \<open>Properties\<close>

text \<open>
  C11. As long as the settings given by the user need no escape, every message to a user is the
  inside of a JSON string, the user is a number and local descriptions are UTF-8, every request that
  the client sends is a JSON document which the parser of the client accepts: in every such run of
  WebSocket events, events of the peer connections and calls of the user. The code puts those
  texts into the requests as they are, so that the condition cannot be dropped.
\<close>

theorem client_requests_json:
  assumes "reach client_init (client_step True) cl" "cl_mFRTCconn cl = Some conn" "m \<in> set (mTx conn)"
  shows "JSON_Validate (Some (chars m)) (length m) = JSONSuccess"
  using client_ok_connD [OF reach_client_ok [OF assms(1)] assms(2)] assms(3)
  by (auto simp: conn_inv_def json_ok_def validate_def list_all_iff)

text \<open>The signalling state of a session.\<close>

definition session_state :: "client_session \<Rightarrow> signaling_st" where
  "session_state s = peerconnection_signaling (cs_pc s)"

text \<open>An environment in which everything succeeds, with ICE and a local description that the buffer has room for.\<close>

definition world_up :: "world \<Rightarrow> bool" where
  "world_up W \<longleftrightarrow> env_mem (w_env W) \<and> w_new_mem W \<and> w_new_err W = (OK, OK, OK) \<and> w_mnat W = Some ice_mnat \<and> w_menc W \<noteq> None
     \<and> (\<exists>s. w_audio W = Inr s) \<and> w_print_ok W \<and> w_sdp_decode W = OK
     \<and> (\<exists>mb. w_sdp W = Inr mb \<and> mb_end mb < mb_size mb \<and> mb_end mb < length (mb_buf mb))"

definition local_sdp :: "world \<Rightarrow> string" where
  "local_sdp W = (case w_sdp W of Inl e \<Rightarrow> [] | Inr mb \<Rightarrow> snd (utf8_encode (Some to_str) (Some (descr_chars mb)) []))"

definition offer_request :: "world \<Rightarrow> u64 \<Rightarrow> FRTCConnection \<Rightarrow> string" where
  "offer_request W h conn = g_rtc_offer_sdp (bool_str (mHasAudio conn)) (bool_str (mHasVideo conn)) (bool_str (mHasData conn))
     (local_sdp W) (transaction_id (w_env W)) (lld (mSessionId conn)) (lld h)"

definition answer_request :: "world \<Rightarrow> u64 \<Rightarrow> FRTCConnection \<Rightarrow> string" where
  "answer_request W h conn = g_rtc_answer_sdp (lld (mRoomId conn)) (local_sdp W) (transaction_id (w_env W)) (lld (mSessionId conn)) (lld h)"

text \<open>A peer connection that may still start ICE.\<close>

definition pc_ready :: "peer_connection \<Rightarrow> bool" where
  "pc_ready pc \<longleftrightarrow> pc_gatherh pc \<and> pc_mnat pc = Some ice_mnat \<and> pc_mnats pc"

lemma create_pc_up:
  assumes "world_up W"
  obtains pc where "client_session_create_pc W s = Some (OK, s\<lparr>cs_pc := Some pc\<rparr>)" "pc_signaling_state pc = SS_STABLE" "pc_ready pc"
  using assms that by (force simp: world_up_def client_session_create_pc_def peerconnection_new_def peerconnection_add_audio_def
      peerconnection_add_def media_track_add_def set_track_def pc_ready_def pc0_def ice_mnat_def)

lemma descr_text_up:
  assumes "world_up W"
  obtains mb where "w_sdp W = Inr mb" "descr_text W mb = Some (Some (local_sdp W))"
  using assms that by (auto simp: world_up_def descr_text_def local_sdp_def)

lemma session_offer_up:
  assumes "world_up W" "cs_pc s = Some pc" "pc_signaling_state pc = SS_STABLE" "pc_ready pc"
    "mRTCConnected conn" "mWSConnetion conn = Ptr ()" "length (offer_request W (cs_handle_id s) conn) < DEFAULT_SIZE * 8"
  obtains pc' where "client_session_create_offer W s conn = Some (s\<lparr>cs_pc := Some pc'\<rparr>, conn\<lparr>mTx := mTx conn @ [offer_request W (cs_handle_id s) conn]\<rparr>)"
    "pc_signaling_state pc' = SS_HAVE_LOCAL_OFFER" "pc_ready pc'"
proof -
  obtain mb where mb: "w_sdp W = Inr mb" "descr_text W mb = Some (Some (local_sdp W))" by (rule descr_text_up [OF assms(1)])
  show thesis
    using assms mb
    by (intro that [of "(log_call (SdpEncode SDP_OFFER OK) pc)\<lparr>pc_signaling_state := SS_HAVE_LOCAL_OFFER, pc_sdp_enc_ok := True\<rparr>"])
      (simp_all add: client_session_create_offer_def session_offer_def peerconnection_create_offer_def Let_def
        publisherCreateOffer_def print_str_def sendMessage_def deref_def offer_request_def [symmetric] pc_ready_def log_call_def)
qed

lemma lookup_append: "client_session_lookup l h = None \<Longrightarrow> cs_handle_id s = h \<Longrightarrow> client_session_lookup (l @ [s]) h = Some (length l)"
  by (induction l) (auto split: if_splits)

lemma publish_up:
  assumes "world_up W" "cl_mFRTCconn cl = Some conn" "mRTCConnected conn" "mWSConnetion conn = Ptr ()"
    "length (offer_request W (cl_mPulisherHandleId cl) conn) < DEFAULT_SIZE * 8"
  obtains pc where "publishOwnFeed W cl = Some (cl\<lparr>cl_sessl := cl_sessl cl @ [\<lparr>cs_pc = Some pc, cs_handle_id = cl_mPulisherHandleId cl\<rparr>],
      cl_mFRTCconn := Some (conn\<lparr>mTx := mTx conn @ [offer_request W (cl_mPulisherHandleId cl) conn]\<rparr>)\<rparr>)"
    "pc_signaling_state pc = SS_HAVE_LOCAL_OFFER" "pc_ready pc"
proof -
  let ?s = "\<lparr>cs_pc = None, cs_handle_id = cl_mPulisherHandleId cl\<rparr>"
  obtain pc where pc: "client_session_create_pc W ?s = Some (OK, ?s\<lparr>cs_pc := Some pc\<rparr>)" "pc_signaling_state pc = SS_STABLE" "pc_ready pc"
    by (rule create_pc_up [OF assms(1)])
  have l: "length (offer_request W (cs_handle_id (?s\<lparr>cs_pc := Some pc\<rparr>)) conn) < DEFAULT_SIZE * 8" using assms(5) by simp
  obtain pc' where o: "client_session_create_offer W (?s\<lparr>cs_pc := Some pc\<rparr>) conn =
      Some (?s\<lparr>cs_pc := Some pc'\<rparr>, conn\<lparr>mTx := mTx conn @ [offer_request W (cl_mPulisherHandleId cl) conn]\<rparr>)"
    and s: "pc_signaling_state pc' = SS_HAVE_LOCAL_OFFER" "pc_ready pc'"
    using session_offer_up [OF assms(1) _ pc(2,3) assms(3,4) l] by force
  have "env_mem (w_env W)" using assms(1) by (simp add: world_up_def)
  then show thesis using pc(1) o assms(2) by (intro that [OF _ s]) (simp add: publishOwnFeed_def client_session_new_def)
qed

lemma set_remote_up:
  assumes "world_up W" "session_description_decode W jsep = Inr (type, sdp)" "cs_pc s = Some pc" "pc_signaling_state pc \<noteq> SS_HAVE_REMOTE_OFFER" "pc_ready pc"
  obtains pc' where "client_session_set_remote_description W jsep s = (OK, s\<lparr>cs_pc := Some pc'\<rparr>)"
    "pc_signaling_state pc' = (if type = SDP_OFFER then SS_HAVE_REMOTE_OFFER else SS_STABLE)" "pc_ready pc'" "pc_sdp_dec_ok pc'"
proof -
  let ?r = "peerconnection_set_remote_descr (Some type) OK pc"
  have r: "fst ?r = OK" "pc_signaling_state (snd ?r) = (if type = SDP_OFFER then SS_HAVE_REMOTE_OFFER else SS_STABLE)"
    "pc_ready (snd ?r)" "pc_sdp_dec_ok (snd ?r)"
    using assms(4,5) by (simp_all add: peerconnection_set_remote_descr_def pc_ready_def log_call_def Let_def)
  have "client_session_set_remote_description W jsep s = (OK, s\<lparr>cs_pc := Some (snd ?r)\<rparr>)"
    using assms(1,2,3) r(1) by (simp add: client_session_set_remote_description_def world_up_def case_prod_beta)
  then show thesis using r(2-4) by (rule that)
qed

lemma ice_up:
  assumes "pc_ready pc" "pc_sdp_dec_ok pc" "cs_pc s = Some pc"
  obtains s' pc' where "session_event W (\<lambda>pc. Some (mnat_estab_handler OK 0 pc)) s = Some s'" "cs_pc s' = Some pc'" "MnatUpdate (w_ice W) \<in> set (pc_log pc')"
proof -
  let ?pc = "log_call (MnatUpdate (w_ice W)) (log_call GatherH (pc\<lparr>pc_gather_ok := True\<rparr>))"
  have "session_event W (\<lambda>pc. Some (mnat_estab_handler OK 0 pc)) s = Some (s\<lparr>cs_pc := Some ?pc\<rparr>)"
    using assms by (simp add: session_event_def mnat_estab_handler_def pc_ready_def log_call_def session_handler_def
        peerconnection_gather_handler_def peerconnection_start_ice_def ice_mnat_def)
  then show thesis by (rule that [of _ ?pc]) (simp_all add: log_call_def)
qed

text \<open>
  C2. A published feed is negotiated to the end. When the server reports that the publisher joined,
  a new session makes an offer, and exactly that offer is sent. When the server's answer to it comes,
  that session, and no other, becomes stable. And when ICE has then gathered its candidates, it is
  started.
\<close>

theorem client_publish:
  assumes "world_up W" "cl_mFRTCconn cl = Some conn" "mRTCConnected conn" "mWSConnetion conn = Ptr ()" "cl_mAutoPublish cl"
    "client_session_lookup (cl_sessl cl) h = None" "length (offer_request W h conn) < DEFAULT_SIZE * 8"
    "session_description_decode W jsep = Inr (SDP_ANSWER, sdp)"
  shows "\<exists>cl1 s1 cl2 s2 s3 pc3.
      observer W (onPublisherJoined h) cl = Some cl1
    \<and> cl_sessl cl1 = cl_sessl cl @ [s1] \<and> session_state s1 = SS_HAVE_LOCAL_OFFER
    \<and> cl_mFRTCconn cl1 = Some (conn\<lparr>mTx := mTx conn @ [offer_request W h conn]\<rparr>)
    \<and> observer W (onPublisherRemoteJsep h jsep) cl1 = Some cl2
    \<and> cl_sessl cl2 = cl_sessl cl @ [s2] \<and> session_state s2 = SS_STABLE
    \<and> session_event W (\<lambda>pc. Some (mnat_estab_handler OK 0 pc)) s2 = Some s3 \<and> cs_pc s3 = Some pc3 \<and> MnatUpdate (w_ice W) \<in> set (pc_log pc3)"
proof -
  let ?cl = "cl\<lparr>cl_mPulisherHandleId := h\<rparr>"
  obtain pc where pc: "publishOwnFeed W ?cl = Some (?cl\<lparr>cl_sessl := cl_sessl cl @ [\<lparr>cs_pc = Some pc, cs_handle_id = h\<rparr>],
      cl_mFRTCconn := Some (conn\<lparr>mTx := mTx conn @ [offer_request W h conn]\<rparr>)\<rparr>)"
    and st: "pc_signaling_state pc = SS_HAVE_LOCAL_OFFER" "pc_ready pc"
    using publish_up [OF assms(1), of ?cl conn] assms(2,3,4,7) by auto
  let ?s1 = "\<lparr>cs_pc = Some pc, cs_handle_id = h\<rparr>"
  obtain pc2 where r: "client_session_set_remote_description W jsep ?s1 = (OK, ?s1\<lparr>cs_pc := Some pc2\<rparr>)" "pc_signaling_state pc2 = SS_STABLE"
    "pc_ready pc2" "pc_sdp_dec_ok pc2"
    using set_remote_up [OF assms(1,8), of ?s1 pc] st by auto
  obtain s3 pc3 where i: "session_event W (\<lambda>pc. Some (mnat_estab_handler OK 0 pc)) (?s1\<lparr>cs_pc := Some pc2\<rparr>) = Some s3" "cs_pc s3 = Some pc3"
    "MnatUpdate (w_ice W) \<in> set (pc_log pc3)"
    using ice_up [OF r(3,4), of "?s1\<lparr>cs_pc := Some pc2\<rparr>" W] by auto
  have m: "env_mem (w_env W)" using assms(1) by (simp add: world_up_def)
  show ?thesis
    using pc r i m st assms(5) lookup_append [OF assms(6), of ?s1]
    by (auto simp: observer_def client_onPublisherJoined_def client_onPublisherRemoteJsep_def session_state_def peerconnection_signaling_def nth_append)
qed

text \<open>
  C23. A remote feed is answered. When the server hands the description of a feed to the listener, a
  new session takes the offer, becomes stable by its answer, and exactly that answer is sent; all
  other sessions are left alone.
\<close>

theorem client_subscribe:
  assumes "world_up W" "cl_mFRTCconn cl = Some conn" "mRTCConnected conn" "mWSConnetion conn = Ptr ()"
    "length (answer_request W h conn) < DEFAULT_SIZE * 4" "session_description_decode W jsep = Inr (SDP_OFFER, sdp)"
  shows "\<exists>cl' s. observer W (subscriberHandleRemoteJsep h jsep) cl = Some cl' \<and> cl_sessl cl' = cl_sessl cl @ [s]
    \<and> cs_handle_id s = h \<and> session_state s = SS_STABLE
    \<and> cl_mFRTCconn cl' = Some (conn\<lparr>mTx := mTx conn @ [answer_request W h conn]\<rparr>)"
proof -
  let ?s = "\<lparr>cs_pc = None, cs_handle_id = h\<rparr>"
  obtain pc where pc: "client_session_create_pc W ?s = Some (OK, ?s\<lparr>cs_pc := Some pc\<rparr>)" "pc_signaling_state pc = SS_STABLE" "pc_ready pc"
    by (rule create_pc_up [OF assms(1)])
  let ?s1 = "\<lparr>cs_pc = Some pc, cs_handle_id = h\<rparr>"
  obtain pc2 where r: "client_session_set_remote_description W jsep ?s1 = (OK, ?s1\<lparr>cs_pc := Some pc2\<rparr>)" "pc_signaling_state pc2 = SS_HAVE_REMOTE_OFFER"
    using set_remote_up [OF assms(1,6), of ?s1 pc] pc(2,3) by auto
  obtain mb where mb: "w_sdp W = Inr mb" "descr_text W mb = Some (Some (local_sdp W))" by (rule descr_text_up [OF assms(1)])
  have "env_mem (w_env W)" using assms(1) by (simp add: world_up_def)
  then show ?thesis
    using pc(1) r mb assms(2-5)
    by (simp add: observer_def client_subscriberHandleRemoteJsep_def onOffer_def client_session_new_def client_session_create_answer_def
        session_answer_def peerconnection_create_answer_def Let_def subscriberCreateAnswer_def print_str_def sendMessage_def deref_def
        answer_request_def [symmetric] session_state_def peerconnection_signaling_def log_call_def)
qed

subsection \<open>An example\<close>

text \<open>A world with the local description \<^verbatim>\<open>v=0\<close>, in which the description received is named by its type.\<close>

definition world_ex :: world where
  "world_ex = \<lparr>w_env = env_ex 0, w_observer_mem = True, w_handle_mem = True, w_mnat = Some ice_mnat, w_menc = Some True, w_new_mem = True, w_new_err = (OK, OK, OK), w_audio = Inr 7,
     w_sdp = Inr \<lparr>mb_buf = [118, 61, 48, 0], mb_size = 4, mb_pos = 0, mb_end = 3\<rparr>, w_json = (\<lambda>j. Inr (Some j, Some ''v=0'')),
     w_descr_mem = True, w_sdp_decode = OK, w_ice = OK, w_print_ok = True, w_fmt = True, w_encoder = OK, w_source = OK\<rparr>"

lemma world_ex_sel [simp]: "w_env world_ex = env_ex 0" "w_observer_mem world_ex" "w_handle_mem world_ex" "w_sdp world_ex = Inr \<lparr>mb_buf = [118, 61, 48, 0], mb_size = 4, mb_pos = 0, mb_end = 3\<rparr>"
  by (simp_all add: world_ex_def)

lemma world_ex_up: "world_up world_ex"
  by (auto simp: world_up_def) (auto simp: world_ex_def)

lemma world_ex_text: "world_text world_ex"
proof -
  have "descr_chars \<lparr>mb_buf = [118, 61, 48, 0], mb_size = 4, mb_pos = 0, mb_end = 3\<rparr> = utf8_text [118, 61, 48]" by code_simp
  moreover have "list_all (\<lambda>cp. scalar_value cp \<and> cp \<noteq> 0) [118, 61, 48]" by (simp add: scalar_value_def)
  ultimately show ?thesis unfolding world_text_def world_ex_sel by blast
qed

lemma local_sdp_ex: "local_sdp world_ex = ''v=0''"
  by (simp add: local_sdp_def) code_simp

lemma transaction_id_ex: "transaction_id (env_ex 0) = replicate 12 CHR ''A''"
  by code_simp

definition client_ready :: BaiduRtcClient where
  "client_ready = setAppID (Some ''app'') (snd (the (init world_ex createClient)))"

lemma client_ready_eq: "client_ready = createClient\<lparr>cl_mFRTCconn := Some FRTCConnection_construct, cl_mIsInitialized := True, cl_mAppId := Ptr ''app''\<rparr>"
  by (simp add: client_ready_def init_def setAppID_def createClient_def)

lemma client_ready_reach: "reach client_init (client_step js) client_ready"
proof -
  have "reach client_init (client_step js) (snd (the (init world_ex createClient)))"
    by (rule reach_step [OF reach_init [of client_init createClient]], simp add: client_init_def)
      (rule client_step.cl_init [of world_ex _ True], simp add: init_def createClient_def)
  then show ?thesis unfolding client_ready_def by (rule reach_step) (rule client_step.app, simp add: plain_lit)
qed

definition client_login :: BaiduRtcClient where
  "client_login = snd (the (loginRoom world_ex True ''room'' ''1'' ''me'' ''token'' client_ready))"

lemma client_login_eq: "loginRoom world_ex True ''room'' ''1'' ''me'' ''token'' client_ready = Some (True, client_login)"
  "cl_sessl client_login = []" "cl_mAutoPublish client_login" "cl_mPulisherHandleId client_login = 0"
  "\<exists>conn. cl_mFRTCconn client_login = Some conn \<and> mTx conn = [] \<and> mSDKTag conn = ''BRTC.RTOS.SDK V3.0.1'' \<and> mMediaServerIP conn = []
     \<and> mOriginURI conn = ''wss://rtc.exp.bcelive.com/janus'' \<and> mWSConnetion conn = Ptr () \<and> mSessionId conn = 0 \<and> mRoomId conn = 999 \<and> mUserId conn = ''1''"
proof -
  note defs = loginRoom_def client_ready_eq createClient_def deref_def login_settings_def connecting_def print_str_def g_rtc_connect_url_def lld_0
    DEFAULT_SIZE_def FRTCConnection_construct_def defaultSetting_def setDisplayName_def setHasVideo_def setTokenStr_def setUserId_def setRoomName_def
    setAsPublisher_def setAsListener_def setAutoSubscribe_def setMediaServerIP_def setHasData_def setHasAudio_def setVideoCodec_def setFeedId_def
    setCerPath_def setAppId_def setSDKTag_def Let_def
  obtain cl where "loginRoom world_ex True ''room'' ''1'' ''me'' ''token'' client_ready = Some (True, cl)"
    by (simp add: defs)
  then show "loginRoom world_ex True ''room'' ''1'' ''me'' ''token'' client_ready = Some (True, client_login)"
    by (simp add: client_login_def)
  show "cl_sessl client_login = []" "cl_mAutoPublish client_login" "cl_mPulisherHandleId client_login = 0"
    "\<exists>conn. cl_mFRTCconn client_login = Some conn \<and> mTx conn = [] \<and> mSDKTag conn = ''BRTC.RTOS.SDK V3.0.1'' \<and> mMediaServerIP conn = []
     \<and> mOriginURI conn = ''wss://rtc.exp.bcelive.com/janus'' \<and> mWSConnetion conn = Ptr () \<and> mSessionId conn = 0 \<and> mRoomId conn = 999 \<and> mUserId conn = ''1''"
    by (simp_all add: client_login_def defs)
qed

lemma client_login_reach: "reach client_init (client_step js) client_login"
proof -
  have "jint ''1''" unfolding jint_def by (intro exI [of _ "[]"] exI [of _ "''1''"]) (simp add: jdigits_def isdigit_def)
  then show ?thesis
    by (intro reach_step [OF client_ready_reach] client_step.login [OF _ client_login_eq(1)]) (simp add: world_ex_text plain_lit)
qed

definition client_open :: BaiduRtcClient where
  "client_open = the (websocket_event world_ex MG_EV_WS_OPEN client_login)"

definition conn_logged_in :: FRTCConnection where
  "conn_logged_in = the (cl_mFRTCconn client_open)"

lemma client_open_eq: "websocket_event world_ex MG_EV_WS_OPEN client_login = Some client_open" "cl_mFRTCconn client_open = Some conn_logged_in"
  "cl_sessl client_open = []" "cl_mAutoPublish client_open" "cl_mPulisherHandleId client_open = 0" "mRTCConnected conn_logged_in"
  "mWSConnetion conn_logged_in = Ptr ()" "mSessionId conn_logged_in = 0" "mRoomId conn_logged_in = 999" "mUserId conn_logged_in = ''1''"
proof -
  obtain conn where c: "cl_mFRTCconn client_login = Some conn" "mTx conn = []" "mSDKTag conn = ''BRTC.RTOS.SDK V3.0.1''" "mMediaServerIP conn = []"
    "mOriginURI conn = ''wss://rtc.exp.bcelive.com/janus''" "mWSConnetion conn = Ptr ()" "mSessionId conn = 0" "mRoomId conn = 999" "mUserId conn = ''1''"
    using client_login_eq(5) by blast
  have l: "length (g_rtc_create_session (replicate 12 CHR ''A'') ''BRTC.RTOS.SDK V3.0.1'' [] ''wss://rtc.exp.bcelive.com/janus'') < DEFAULT_SIZE"
    by (simp add: g_rtc_create_session_def DEFAULT_SIZE_def)
  note defs = websocket_event_def with_conn_def c RTCConnection_baidurtc_client_def onRTCOpen_def createSession_def transaction_id_ex print_str_Some [OF l]
    open_transaction_def sendMessage_def deref_def observe_def observer_def client_onRTCLoginOK_def notify_def
  obtain cl where "websocket_event world_ex MG_EV_WS_OPEN client_login = Some cl" by (simp add: defs)
  then show "websocket_event world_ex MG_EV_WS_OPEN client_login = Some client_open" by (simp add: client_open_def)
  show "cl_mFRTCconn client_open = Some conn_logged_in" "cl_sessl client_open = []" "cl_mAutoPublish client_open" "cl_mPulisherHandleId client_open = 0"
    "mRTCConnected conn_logged_in" "mWSConnetion conn_logged_in = Ptr ()" "mSessionId conn_logged_in = 0" "mRoomId conn_logged_in = 999" "mUserId conn_logged_in = ''1''"
    by (simp_all add: conn_logged_in_def client_open_def defs client_login_eq(2-4))
qed

lemma client_open_reach: "reach client_init (client_step js) client_open"
  by (rule reach_step [OF client_login_reach], rule client_step.ws [OF _ client_open_eq(1)]) (simp add: world_ex_text)

lemma lld_999: "lld 999 = ''999''"
proof -
  have "digit_char 9 = CHR ''9''" by code_simp
  then show ?thesis by (simp add: lld_def dec.simps [of 999] dec.simps [of 99] dec.simps [of 9])
qed

text \<open>A quote in a message ends the string it is printed into: the request is sent, and is not JSON.\<close>

lemma unescaped_message_not_json:
  "\<exists>cl conn m. reach client_init (client_step False) cl \<and> cl_mFRTCconn cl = Some conn \<and> m \<in> set (mTx conn)
     \<and> JSON_Validate (Some (chars m)) (length m) \<noteq> JSONSuccess"
proof -
  let ?m = "g_rtc_sendmsg_cmd (replicate 12 CHR ''A'') ''999'' (lld (atoll ''1'')) (lld (atoll ''2'')) [CHR 0x22] ''false'' ''0''"
  let ?conn = "conn_logged_in\<lparr>mTx := mTx conn_logged_in @ [?m]\<rparr>"
  have l: "length ?m < DEFAULT_SIZE" by code_simp
  have "client_sendMessageToUser world_ex [CHR 0x22] ''2'' client_open = Some (client_open\<lparr>cl_mFRTCconn := Some ?conn\<rparr>)"
    using print_str_Some [OF l]
    by (simp add: client_sendMessageToUser_def with_conn_def sendMessageToUser_def client_open_eq transaction_id_ex lld_999 lld_0
        bool_str_def sendMessage_def deref_def)
  then have "client_step False client_open (client_open\<lparr>cl_mFRTCconn := Some ?conn\<rparr>)" by (rule client_step.message [rotated]) simp
  then have "reach client_init (client_step False) (client_open\<lparr>cl_mFRTCconn := Some ?conn\<rparr>)" by (rule reach_step [OF client_open_reach])
  moreover have "JSON_Validate (Some (chars ?m)) (length ?m) \<noteq> JSONSuccess" by code_simp
  ultimately show ?thesis by (intro exI [of _ "client_open\<lparr>cl_mFRTCconn := Some ?conn\<rparr>"] exI [of _ ?conn] exI [of _ ?m]) simp
qed

lemma requests_ex: "length (offer_request world_ex 0 conn_logged_in) < DEFAULT_SIZE * 8" "length (answer_request world_ex 0 conn_logged_in) < DEFAULT_SIZE * 4"
  by (simp_all add: offer_request_def answer_request_def local_sdp_ex transaction_id_ex lld_0 lld_999 client_open_eq(8,9) g_rtc_offer_sdp_def
      g_rtc_answer_sdp_def bool_str_def DEFAULT_SIZE_def)

theorem client_requests_json_witness:
  "\<exists>cl. publishOwnFeed world_ex client_open = Some cl \<and> reach client_init (client_step True) cl
     \<and> JSON_Validate (Some (chars (offer_request world_ex 0 conn_logged_in))) (length (offer_request world_ex 0 conn_logged_in)) = JSONSuccess"
proof -
  obtain pc where p: "publishOwnFeed world_ex client_open = Some (client_open\<lparr>cl_sessl := [\<lparr>cs_pc = Some pc, cs_handle_id = 0\<rparr>],
      cl_mFRTCconn := Some (conn_logged_in\<lparr>mTx := mTx conn_logged_in @ [offer_request world_ex 0 conn_logged_in]\<rparr>)\<rparr>)" (is "_ = Some ?cl")
    using publish_up [OF world_ex_up client_open_eq(2,6,7)] requests_ex(1) by (auto simp: client_open_eq)
  have r: "reach client_init (client_step True) ?cl"
    by (rule reach_step [OF client_open_reach], rule client_step.publish [of _ world_ex]) (simp_all add: world_ex_text startPublish_def p)
  then show ?thesis using p client_requests_json [OF r] by simp
qed

lemma descr_ex: "session_description_decode world_ex ''answer'' = Inr (SDP_ANSWER, ''v=0'')" "session_description_decode world_ex ''offer'' = Inr (SDP_OFFER, ''v=0'')"
  by code_simp+

theorem client_publish_witness:
  "\<exists>cl1 cl2 s2. observer world_ex (onPublisherJoined 0) client_open = Some cl1 \<and> observer world_ex (onPublisherRemoteJsep 0 ''answer'') cl1 = Some cl2
     \<and> cl_sessl cl2 = [s2] \<and> session_state s2 = SS_STABLE"
proof -
  have "client_session_lookup (cl_sessl client_open) 0 = None" by (simp add: client_open_eq)
  from client_publish [OF world_ex_up client_open_eq(2,6,7,4) this requests_ex(1) descr_ex(1)]
  show ?thesis unfolding client_open_eq(3) append_Nil by blast
qed

theorem client_subscribe_witness:
  "\<exists>cl' s. observer world_ex (subscriberHandleRemoteJsep 0 ''offer'') client_open = Some cl' \<and> cl_sessl cl' = [s] \<and> session_state s = SS_STABLE"
  using client_subscribe [OF world_ex_up client_open_eq(2,6,7) requests_ex(2) descr_ex(2)] unfolding client_open_eq(3) append_Nil by blast

section \<open>Defects\<close>

text \<open>
  The table of handlers has no entry for NACKs of a listener: the report of the server calls a null
  pointer. A feed whose offer cannot be made crashes the client, which reads the missing buffer. And
  so does freeing a client that was not initialised.
\<close>

lemma destroy_fresh_crashes: "destoryClient createClient = None"
  by (simp add: destoryClient_def createClient_def)

lemma listener_nacks_crash: "observer W (onListenerNACKs n) cl = None"
  by (simp add: observer_def)

lemma failed_offer_crashes:
  assumes "w_sdp W = Inl e"
  shows "publishOwnFeed W cl = None"
proof -
  have "fst (session_offer W s) = None" for s
    using assms by (auto simp: session_offer_def split: option.splits prod.splits)
  then have c: "client_session_create_offer W s conn = None" for s conn
    by (simp add: client_session_create_offer_def case_prod_beta)
  show ?thesis by (auto simp: publishOwnFeed_def c bind_eq_None_conv split: prod.splits)
qed

end
