(* ===== verification/Crc32.thy ===== *)
theory Crc32
  imports Prelude
begin

text \<open>
  The checksum of \<^verbatim>\<open>re/src/crc32/crc32.c\<close>, used for the fingerprint of STUN messages: the
  table-driven routine, and that it is the bitwise division by the reflected CRC-32 polynomial.
\<close>

section \<open>The code\<close>

definition crc32_tab :: "u32 list" where
  "crc32_tab =
    [0x00000000, 0x77073096, 0xee0e612c, 0x990951ba, 0x076dc419, 0x706af48f, 0xe963a535, 0x9e6495a3,
     0x0edb8832, 0x79dcb8a4, 0xe0d5e91e, 0x97d2d988, 0x09b64c2b, 0x7eb17cbd, 0xe7b82d07, 0x90bf1d91,
     0x1db71064, 0x6ab020f2, 0xf3b97148, 0x84be41de, 0x1adad47d, 0x6ddde4eb, 0xf4d4b551, 0x83d385c7,
     0x136c9856, 0x646ba8c0, 0xfd62f97a, 0x8a65c9ec, 0x14015c4f, 0x63066cd9, 0xfa0f3d63, 0x8d080df5,
     0x3b6e20c8, 0x4c69105e, 0xd56041e4, 0xa2677172, 0x3c03e4d1, 0x4b04d447, 0xd20d85fd, 0xa50ab56b,
     0x35b5a8fa, 0x42b2986c, 0xdbbbc9d6, 0xacbcf940, 0x32d86ce3, 0x45df5c75, 0xdcd60dcf, 0xabd13d59,
     0x26d930ac, 0x51de003a, 0xc8d75180, 0xbfd06116, 0x21b4f4b5, 0x56b3c423, 0xcfba9599, 0xb8bda50f,
     0x2802b89e, 0x5f058808, 0xc60cd9b2, 0xb10be924, 0x2f6f7c87, 0x58684c11, 0xc1611dab, 0xb6662d3d,
     0x76dc4190, 0x01db7106, 0x98d220bc, 0xefd5102a, 0x71b18589, 0x06b6b51f, 0x9fbfe4a5, 0xe8b8d433,
     0x7807c9a2, 0x0f00f934, 0x9609a88e, 0xe10e9818, 0x7f6a0dbb, 0x086d3d2d, 0x91646c97, 0xe6635c01,
     0x6b6b51f4, 0x1c6c6162, 0x856530d8, 0xf262004e, 0x6c0695ed, 0x1b01a57b, 0x8208f4c1, 0xf50fc457,
     0x65b0d9c6, 0x12b7e950, 0x8bbeb8ea, 0xfcb9887c, 0x62dd1ddf, 0x15da2d49, 0x8cd37cf3, 0xfbd44c65,
     0x4db26158, 0x3ab551ce, 0xa3bc0074, 0xd4bb30e2, 0x4adfa541, 0x3dd895d7, 0xa4d1c46d, 0xd3d6f4fb,
     0x4369e96a, 0x346ed9fc, 0xad678846, 0xda60b8d0, 0x44042d73, 0x33031de5, 0xaa0a4c5f, 0xdd0d7cc9,
     0x5005713c, 0x270241aa, 0xbe0b1010, 0xc90c2086, 0x5768b525, 0x206f85b3, 0xb966d409, 0xce61e49f,
     0x5edef90e, 0x29d9c998, 0xb0d09822, 0xc7d7a8b4, 0x59b33d17, 0x2eb40d81, 0xb7bd5c3b, 0xc0ba6cad,
     0xedb88320, 0x9abfb3b6, 0x03b6e20c, 0x74b1d29a, 0xead54739, 0x9dd277af, 0x04db2615, 0x73dc1683,
     0xe3630b12, 0x94643b84, 0x0d6d6a3e, 0x7a6a5aa8, 0xe40ecf0b, 0x9309ff9d, 0x0a00ae27, 0x7d079eb1,
     0xf00f9344, 0x8708a3d2, 0x1e01f268, 0x6906c2fe, 0xf762575d, 0x806567cb, 0x196c3671, 0x6e6b06e7,
     0xfed41b76, 0x89d32be0, 0x10da7a5a, 0x67dd4acc, 0xf9b9df6f, 0x8ebeeff9, 0x17b7be43, 0x60b08ed5,
     0xd6d6a3e8, 0xa1d1937e, 0x38d8c2c4, 0x4fdff252, 0xd1bb67f1, 0xa6bc5767, 0x3fb506dd, 0x48b2364b,
     0xd80d2bda, 0xaf0a1b4c, 0x36034af6, 0x41047a60, 0xdf60efc3, 0xa867df55, 0x316e8eef, 0x4669be79,
     0xcb61b38c, 0xbc66831a, 0x256fd2a0, 0x5268e236, 0xcc0c7795, 0xbb0b4703, 0x220216b9, 0x5505262f,
     0xc5ba3bbe, 0xb2bd0b28, 0x2bb45a92, 0x5cb36a04, 0xc2d7ffa7, 0xb5d0cf31, 0x2cd99e8b, 0x5bdeae1d,
     0x9b64c2b0, 0xec63f226, 0x756aa39c, 0x026d930a, 0x9c0906a9, 0xeb0e363f, 0x72076785, 0x05005713,
     0x95bf4a82, 0xe2b87a14, 0x7bb12bae, 0x0cb61b38, 0x92d28e9b, 0xe5d5be0d, 0x7cdcefb7, 0x0bdbdf21,
     0x86d3d2d4, 0xf1d4e242, 0x68ddb3f8, 0x1fda836e, 0x81be16cd, 0xf6b9265b, 0x6fb077e1, 0x18b74777,
     0x88085ae6, 0xff0f6a70, 0x66063bca, 0x11010b5c, 0x8f659eff, 0xf862ae69, 0x616bffd3, 0x166ccf45,
     0xa00ae278, 0xd70dd2ee, 0x4e048354, 0x3903b3c2, 0xa7672661, 0xd06016f7, 0x4969474d, 0x3e6e77db,
     0xaed16a4a, 0xd9d65adc, 0x40df0b66, 0x37d83bf0, 0xa9bcae53, 0xdebb9ec5, 0x47b2cf7f, 0x30b5ffe9,
     0xbdbdf21c, 0xcabac28a, 0x53b39330, 0x24b4a3a6, 0xbad03605, 0xcdd70693, 0x54de5729, 0x23d967bf,
     0xb3667a2e, 0xc4614ab8, 0x5d681b02, 0x2a6f2b94, 0xb40bbe37, 0xc30c8ea1, 0x5a05df1b, 0x2d02ef8d]"

fun crc32_loop :: "u32 \<Rightarrow> byte list \<Rightarrow> u32" where
  "crc32_loop crc [] = crc"
| "crc32_loop crc (p # ps) =
     crc32_loop ((crc32_tab ! unat ((crc XOR ucast p) AND 0xff)) XOR drop_bit 8 crc) ps"

definition crc32 :: "u32 \<Rightarrow> byte list \<Rightarrow> u32" where
  "crc32 crc buf = crc32_loop (NOT crc) buf XOR NOT 0"

section \<open>Reference definition\<close>

text \<open>One step of the division: shift out a bit and, when it was set, subtract the polynomial.\<close>

definition crc_bit :: "u32 \<Rightarrow> u32" where
  "crc_bit r = (if bit r 0 then drop_bit 1 r XOR 0xedb88320 else drop_bit 1 r)"

definition crc_byte :: "u32 \<Rightarrow> byte \<Rightarrow> u32" where
  "crc_byte r p = (crc_bit ^^ 8) (r XOR ucast p)"

definition crc32_ref :: "byte list \<Rightarrow> u32" where
  "crc32_ref buf = NOT (foldl crc_byte (NOT 0) buf)"

section \<open>The table\<close>

lemma crc_bit_xor: "crc_bit (a XOR b) = crc_bit a XOR crc_bit b"
  by (auto simp: crc_bit_def bit_simps drop_bit_xor ac_simps simp del: bit_0)

lemma crc_bits_xor: "(crc_bit ^^ n) (a XOR b) = (crc_bit ^^ n) a XOR (crc_bit ^^ n) b"
  by (induction n) (simp_all add: crc_bit_xor)

lemma crc_bits_high: "(\<And>k. k < n \<Longrightarrow> \<not> bit a k) \<Longrightarrow> (crc_bit ^^ n) a = drop_bit n a"
proof (induction n)
  case (Suc n)
  have "\<not> bit (drop_bit n a) 0" using Suc.prems [of n] by (simp add: bit_simps del: bit_0)
  with Suc show ?case by (simp add: crc_bit_def drop_bit_drop_bit del: bit_0)
qed simp

lemma crc32_tab_length: "length crc32_tab = 256"
  by (simp add: crc32_tab_def)

text \<open>
  The remainder is linear, so the table is determined by its entries at the powers of two: each
  doubles the part before it.
\<close>

definition tab_upto :: "nat \<Rightarrow> u32 list \<Rightarrow> bool" where
  "tab_upto k t \<longleftrightarrow> length t = 2 ^ k \<and> (\<forall>i < 2 ^ k. t ! i = (crc_bit ^^ 8) (of_nat i))"

definition double_tab :: "u32 \<Rightarrow> u32 list \<Rightarrow> u32 list" where
  "double_tab b t = t @ map (\<lambda>x. x XOR b) t"

lemma tab_upto_0: "tab_upto 0 [0]"
proof -
  have "(crc_bit ^^ 8) 0 = 0" by (rule crc_bits_high [of 8 0, simplified])
  then show ?thesis by (simp add: tab_upto_def)
qed

lemma of_nat_add_exp:
  assumes "j < 2 ^ k" "k < 32"
  shows "(of_nat (j + 2 ^ k) :: u32) = of_nat j XOR 2 ^ k"
proof -
  have "\<not> bit j n" if "k \<le> n" for n
    using that assms(1) by (metis bit_take_bit_iff leD take_bit_nat_eq_self)
  then have "(of_nat j :: u32) AND 2 ^ k = 0" by (intro bit_word_eqI) (auto simp: bit_simps)
  then show ?thesis by (simp add: disjunctive_add_eq_xor)
qed

lemma tab_upto_double:
  assumes "tab_upto k t" "k < 32" "(crc_bit ^^ 8) (2 ^ k) = b"
  shows "tab_upto (Suc k) (double_tab b t)"
proof -
  have "double_tab b t ! i = (crc_bit ^^ 8) (of_nat i)" if "i < 2 ^ Suc k" for i
  proof (cases "i < 2 ^ k")
    case True
    then show ?thesis using assms(1) by (simp add: double_tab_def tab_upto_def nth_append)
  next
    case False
    define j where "j = i - 2 ^ k"
    have j: "i = j + 2 ^ k" "j < 2 ^ k" using that False by (simp_all add: j_def)
    then have "double_tab b t ! i = (t ! j) XOR b" using assms(1) by (simp add: double_tab_def tab_upto_def nth_append)
    also have "\<dots> = (crc_bit ^^ 8) (of_nat j XOR 2 ^ k)" using assms(1,3) j(2) by (simp add: tab_upto_def crc_bits_xor)
    finally show ?thesis using of_nat_add_exp [OF j(2) assms(2)] j(1) by simp
  qed
  then show ?thesis using assms(1) by (simp add: tab_upto_def double_tab_def)
qed

lemma crc32_tab_double: "crc32_tab = double_tab 0xedb88320 (double_tab 0x76dc4190 (double_tab 0x3b6e20c8 (double_tab 0x1db71064
    (double_tab 0x0edb8832 (double_tab 0x076dc419 (double_tab 0xee0e612c (double_tab 0x77073096 [0])))))))"
  by (simp add: crc32_tab_def double_tab_def)

lemma crc_powers:
  "(crc_bit ^^ 8) (2 ^ 0) = 0x77073096" "(crc_bit ^^ 8) (2 ^ 1) = 0xee0e612c" "(crc_bit ^^ 8) (2 ^ 2) = 0x076dc419"
  "(crc_bit ^^ 8) (2 ^ 3) = 0x0edb8832" "(crc_bit ^^ 8) (2 ^ 4) = 0x1db71064" "(crc_bit ^^ 8) (2 ^ 5) = 0x3b6e20c8"
  "(crc_bit ^^ 8) (2 ^ 6) = 0x76dc4190" "(crc_bit ^^ 8) (2 ^ 7) = 0xedb88320"
  by code_simp+

lemma crc32_tab_ref: "i < 256 \<Longrightarrow> crc32_tab ! i = (crc_bit ^^ 8) (of_nat i)"
proof -
  note d = tab_upto_double [OF _ _ crc_powers(1)] tab_upto_double [OF _ _ crc_powers(2)] tab_upto_double [OF _ _ crc_powers(3)]
    tab_upto_double [OF _ _ crc_powers(4)] tab_upto_double [OF _ _ crc_powers(5)] tab_upto_double [OF _ _ crc_powers(6)]
    tab_upto_double [OF _ _ crc_powers(7)] tab_upto_double [OF _ _ crc_powers(8)]
  have "tab_upto 1 (double_tab 0x77073096 [0])" using d(1) [OF tab_upto_0] by simp
  from d(2) [OF this] have "tab_upto 2 (double_tab 0xee0e612c (double_tab 0x77073096 [0]))" by (simp add: numeral_2_eq_2)
  from d(3) [OF this] have "tab_upto 3 (double_tab 0x076dc419 (double_tab 0xee0e612c (double_tab 0x77073096 [0])))" by (simp add: numeral_3_eq_3)
  from d(8) [OF d(7) [OF d(6) [OF d(5) [OF d(4) [OF this, simplified], simplified], simplified], simplified]]
  have "tab_upto 8 crc32_tab" unfolding crc32_tab_double by simp
  then show "i < 256 \<Longrightarrow> ?thesis" by (simp add: tab_upto_def)
qed

lemma crc_byte_tab: "(crc32_tab ! unat ((r XOR ucast p) AND 0xff)) XOR drop_bit 8 r = crc_byte r p"
proof -
  let ?x = "r XOR ucast p" and ?m = "mask 8 :: u32"
  have m: "(0xff :: u32) = ?m" by (simp add: mask_eq_exp_minus_1)
  have split: "?x = (?x AND ?m) XOR (?x AND NOT ?m)" by (rule bit_word_eqI) (auto simp: bit_simps)
  have "unat (?x AND ?m) < 256" using and_mask_less' [of 8 ?x] unat_mono [of "?x AND ?m" "2 ^ 8"] by simp
  then have low: "crc32_tab ! unat (?x AND ?m) = (crc_bit ^^ 8) (?x AND ?m)" by (simp add: crc32_tab_ref)
  have "(crc_bit ^^ 8) (?x AND NOT ?m) = drop_bit 8 (?x AND NOT ?m)" by (rule crc_bits_high) (simp add: bit_simps)
  also have "\<dots> = drop_bit 8 r" by (rule bit_word_eqI) (auto simp: bit_simps dest: bit_imp_le_length)
  finally have "(crc_bit ^^ 8) ?x = (crc32_tab ! unat (?x AND ?m)) XOR drop_bit 8 r"
    using low crc_bits_xor [of 8 "?x AND ?m" "?x AND NOT ?m"] split by simp
  then show ?thesis by (simp add: crc_byte_def m)
qed

lemma crc32_loop_ref: "crc32_loop r buf = foldl crc_byte r buf"
  by (induction buf arbitrary: r) (simp_all add: crc_byte_tab)

text \<open>
  C39. The table-driven checksum of a buffer is the remainder of the bitwise division by the CRC-32
  polynomial, complemented; and a buffer may be checked in parts, each started with the checksum of
  what came before.
\<close>

theorem crc32_bitwise: "crc32 0 buf = crc32_ref buf \<and> crc32 (crc32 0 buf) buf' = crc32 0 (buf @ buf')"
proof -
  have n: "x XOR NOT 0 = NOT x" for x :: u32 by (rule bit_word_eqI) (simp add: bit_simps)
  show ?thesis unfolding crc32_def crc32_loop_ref crc32_ref_def n by simp
qed

end
