(* ===== verification/Stun.thy ===== *)
theory Stun
  imports Rtp Crc32
begin

text \<open>
  The STUN codec of \<^verbatim>\<open>re/src/stun\<close>: message types (\<^verbatim>\<open>stun.h\<close>), headers (\<^verbatim>\<open>hdr.c\<close>), addresses
  (\<^verbatim>\<open>addr.c\<close>), attributes (\<^verbatim>\<open>attr.c\<close>) and messages with their integrity and fingerprint (\<^verbatim>\<open>msg.c\<close>).
  HMAC-SHA1 comes from the TLS library and is a parameter.

  \<^const>\<open>None\<close> as a result stands for undefined behaviour: a value that does not have the type of its
  attribute, or a read outside the buffer.
\<close>

section \<open>Types\<close>

definition STUN_MAGIC_COOKIE :: u32 where "STUN_MAGIC_COOKIE = 0x2112a442"
definition STUN_HEADER_SIZE :: nat where "STUN_HEADER_SIZE = 20"
definition STUN_TID_SIZE :: nat where "STUN_TID_SIZE = 12"
definition MI_SIZE :: nat where "MI_SIZE = 24"
definition FP_SIZE :: nat where "FP_SIZE = 8"

definition STUN_TYPE :: "u16 \<Rightarrow> byte \<Rightarrow> u16" where
  "STUN_TYPE method cls =
     push_bit 2 (method AND 0x0f80) OR push_bit 1 (method AND 0x0070) OR (method AND 0x000f)
     OR push_bit 7 (ucast cls AND 0x2) OR push_bit 4 (ucast cls AND 0x1)"

definition STUN_CLASS :: "u16 \<Rightarrow> u16" where
  "STUN_CLASS type = (drop_bit 7 type OR drop_bit 4 type) AND 0x3"

definition STUN_METHOD :: "u16 \<Rightarrow> u16" where
  "STUN_METHOD type = drop_bit 2 (type AND 0x3e00) OR drop_bit 1 (type AND 0x00e0) OR (type AND 0x000f)"

record stun_hdr =
  sh_type :: u16
  sh_len :: u16
  sh_cookie :: u32
  sh_tid :: "byte list"

text \<open>Socket addresses: IPv4, IPv6, or another family.\<close>

datatype sa = Sa_in u32 u16 | Sa_in6 "byte list" u16 | Sa_other u16

definition sa_port :: "sa \<Rightarrow> u16" where
  "sa_port a = (case a of Sa_in i p \<Rightarrow> p | Sa_in6 i p \<Rightarrow> p | Sa_other p \<Rightarrow> p)"

text \<open>
  The value of an attribute. A string carries its terminating zero. \<open>V_self\<close> is a buffer value that
  is the very buffer the message is encoded into.
\<close>

datatype stun_val =
    V_sa sa
  | V_change_req bool bool
  | V_str "byte list"
  | V_msg_integrity "byte list"
  | V_err_code u16 "byte list"
  | V_unknown_attr "u16 list"
  | V_uint16 u16
  | V_uint32 u32
  | V_mb mbuf
  | V_self
  | V_uint8 byte
  | V_even_port bool
  | V_none
  | V_uint64 u64

record stun_attr =
  sa_type :: u16
  sa_v :: stun_val

subsection \<open>Attribute types\<close>

definition STUN_ATTR_MAPPED_ADDR :: u16 where "STUN_ATTR_MAPPED_ADDR = 0x0001"
definition STUN_ATTR_CHANGE_REQ :: u16 where "STUN_ATTR_CHANGE_REQ = 0x0003"
definition STUN_ATTR_USERNAME :: u16 where "STUN_ATTR_USERNAME = 0x0006"
definition STUN_ATTR_MSG_INTEGRITY :: u16 where "STUN_ATTR_MSG_INTEGRITY = 0x0008"
definition STUN_ATTR_ERR_CODE :: u16 where "STUN_ATTR_ERR_CODE = 0x0009"
definition STUN_ATTR_UNKNOWN_ATTR :: u16 where "STUN_ATTR_UNKNOWN_ATTR = 0x000a"
definition STUN_ATTR_CHANNEL_NUMBER :: u16 where "STUN_ATTR_CHANNEL_NUMBER = 0x000c"
definition STUN_ATTR_LIFETIME :: u16 where "STUN_ATTR_LIFETIME = 0x000d"
definition STUN_ATTR_XOR_PEER_ADDR :: u16 where "STUN_ATTR_XOR_PEER_ADDR = 0x0012"
definition STUN_ATTR_DATA :: u16 where "STUN_ATTR_DATA = 0x0013"
definition STUN_ATTR_REALM :: u16 where "STUN_ATTR_REALM = 0x0014"
definition STUN_ATTR_NONCE :: u16 where "STUN_ATTR_NONCE = 0x0015"
definition STUN_ATTR_XOR_RELAY_ADDR :: u16 where "STUN_ATTR_XOR_RELAY_ADDR = 0x0016"
definition STUN_ATTR_REQ_ADDR_FAMILY :: u16 where "STUN_ATTR_REQ_ADDR_FAMILY = 0x0017"
definition STUN_ATTR_EVEN_PORT :: u16 where "STUN_ATTR_EVEN_PORT = 0x0018"
definition STUN_ATTR_REQ_TRANSPORT :: u16 where "STUN_ATTR_REQ_TRANSPORT = 0x0019"
definition STUN_ATTR_DONT_FRAGMENT :: u16 where "STUN_ATTR_DONT_FRAGMENT = 0x001a"
definition STUN_ATTR_XOR_MAPPED_ADDR :: u16 where "STUN_ATTR_XOR_MAPPED_ADDR = 0x0020"
definition STUN_ATTR_RSV_TOKEN :: u16 where "STUN_ATTR_RSV_TOKEN = 0x0022"
definition STUN_ATTR_PRIORITY :: u16 where "STUN_ATTR_PRIORITY = 0x0024"
definition STUN_ATTR_USE_CAND :: u16 where "STUN_ATTR_USE_CAND = 0x0025"
definition STUN_ATTR_PADDING :: u16 where "STUN_ATTR_PADDING = 0x0026"
definition STUN_ATTR_RESP_PORT :: u16 where "STUN_ATTR_RESP_PORT = 0x0027"
definition STUN_ATTR_SOFTWARE :: u16 where "STUN_ATTR_SOFTWARE = 0x8022"
definition STUN_ATTR_ALT_SERVER :: u16 where "STUN_ATTR_ALT_SERVER = 0x8023"
definition STUN_ATTR_FINGERPRINT :: u16 where "STUN_ATTR_FINGERPRINT = 0x8028"
definition STUN_ATTR_CONTROLLED :: u16 where "STUN_ATTR_CONTROLLED = 0x8029"
definition STUN_ATTR_CONTROLLING :: u16 where "STUN_ATTR_CONTROLLING = 0x802a"
definition STUN_ATTR_RESP_ORIGIN :: u16 where "STUN_ATTR_RESP_ORIGIN = 0x802b"
definition STUN_ATTR_OTHER_ADDR :: u16 where "STUN_ATTR_OTHER_ADDR = 0x802c"

text \<open>The cases that the encoder and the decoder distinguish.\<close>

datatype attr_kind = K_addr | K_xor_addr | K_change_req | K_str | K_integrity | K_err_code | K_unknown_attr | K_uint16 | K_uint32 | K_buf
  | K_uint8 | K_even_port | K_flag | K_uint64 | K_default

definition attr_kind :: "u16 \<Rightarrow> attr_kind" where
  "attr_kind type =
     (if type \<in> {STUN_ATTR_MAPPED_ADDR, STUN_ATTR_ALT_SERVER, STUN_ATTR_RESP_ORIGIN, STUN_ATTR_OTHER_ADDR} then K_addr
      else if type \<in> {STUN_ATTR_XOR_PEER_ADDR, STUN_ATTR_XOR_RELAY_ADDR, STUN_ATTR_XOR_MAPPED_ADDR} then K_xor_addr
      else if type = STUN_ATTR_CHANGE_REQ then K_change_req
      else if type \<in> {STUN_ATTR_USERNAME, STUN_ATTR_REALM, STUN_ATTR_NONCE, STUN_ATTR_SOFTWARE} then K_str
      else if type = STUN_ATTR_MSG_INTEGRITY then K_integrity
      else if type = STUN_ATTR_ERR_CODE then K_err_code
      else if type = STUN_ATTR_UNKNOWN_ATTR then K_unknown_attr
      else if type \<in> {STUN_ATTR_CHANNEL_NUMBER, STUN_ATTR_RESP_PORT} then K_uint16
      else if type \<in> {STUN_ATTR_LIFETIME, STUN_ATTR_PRIORITY, STUN_ATTR_FINGERPRINT} then K_uint32
      else if type \<in> {STUN_ATTR_DATA, STUN_ATTR_PADDING} then K_buf
      else if type \<in> {STUN_ATTR_REQ_ADDR_FAMILY, STUN_ATTR_REQ_TRANSPORT} then K_uint8
      else if type = STUN_ATTR_EVEN_PORT then K_even_port
      else if type \<in> {STUN_ATTR_DONT_FRAGMENT, STUN_ATTR_USE_CAND} then K_flag
      else if type \<in> {STUN_ATTR_RSV_TOKEN, STUN_ATTR_CONTROLLED, STUN_ATTR_CONTROLLING} then K_uint64
      else K_default)"

section \<open>Headers\<close>

definition stun_hdr_encode :: "allocator \<Rightarrow> mbuf \<Rightarrow> stun_hdr \<Rightarrow> err \<times> mbuf" where
  "stun_hdr_encode al mb hdr =
     (let r = mbuf_write_u16 al mb (htons (sh_type hdr AND 0x3fff));
          r = or_then r (\<lambda>mb. mbuf_write_u16 al mb (htons (sh_len hdr)));
          r = or_then r (\<lambda>mb. mbuf_write_u32 al mb (htonl (sh_cookie hdr)))
      in or_then r (\<lambda>mb. mbuf_write_mem al mb (sh_tid hdr)))"

text \<open>The decoder fills the header it is given; after an error the rest keeps its old value.\<close>

definition stun_hdr_decode :: "stun_hdr \<Rightarrow> mbuf \<Rightarrow> err \<times> stun_hdr \<times> mbuf" where
  "stun_hdr_decode hdr mb =
     (if mbuf_get_left mb < STUN_HEADER_SIZE then (EBADMSG, hdr, mb)
      else
        let (t, mb) = mbuf_read_u16 mb; hdr = hdr\<lparr>sh_type := ntohs t\<rparr>
        in if sh_type hdr AND 0xc000 \<noteq> 0 then (EBADMSG, hdr, mb)
        else
          let (l, mb) = mbuf_read_u16 mb; hdr = hdr\<lparr>sh_len := ntohs l\<rparr>
          in if sh_len hdr AND 0x3 \<noteq> 0 then (EBADMSG, hdr, mb)
          else
            let (c, mb) = mbuf_read_u32 mb;
                (e, tid, mb) = mbuf_read_mem mb STUN_TID_SIZE;
                hdr = hdr\<lparr>sh_cookie := ntohl c, sh_tid := tid\<rparr>
            in if mbuf_get_left mb < unat (sh_len hdr) then (EBADMSG, hdr, mb) else (OK, hdr, mb))"

section \<open>Addresses\<close>

definition in6_xor_tid :: "byte list \<Rightarrow> byte list \<Rightarrow> byte list" where
  "in6_xor_tid in6 tid = map2 (\<lambda>a b. a XOR b) in6 ([0x21, 0x12, 0xa4, 0x42] @ tid)"

text \<open>A transaction identifier is given when the address is to be obfuscated.\<close>

definition xor_port :: "byte list option \<Rightarrow> u16 \<Rightarrow> u16" where
  "xor_port tid port = (if tid = None then port else port XOR ucast (drop_bit 16 STUN_MAGIC_COOKIE))"

definition xor_addr4 :: "byte list option \<Rightarrow> u32 \<Rightarrow> u32" where
  "xor_addr4 tid addr4 = (if tid = None then addr4 else addr4 XOR STUN_MAGIC_COOKIE)"

definition xor_addr6 :: "byte list option \<Rightarrow> byte list \<Rightarrow> byte list" where
  "xor_addr6 tid addr6 = (case tid of None \<Rightarrow> addr6 | Some t \<Rightarrow> in6_xor_tid addr6 t)"

definition stun_addr_encode :: "allocator \<Rightarrow> mbuf \<Rightarrow> sa \<Rightarrow> byte list option \<Rightarrow> err \<times> mbuf" where
  "stun_addr_encode al mb addr tid =
     (let port = xor_port tid (sa_port addr) in
      case addr of
        Sa_in addr4 p \<Rightarrow>
          or_put (mbuf_write_mem al) mb [[0], [1], le16 (htons port), le32 (htonl (xor_addr4 tid addr4))]
      | Sa_in6 addr6 p \<Rightarrow>
          or_put (mbuf_write_mem al) mb [[0], [2], le16 (htons port), xor_addr6 tid addr6]
      | Sa_other p \<Rightarrow> (EAFNOSUPPORT, mb))"

definition stun_addr_decode :: "mbuf \<Rightarrow> byte list option \<Rightarrow> err \<times> stun_val \<times> mbuf" where
  "stun_addr_decode mb tid =
     (if mbuf_get_left mb < 4 then (EBADMSG, V_none, mb)
      else
        let (z, mb) = mbuf_read_u8 mb; (family, mb) = mbuf_read_u8 mb; (p, mb) = mbuf_read_u16 mb;
            port = xor_port tid (ntohs p)
        in if family = 1 then
             if mbuf_get_left mb < 4 then (EBADMSG, V_none, mb)
             else let (a, mb) = mbuf_read_u32 mb in (OK, V_sa (Sa_in (xor_addr4 tid (ntohl a)) port), mb)
           else if family = 2 then
             if mbuf_get_left mb < 16 then (EBADMSG, V_none, mb)
             else let (e, a, mb) = mbuf_read_mem mb 16 in (OK, V_sa (Sa_in6 (xor_addr6 tid a) port), mb)
           else (EAFNOSUPPORT, V_none, mb))"

section \<open>Attributes\<close>

definition sys_htonll :: "u64 \<Rightarrow> u64" where
  "sys_htonll v = of_le64 (rev (le64 v))"

definition c_str :: "byte list \<Rightarrow> byte list" where
  "c_str s = takeWhile (\<lambda>b. b \<noteq> 0) s"

definition mbuf_write_str :: "allocator \<Rightarrow> mbuf \<Rightarrow> byte list \<Rightarrow> err \<times> mbuf" where
  "mbuf_write_str al mb s = mbuf_write_mem al mb (c_str s)"

definition attr_value_encode :: "allocator \<Rightarrow> mbuf \<Rightarrow> attr_kind \<Rightarrow> stun_val \<Rightarrow> byte list option \<Rightarrow> (err \<times> mbuf) option" where
  "attr_value_encode al mb kind v tid =
     (case (kind, v) of
        (K_addr, V_sa a) \<Rightarrow> Some (stun_addr_encode al mb a None)
      | (K_xor_addr, V_sa a) \<Rightarrow> Some (stun_addr_encode al mb a tid)
      | (K_change_req, V_change_req ip port) \<Rightarrow>
          Some (mbuf_write_u32 al mb (htonl (push_bit 2 (of_bool ip) OR push_bit 1 (of_bool port))))
      | (K_str, V_str s) \<Rightarrow> Some (mbuf_write_str al mb s)
      | (K_integrity, V_msg_integrity m) \<Rightarrow> Some (mbuf_write_mem al mb m)
      | (K_err_code, V_err_code code reason) \<Rightarrow>
          Some (let r = mbuf_write_u16 al mb 0;
                    r = or_then r (\<lambda>mb. mbuf_write_u8 al mb (ucast (code div 100)));
                    r = or_then r (\<lambda>mb. mbuf_write_u8 al mb (ucast (code mod 100)))
                in or_then r (\<lambda>mb. mbuf_write_str al mb reason))
      | (K_unknown_attr, V_unknown_attr ts) \<Rightarrow> Some (or_put (mbuf_write_mem al) mb (map (\<lambda>t. le16 (htons t)) ts))
      | (K_uint16, V_uint16 n) \<Rightarrow>
          Some (or_then (mbuf_write_u16 al mb (htons n)) (\<lambda>mb. mbuf_write_u16 al mb 0))
      | (K_uint32, V_uint32 n) \<Rightarrow> Some (mbuf_write_u32 al mb (htonl n))
      | (K_buf, V_mb d) \<Rightarrow> Some (mbuf_write_mem al mb (take (mbuf_get_left d) (mbuf_buf d)))
      | (K_buf, V_self) \<Rightarrow> Some (OK, mb\<lparr>mb_pos := mb_end mb\<rparr>)
      | (K_uint8, V_uint8 n) \<Rightarrow>
          Some (let r = mbuf_write_u8 al mb n; r = or_then r (\<lambda>mb. mbuf_write_u8 al mb 0)
                in or_then r (\<lambda>mb. mbuf_write_u16 al mb 0))
      | (K_even_port, V_even_port r) \<Rightarrow> Some (mbuf_write_u8 al mb (push_bit 7 (of_bool r)))
      | (K_flag, w) \<Rightarrow> Some (OK, mb)
      | (K_uint64, V_uint64 n) \<Rightarrow> Some (mbuf_write_u64 al mb (sys_htonll n))
      | (K_default, w) \<Rightarrow> Some (EINVAL, mb)
      | _ \<Rightarrow> None)"

text \<open>
  Padding is written until the value ends at a multiple of four. When writing fails the position
  stays where it is, and the loop goes on for ever.
\<close>

partial_function (option) attr_padding :: "allocator \<Rightarrow> byte \<Rightarrow> nat \<Rightarrow> err \<Rightarrow> mbuf \<Rightarrow> (err \<times> mbuf) option" where
  "attr_padding al padding start e mb =
     (if (int (mb_pos mb) - int start) mod 4 \<noteq> 0
      then attr_padding al padding start (e OR fst (mbuf_write_u8 al mb padding)) (snd (mbuf_write_u8 al mb padding))
      else Some (e, mb))"

definition stun_attr_encode :: "allocator \<Rightarrow> mbuf \<Rightarrow> u16 \<Rightarrow> stun_val \<Rightarrow> byte list option \<Rightarrow> byte \<Rightarrow> (err \<times> mbuf) option" where
  "stun_attr_encode al mb type v tid padding =
     (let mb = mb\<lparr>mb_pos := mb_pos mb + 4\<rparr>; start = mb_pos mb
      in case attr_value_encode al mb (attr_kind type) v tid of
        None \<Rightarrow> None
      | Some (e, mb) \<Rightarrow>
          let len = int (mb_pos mb) - int start;
              r = or_then (e, mb\<lparr>mb_pos := start - 4\<rparr>) (\<lambda>mb. mbuf_write_u16 al mb (htons type));
              (e, mb) = or_then r (\<lambda>mb. mbuf_write_u16 al mb (htons (of_int len)))
          in attr_padding al padding start e (mbuf_advance mb len))"

subsection \<open>Decoding\<close>

definition str_decode :: "allocator \<Rightarrow> mbuf \<Rightarrow> nat \<Rightarrow> err \<times> byte list \<times> mbuf" where
  "str_decode al mb len = (if mbuf_get_left mb < len then (EBADMSG, [], mb) else mbuf_strdup al mb len)"

text \<open>At most eight unknown attributes are stored; the others are read over.\<close>

fun read_unknown :: "nat \<Rightarrow> mbuf \<Rightarrow> u16 list \<Rightarrow> u16 list \<times> mbuf" where
  "read_unknown 0 mb ts = (ts, mb)"
| "read_unknown (Suc n) mb ts =
     (let (t, mb) = mbuf_read_u16 mb in read_unknown n mb (if length ts < 8 then ts @ [ntohs t] else ts))"

definition attr_value_decode :: "allocator \<Rightarrow> mbuf \<Rightarrow> attr_kind \<Rightarrow> nat \<Rightarrow> byte list option \<Rightarrow> err \<times> stun_val \<times> mbuf" where
  "attr_value_decode al mb kind len tid =
     (case kind of
        K_addr \<Rightarrow> stun_addr_decode mb None
      | K_xor_addr \<Rightarrow> stun_addr_decode mb tid
      | K_change_req \<Rightarrow>
          if len \<noteq> 4 then (EBADMSG, V_none, mb)
          else let (n, mb) = mbuf_read_u32 mb; n = ntohl n
               in (OK, V_change_req (drop_bit 2 n AND 1 \<noteq> 0) (drop_bit 1 n AND 1 \<noteq> 0), mb)
      | K_str \<Rightarrow> let (e, s, mb) = str_decode al mb len in (e, V_str s, mb)
      | K_integrity \<Rightarrow>
          if len \<noteq> 20 then (EBADMSG, V_none, mb)
          else let (e, m, mb) = mbuf_read_mem mb 20 in (e, V_msg_integrity m, mb)
      | K_err_code \<Rightarrow>
          if len < 4 then (EBADMSG, V_none, mb)
          else let mb = mb\<lparr>mb_pos := mb_pos mb + 2\<rparr>; (c, mb) = mbuf_read_u8 mb; (d, mb) = mbuf_read_u8 mb;
                   (e, s, mb) = str_decode al mb (len - 4)
               in (e, V_err_code (ucast (c AND 0x7) * 100 + ucast d) s, mb)
      | K_unknown_attr \<Rightarrow> let (ts, mb) = read_unknown (len div 2) mb [] in (OK, V_unknown_attr ts, mb)
      | K_uint16 \<Rightarrow>
          if len < 2 then (EBADMSG, V_none, mb) else let (n, mb) = mbuf_read_u16 mb in (OK, V_uint16 (ntohs n), mb)
      | K_uint32 \<Rightarrow>
          if len \<noteq> 4 then (EBADMSG, V_none, mb) else let (n, mb) = mbuf_read_u32 mb in (OK, V_uint32 (ntohl n), mb)
      | K_buf \<Rightarrow> (OK, V_mb (mb\<lparr>mb_end := mb_pos mb + len\<rparr>), mb\<lparr>mb_pos := mb_pos mb + len\<rparr>)
      | K_uint8 \<Rightarrow> if len < 1 then (EBADMSG, V_none, mb) else let (n, mb) = mbuf_read_u8 mb in (OK, V_uint8 n, mb)
      | K_even_port \<Rightarrow>
          if len < 1 then (EBADMSG, V_none, mb)
          else let (n, mb) = mbuf_read_u8 mb in (OK, V_even_port (drop_bit 7 n AND 1 \<noteq> 0), mb)
      | K_flag \<Rightarrow> if len > 0 then (EBADMSG, V_none, mb) else (OK, V_none, mb)
      | K_uint64 \<Rightarrow>
          if len \<noteq> 8 then (EBADMSG, V_none, mb) else let (n, mb) = mbuf_read_u64 mb in (OK, V_uint64 (sys_htonll n), mb)
      | K_default \<Rightarrow> (OK, V_none, mb\<lparr>mb_pos := mb_pos mb + len\<rparr>))"

text \<open>Unknown attributes that must be understood are collected, if the caller asks for them.\<close>

definition note_unknown :: "u16 \<Rightarrow> u16 list option \<Rightarrow> u16 list option" where
  "note_unknown type ua =
     (if attr_kind type = K_default \<and> type < 0x8000
      then map_option (\<lambda>ts. if length ts < 8 then ts @ [type] else ts) ua else ua)"

function skip_padding :: "nat \<Rightarrow> mbuf \<Rightarrow> mbuf" where
  "skip_padding start mb =
     (if (mb_pos mb - start) mod 4 \<noteq> 0 \<and> mbuf_get_left mb \<noteq> 0
      then skip_padding start (mb\<lparr>mb_pos := mb_pos mb + 1\<rparr>) else mb)"
  by pat_completeness auto
termination
  by (relation "measure (\<lambda>(start, mb). mbuf_get_left mb)") (auto simp: mbuf_get_left_def split: if_splits)

declare skip_padding.simps [simp del]

text \<open>\<open>mem\<close> tells whether the attribute found at a position can be allocated.\<close>

definition stun_attr_decode ::
  "allocator \<Rightarrow> (nat \<Rightarrow> bool) \<Rightarrow> mbuf \<Rightarrow> byte list option \<Rightarrow> u16 list option \<Rightarrow> err \<times> stun_attr option \<times> mbuf \<times> u16 list option" where
  "stun_attr_decode al mem mb tid ua =
     (if mbuf_get_left mb < 4 then (EBADMSG, None, mb, ua)
      else if \<not> mem (mb_pos mb) then (ENOMEM, None, mb, ua)
      else
        let (t, mb) = mbuf_read_u16 mb; type = ntohs t; (l, mb) = mbuf_read_u16 mb; len = unat (ntohs l)
        in if mbuf_get_left mb < len then (EBADMSG, None, mb, ua)
        else
          let start = mb_pos mb;
              (e, v, mb) = attr_value_decode al mb (attr_kind type) len tid;
              ua = note_unknown type ua
          in if e \<noteq> OK then (e, None, mb, ua)
             else (OK, Some \<lparr>sa_type = type, sa_v = v\<rparr>, skip_padding start mb, ua))"

section \<open>Messages\<close>

record stun_msg =
  sm_hdr :: stun_hdr
  sm_attrl :: "stun_attr list"
  sm_mb :: mbuf
  sm_start :: nat

definition fingerprint :: "byte list \<Rightarrow> u32" where
  "fingerprint buf = crc32 0 buf XOR 0x5354554e"

text \<open>The difference of two numbers of type \<^verbatim>\<open>size_t\<close>.\<close>

definition size_sub :: "nat \<Rightarrow> nat \<Rightarrow> nat" where
  "size_sub a b = nat ((int a - int b) mod 2 ^ 64)"

subsection \<open>Reading moves forward\<close>

definition adv :: "mbuf \<Rightarrow> mbuf \<Rightarrow> bool" where
  "adv mb mb' \<longleftrightarrow> (\<exists>n \<le> mbuf_get_left mb. mb' = mb_adv mb n)"

lemma adv_self [simp, intro]: "adv mb mb"
  unfolding adv_def by (rule exI [of _ 0]) simp

lemma adv_by: "n \<le> mbuf_get_left mb \<Longrightarrow> adv mb (mb\<lparr>mb_pos := mb_pos mb + n\<rparr>)"
  by (auto simp: adv_def mb_adv_def)

lemma mb_adv_left: "mbuf_get_left (mb_adv mb n) = mbuf_get_left mb - n"
  by (simp add: mb_adv_def mbuf_get_left_diff)

lemma adv_trans: "adv mb mb1 \<Longrightarrow> adv mb1 mb2 \<Longrightarrow> adv mb mb2"
proof -
  assume "adv mb mb1" "adv mb1 mb2"
  then obtain n k where "n \<le> mbuf_get_left mb" "mb1 = mb_adv mb n" "k \<le> mbuf_get_left mb1" "mb2 = mb_adv mb1 k" by (auto simp: adv_def)
  then show ?thesis unfolding adv_def by (intro exI [of _ "n + k"]) (simp add: mb_adv_left)
qed

lemma adv_left: "adv mb mb' \<Longrightarrow> mbuf_get_left mb' \<le> mbuf_get_left mb"
  by (auto simp: adv_def mb_adv_left)

lemma adv_read_mem: "mbuf_read_mem mb n = (e, s, mb') \<Longrightarrow> adv mb mb'"
  by (auto simp: mbuf_read_mem_def split: if_splits intro: adv_by)

lemma adv_reads:
  "mbuf_read_u8 mb = (a, mb') \<Longrightarrow> adv mb mb'" "mbuf_read_u16 mb = (b, mb') \<Longrightarrow> adv mb mb'"
  "mbuf_read_u32 mb = (c, mb') \<Longrightarrow> adv mb mb'" "mbuf_read_u64 mb = (d, mb') \<Longrightarrow> adv mb mb'"
  by (auto simp: mbuf_read_u8_def mbuf_read_u16_def mbuf_read_u32_def mbuf_read_u64_def Let_def split: prod.splits dest: adv_read_mem)

lemmas adv_dests = adv_reads adv_read_mem

lemma adv_skip_padding: "adv mb (skip_padding start mb)"
proof (induction start mb rule: skip_padding.induct)
  case (1 start mb)
  show ?case
  proof (cases "(mb_pos mb - start) mod 4 \<noteq> 0 \<and> mbuf_get_left mb \<noteq> 0")
    case True
    then have "adv mb (mb\<lparr>mb_pos := mb_pos mb + 1\<rparr>)" by (intro adv_by) simp
    then show ?thesis using 1 True adv_trans by (subst skip_padding.simps) auto
  next
    case False
    then show ?thesis by (subst skip_padding.simps) auto
  qed
qed

lemma adv_str_decode: "str_decode al mb len = (e, s, mb') \<Longrightarrow> adv mb mb'"
  by (auto simp: str_decode_def mbuf_strdup_def split: if_splits option.splits prod.splits dest: adv_read_mem)

lemma adv_addr_decode: "stun_addr_decode mb tid = (e, v, mb') \<Longrightarrow> adv mb mb'"
  by (auto simp: stun_addr_decode_def Let_def split: if_splits prod.splits dest!: adv_dests intro: adv_trans)

lemma adv_read_unknown: "read_unknown n mb ts = (ts', mb') \<Longrightarrow> adv mb mb'"
  by (induction n mb ts rule: read_unknown.induct) (auto split: prod.splits dest!: adv_reads intro: adv_trans)

lemma adv_err_code:
  assumes "4 \<le> mbuf_get_left mb" "mbuf_read_u8 (mb\<lparr>mb_pos := mb_pos mb + 2\<rparr>) = (c, mb1)" "mbuf_read_u8 mb1 = (d, mb2)" "str_decode al mb2 n = (e, s, mb3)"
  shows "adv mb mb3"
proof -
  have "adv mb (mb\<lparr>mb_pos := mb_pos mb + 2\<rparr>)" using assms(1) by (intro adv_by) simp
  from adv_trans [OF adv_trans [OF adv_trans [OF this adv_reads(1) [OF assms(2)]] adv_reads(1) [OF assms(3)]] adv_str_decode [OF assms(4)]]
  show ?thesis .
qed

lemma adv_value_decode:
  assumes "attr_value_decode al mb kind len tid = (e, v, mb')" "len \<le> mbuf_get_left mb"
  shows "adv mb mb'"
  using assms by (cases kind)
    (auto simp: attr_value_decode_def Let_def not_less split: if_splits prod.splits
      dest: adv_dests adv_str_decode adv_addr_decode adv_read_unknown intro: adv_by adv_err_code)

lemma attr_decode_OK:
  assumes "stun_attr_decode al mem mb tid ua = (OK, a, mb', ua')"
  obtains t mb1 l mb2 v mb3 where "4 \<le> mbuf_get_left mb" "mbuf_read_u16 mb = (t, mb1)" "mbuf_read_u16 mb1 = (l, mb2)"
    "unat (ntohs l) \<le> mbuf_get_left mb2" "attr_value_decode al mb2 (attr_kind (ntohs t)) (unat (ntohs l)) tid = (OK, v, mb3)"
    "a = Some \<lparr>sa_type = ntohs t, sa_v = v\<rparr>" "mb' = skip_padding (mb_pos mb2) mb3" "ua' = note_unknown (ntohs t) ua"
  using assms by (auto simp: stun_attr_decode_def Let_def not_less EBADMSG_def ENOMEM_def split: if_splits prod.splits)

lemma attr_decode_progress:
  assumes "stun_attr_decode al mem mb tid ua = (OK, a, mb', ua')"
  shows "mbuf_get_left mb' < mbuf_get_left mb"
proof -
  obtain t mb1 l mb2 v mb3 where r: "4 \<le> mbuf_get_left mb" "mbuf_read_u16 mb = (t, mb1)" "mbuf_read_u16 mb1 = (l, mb2)"
    "unat (ntohs l) \<le> mbuf_get_left mb2" "attr_value_decode al mb2 (attr_kind (ntohs t)) (unat (ntohs l)) tid = (OK, v, mb3)"
    "mb' = skip_padding (mb_pos mb2) mb3"
    by (rule attr_decode_OK [OF assms]) blast
  have "mbuf_get_left mb1 < mbuf_get_left mb"
    using r(1,2) by (auto simp: mbuf_read_u16_def mbuf_read_mem_def mbuf_get_left_diff)
  moreover have "adv mb1 mb'"
    unfolding r(6) by (rule adv_trans [OF adv_reads(2) [OF r(3)] adv_trans [OF adv_value_decode [OF r(5,4)] adv_skip_padding]])
  ultimately show ?thesis using adv_left by (meson le_less_trans)
qed

subsection \<open>The decoder of messages\<close>

text \<open>The attributes up to \<open>extra\<close> bytes from the end of the buffer.\<close>

function stun_msg_attrs ::
  "allocator \<Rightarrow> (nat \<Rightarrow> bool) \<Rightarrow> byte list \<Rightarrow> nat \<Rightarrow> mbuf \<Rightarrow> u16 list option \<Rightarrow> stun_attr list \<Rightarrow> err \<times> stun_attr list \<times> mbuf \<times> u16 list option" where
  "stun_msg_attrs al mem tid extra mb ua attrl =
     (if size_sub (mbuf_get_left mb) extra \<ge> 4 then
        case stun_attr_decode al mem mb (Some tid) ua of
          (e, a, mb', ua') \<Rightarrow>
            if e \<noteq> OK then (e, attrl, mb', ua')
            else stun_msg_attrs al mem tid extra mb' ua' (attrl @ (case a of None \<Rightarrow> [] | Some a \<Rightarrow> [a]))
      else (OK, attrl, mb, ua))"
  by pat_completeness auto
termination
  by (relation "measure (\<lambda>(al, mem, tid, extra, mb, ua, attrl). mbuf_get_left mb)") (auto dest: attr_decode_progress [OF sym])

declare stun_msg_attrs.simps [simp del]

definition stun_hdr0 :: stun_hdr where
  "stun_hdr0 = \<lparr>sh_type = 0, sh_len = 0, sh_cookie = 0, sh_tid = []\<rparr>"

definition stun_msg_decode ::
  "allocator \<Rightarrow> bool \<Rightarrow> (nat \<Rightarrow> bool) \<Rightarrow> mbuf \<Rightarrow> u16 list option \<Rightarrow> err \<times> stun_msg option \<times> mbuf \<times> u16 list option" where
  "stun_msg_decode al msg_mem mem mb ua =
     (let start = mb_pos mb; (e, hdr, mb) = stun_hdr_decode stun_hdr0 mb
      in if e \<noteq> OK then (e, None, mb\<lparr>mb_pos := start\<rparr>, ua)
         else if \<not> msg_mem then (ENOMEM, None, mb\<lparr>mb_pos := start\<rparr>, ua)
         else
           let extra = mbuf_get_left mb - unat (sh_len hdr);
               (e, attrl, mb, ua) = stun_msg_attrs al mem (sh_tid hdr) extra mb (map_option (\<lambda>ts. []) ua) [];
               mb = mb\<lparr>mb_pos := start\<rparr>
           in (e, if e \<noteq> OK then None else Some \<lparr>sm_hdr = hdr, sm_attrl = attrl, sm_mb = mb, sm_start = start\<rparr>, mb, ua))"

definition stun_msg_type :: "stun_msg \<Rightarrow> u16" where
  "stun_msg_type msg = sh_type (sm_hdr msg)"

definition stun_msg_class :: "stun_msg \<Rightarrow> u16" where
  "stun_msg_class msg = STUN_CLASS (stun_msg_type msg)"

definition stun_msg_method :: "stun_msg \<Rightarrow> u16" where
  "stun_msg_method msg = STUN_METHOD (stun_msg_type msg)"

definition stun_msg_tid :: "stun_msg \<Rightarrow> byte list" where
  "stun_msg_tid msg = sh_tid (sm_hdr msg)"

definition stun_msg_mcookie :: "stun_msg \<Rightarrow> bool" where
  "stun_msg_mcookie msg \<longleftrightarrow> STUN_MAGIC_COOKIE = sh_cookie (sm_hdr msg)"

definition stun_msg_attr :: "stun_msg \<Rightarrow> u16 \<Rightarrow> stun_attr option" where
  "stun_msg_attr msg type = find (\<lambda>a. sa_type a = type) (sm_attrl msg)"

definition stun_msg_attr_apply :: "stun_msg \<Rightarrow> (stun_attr \<Rightarrow> bool) option \<Rightarrow> stun_attr option" where
  "stun_msg_attr_apply msg h = (case h of None \<Rightarrow> None | Some h \<Rightarrow> find h (sm_attrl msg))"

section \<open>Encoding and checking messages\<close>

text \<open>An attribute, with its error or-ed to the ones before; an attribute without a value is left out.\<close>

definition encode_attr :: "allocator \<Rightarrow> byte list option \<Rightarrow> byte \<Rightarrow> u16 \<times> stun_val option \<Rightarrow> err \<times> mbuf \<Rightarrow> (err \<times> mbuf) option" where
  "encode_attr al tid padding a r =
     (case (a, r) of ((type, v), (e, mb)) \<Rightarrow>
        case v of
          None \<Rightarrow> Some (e, mb)
        | Some v \<Rightarrow> map_option (\<lambda>(e', mb). (e OR e', mb)) (stun_attr_encode al mb type v tid padding))"

fun encode_attrs :: "allocator \<Rightarrow> byte list option \<Rightarrow> byte \<Rightarrow> (u16 \<times> stun_val option) list \<Rightarrow> err \<times> mbuf \<Rightarrow> (err \<times> mbuf) option" where
  "encode_attrs al tid padding [] r = Some r"
| "encode_attrs al tid padding (a # as) r =
     (case encode_attr al tid padding a r of None \<Rightarrow> None | Some r \<Rightarrow> encode_attrs al tid padding as r)"

definition bytes_left :: "mbuf \<Rightarrow> byte list" where
  "bytes_left mb = take (mbuf_get_left mb) (mbuf_buf mb)"

text \<open>
  The integrity covers the header, whose length already counts it, and the attributes before it; the
  fingerprint everything before it, again with the length that counts it.
\<close>

definition encode_integrity ::
  "allocator \<Rightarrow> (byte list \<Rightarrow> byte list \<Rightarrow> byte list) \<Rightarrow> byte \<Rightarrow> nat \<Rightarrow> stun_hdr \<Rightarrow> byte list \<Rightarrow> err \<times> mbuf \<Rightarrow> (err \<times> mbuf) option" where
  "encode_integrity al hmac_sha1 padding start hdr key r =
     (case r of (e, mb) \<Rightarrow>
        let mb = mb\<lparr>mb_pos := start\<rparr>;
            mi = hmac_sha1 key (bytes_left mb);
            mb = mbuf_advance mb (int STUN_HEADER_SIZE + uint (sh_len hdr) - int MI_SIZE)
        in encode_attr al None padding (STUN_ATTR_MSG_INTEGRITY, Some (V_msg_integrity mi)) (e, mb))"

definition encode_fingerprint :: "allocator \<Rightarrow> byte \<Rightarrow> nat \<Rightarrow> stun_hdr \<Rightarrow> err \<times> mbuf \<Rightarrow> (err \<times> mbuf) option" where
  "encode_fingerprint al padding start hdr r =
     (case r of (e, mb) \<Rightarrow>
        let hdr = hdr\<lparr>sh_len := of_int (int (mb_pos mb) - int start - int STUN_HEADER_SIZE + int FP_SIZE)\<rparr>;
            (e, mb) = or_then (e, mb\<lparr>mb_pos := start\<rparr>) (\<lambda>mb. stun_hdr_encode al mb hdr);
            mb = mb\<lparr>mb_pos := start\<rparr>;
            fprnt = fingerprint (bytes_left mb);
            mb = mbuf_advance mb (int STUN_HEADER_SIZE + uint (sh_len hdr) - int FP_SIZE)
        in encode_attr al None padding (STUN_ATTR_FINGERPRINT, Some (V_uint32 fprnt)) (e, mb))"

definition stun_msg_vencode ::
  "allocator \<Rightarrow> (byte list \<Rightarrow> byte list \<Rightarrow> byte list) \<Rightarrow> mbuf \<Rightarrow> u16 \<Rightarrow> byte \<Rightarrow> byte list \<Rightarrow> stun_val option \<Rightarrow> byte list option \<Rightarrow> bool \<Rightarrow>
     byte \<Rightarrow> (u16 \<times> stun_val option) list \<Rightarrow> (err \<times> mbuf) option" where
  "stun_msg_vencode al hmac_sha1 mb method cls tid ec key fp padding attrs =
     (let start = mb_pos mb;
          mi_size = (if key = None then 0 else MI_SIZE);
          hdr = \<lparr>sh_type = STUN_TYPE method cls, sh_len = 0, sh_cookie = STUN_MAGIC_COOKIE, sh_tid = tid\<rparr>
      in case encode_attr al None padding (STUN_ATTR_ERR_CODE, ec) (OK, mb\<lparr>mb_pos := mb_pos mb + STUN_HEADER_SIZE\<rparr>) of
        None \<Rightarrow> None
      | Some r \<Rightarrow>
      case encode_attrs al (Some tid) padding attrs r of
        None \<Rightarrow> None
      | Some (e, mb) \<Rightarrow>
          let hdr = hdr\<lparr>sh_len := of_int (int (mb_pos mb) - int start - int STUN_HEADER_SIZE + int mi_size)\<rparr>;
              (e, mb) = or_then (e, mb\<lparr>mb_pos := start\<rparr>) (\<lambda>mb. stun_hdr_encode al mb hdr);
              mb = mbuf_advance mb (uint (sh_len hdr) - int mi_size)
          in case (case key of None \<Rightarrow> Some (e, mb) | Some k \<Rightarrow> encode_integrity al hmac_sha1 padding start hdr k (e, mb)) of
            None \<Rightarrow> None
          | Some r \<Rightarrow> if fp then encode_fingerprint al padding start hdr r else Some r)"

text \<open>
  Checking the integrity. When there is a fingerprint the length in the buffer is changed to the one
  without it, and back. The memory that the hash reads has to lie in the buffer.
\<close>

definition set_len :: "allocator \<Rightarrow> int \<Rightarrow> stun_hdr \<Rightarrow> mbuf \<Rightarrow> stun_hdr \<times> mbuf" where
  "set_len al d hdr mb =
     (let hdr = hdr\<lparr>sh_len := sh_len hdr + of_int d\<rparr>; (e, mb) = stun_hdr_encode al mb hdr
      in (hdr, mbuf_advance mb (- int STUN_HEADER_SIZE)))"

definition covered :: "mbuf \<Rightarrow> int \<Rightarrow> byte list option" where
  "covered mb n = (if 0 \<le> n \<and> nat n \<le> length (mbuf_buf mb) then Some (take (nat n) (mbuf_buf mb)) else None)"

definition stun_msg_chk_mi ::
  "allocator \<Rightarrow> (byte list \<Rightarrow> byte list \<Rightarrow> byte list) \<Rightarrow> stun_msg \<Rightarrow> byte list \<Rightarrow> (err \<times> stun_msg) option" where
  "stun_msg_chk_mi al hmac_sha1 msg key =
     (case stun_msg_attr msg STUN_ATTR_MSG_INTEGRITY of
        None \<Rightarrow> Some (EPROTO, msg)
      | Some mi \<Rightarrow>
          let mb = (sm_mb msg)\<lparr>mb_pos := sm_start msg\<rparr>;
              fp = (stun_msg_attr msg STUN_ATTR_FINGERPRINT \<noteq> None);
              (hdr, mb) = (if fp then set_len al (- int FP_SIZE) (sm_hdr msg) mb else (sm_hdr msg, mb))
          in case covered mb (int STUN_HEADER_SIZE + uint (sh_len hdr) - int MI_SIZE) of
            None \<Rightarrow> None
          | Some buf \<Rightarrow>
              let (hdr, mb) = (if fp then set_len al (int FP_SIZE) hdr mb else (hdr, mb));
                  msg = msg\<lparr>sm_hdr := hdr, sm_mb := mb\<rparr>
              in case sa_v mi of
                V_msg_integrity m \<Rightarrow> Some (if m \<noteq> hmac_sha1 key buf then EBADMSG else OK, msg)
              | _ \<Rightarrow> None)"

definition stun_msg_chk_fingerprint :: "stun_msg \<Rightarrow> (err \<times> stun_msg) option" where
  "stun_msg_chk_fingerprint msg =
     (case stun_msg_attr msg STUN_ATTR_FINGERPRINT of
        None \<Rightarrow> Some (EPROTO, msg)
      | Some fp \<Rightarrow>
          let mb = (sm_mb msg)\<lparr>mb_pos := sm_start msg\<rparr>
          in case covered mb (int STUN_HEADER_SIZE + uint (sh_len (sm_hdr msg)) - int FP_SIZE) of
            None \<Rightarrow> None
          | Some buf \<Rightarrow>
              (case sa_v fp of
                 V_uint32 n \<Rightarrow> Some (if fingerprint buf \<noteq> n then EBADMSG else OK, msg\<lparr>sm_mb := mb\<rparr>)
               | _ \<Rightarrow> None))"

end
