(* ===== verification/StunWire.thy ===== *)
theory StunWire
  imports Stun
begin

text \<open>
  What the STUN encoder of \<^verbatim>\<open>Stun\<close> leaves in memory, and that the decoder reads it back. The encoder
  writes attributes before the headers in front of them, so the lemmas here describe writes at any
  position of a buffer: the bytes stored, and the bytes left alone.
\<close>

section \<open>Writing anywhere\<close>

definition at_pos :: "mbuf \<Rightarrow> nat \<Rightarrow> byte list \<Rightarrow> bool" where
  "at_pos mb p bs \<longleftrightarrow> take (length bs) (drop p (mb_buf mb)) = bs"

definition wrote :: "mbuf \<Rightarrow> mbuf \<Rightarrow> byte list \<Rightarrow> bool" where
  "wrote mb mb' bs \<longleftrightarrow>
     mbuf_wf mb' \<and> mb_size mb \<le> mb_size mb' \<and> mb_pos mb' = mb_pos mb + length bs
     \<and> mb_end mb \<le> mb_end mb' \<and> mb_end mb' \<le> max (mb_end mb) (mb_pos mb') \<and> (bs \<noteq> [] \<longrightarrow> mb_pos mb' \<le> mb_end mb')
     \<and> at_pos mb' (mb_pos mb) bs
     \<and> (\<forall>i < mb_size mb. i < mb_pos mb \<or> mb_pos mb' \<le> i \<longrightarrow> mb_buf mb' ! i = mb_buf mb ! i)"

definition mem_ok :: "allocator \<Rightarrow> bool" where
  "mem_ok al \<longleftrightarrow> (\<forall>n. al n \<noteq> None)"

lemma at_pos_pos [simp]: "at_pos (mb\<lparr>mb_pos := q\<rparr>) p bs = at_pos mb p bs"
  by (simp add: at_pos_def)

lemma at_pos_Nil [simp]: "at_pos mb p []"
  by (simp add: at_pos_def)

lemma at_pos_append: "at_pos mb p (as @ bs) \<longleftrightarrow> at_pos mb p as \<and> at_pos mb (p + length as) bs"
proof
  assume a: "at_pos mb p (as @ bs)"
  then have "take (length as) (take (length as + length bs) (drop p (mb_buf mb))) = as"
    "drop (length as) (take (length as + length bs) (drop p (mb_buf mb))) = bs"
    by (simp_all add: at_pos_def)
  then show "at_pos mb p as \<and> at_pos mb (p + length as) bs"
    by (simp add: at_pos_def drop_take add.commute min_def)
qed (simp add: at_pos_def take_add add.commute)

lemma at_pos_size: "mbuf_wf mb \<Longrightarrow> at_pos mb p bs \<Longrightarrow> bs \<noteq> [] \<Longrightarrow> p + length bs \<le> mb_size mb"
proof -
  assume a: "mbuf_wf mb" "at_pos mb p bs" "bs \<noteq> []"
  then have "length (take (length bs) (drop p (mb_buf mb))) = length bs" by (simp add: at_pos_def)
  moreover have "0 < length bs" using a(3) by simp
  ultimately show ?thesis using a(1) by (auto simp: mbuf_wf_def min_def split: if_splits simp del: length_greater_0_conv)
qed

lemma wrote_frame:
  assumes "wrote mb mb' bs" "mbuf_wf mb" "at_pos mb p cs" "p + length cs \<le> mb_pos mb \<or> mb_pos mb + length bs \<le> p"
  shows "at_pos mb' p cs"
proof (cases "cs = []")
  case False
  have s: "p + length cs \<le> mb_size mb" using at_pos_size assms(2,3) False .
  have w: "mbuf_wf mb'" "mb_size mb \<le> mb_size mb'" "mb_pos mb' = mb_pos mb + length bs"
    "\<forall>i < mb_size mb. i < mb_pos mb \<or> mb_pos mb' \<le> i \<longrightarrow> mb_buf mb' ! i = mb_buf mb ! i"
    using assms(1) by (auto simp: wrote_def)
  have "take (length cs) (drop p (mb_buf mb')) = take (length cs) (drop p (mb_buf mb))"
    using s w assms(2,4) by (intro nth_equalityI) (auto simp: mbuf_wf_def)
  then show ?thesis using assms(3) by (simp add: at_pos_def)
qed simp

lemma wrote_self: "mbuf_wf mb \<Longrightarrow> wrote mb mb []"
  by (simp add: wrote_def)

lemma wrote_trans:
  assumes "wrote mb mb1 as" "wrote mb1 mb2 bs"
  shows "wrote mb mb2 (as @ bs)"
proof -
  have "at_pos mb2 (mb_pos mb) as" using wrote_frame [OF assms(2), of "mb_pos mb" as] assms(1) by (auto simp: wrote_def)
  then show ?thesis using assms by (auto simp: wrote_def at_pos_append)
qed

text \<open>Bytes with a header that is written after them.\<close>

lemma wrote_header:
  assumes "wrote (mb\<lparr>mb_pos := s + length hs\<rparr>) mb1 vs" "wrote (mb1\<lparr>mb_pos := s\<rparr>) mb2 hs" "hs \<noteq> []"
  shows "wrote (mb\<lparr>mb_pos := s\<rparr>) (mb2\<lparr>mb_pos := s + length hs + length vs\<rparr>) (hs @ vs)"
proof -
  have "at_pos mb2 (s + length hs) vs" using wrote_frame [OF assms(2), of "s + length hs" vs] assms(1) by (auto simp: wrote_def)
  then show ?thesis using assms by (auto simp: wrote_def at_pos_append)
qed

text \<open>A function that writes certain bytes when there is memory, and one that may also have no result.\<close>

definition writes :: "(mbuf \<Rightarrow> err \<times> mbuf) \<Rightarrow> byte list \<Rightarrow> bool" where
  "writes f bs \<longleftrightarrow> (\<forall>mb. mbuf_wf mb \<longrightarrow> (\<exists>mb'. f mb = (OK, mb') \<and> wrote mb mb' bs))"

lemma writesD: "writes f bs \<Longrightarrow> mbuf_wf mb \<Longrightarrow> \<exists>mb'. f mb = (OK, mb') \<and> wrote mb mb' bs"
  by (simp add: writes_def)

lemma writes_self: "writes (\<lambda>mb. (OK, mb)) []"
  by (simp add: writes_def wrote_self)

lemma writes_or_then: "writes f as \<Longrightarrow> writes g bs \<Longrightarrow> writes (\<lambda>mb. or_then (f mb) g) (as @ bs)"
proof -
  assume f: "writes f as" and g: "writes g bs"
  show ?thesis unfolding writes_def
  proof (intro allI impI)
    fix mb
    assume "mbuf_wf mb"
    then obtain mb1 where 1: "f mb = (OK, mb1)" "wrote mb mb1 as" using writesD [OF f] by blast
    then have "mbuf_wf mb1" by (simp add: wrote_def)
    then obtain mb2 where "g mb1 = (OK, mb2)" "wrote mb1 mb2 bs" using writesD [OF g] by blast
    with 1 show "\<exists>mb'. or_then (f mb) g = (OK, mb') \<and> wrote mb mb' (as @ bs)" by (auto intro: wrote_trans)
  qed
qed

lemma grow_mem_ok:
  assumes "mem_ok al" "mbuf_wf mb"
  obtains mb1 where "mbuf_grow al mb n = (OK, mb1)" "mbuf_wf mb1" "mb_size mb \<le> mb_size mb1" "mb_pos mb + n \<le> mb_size mb1"
    "mb_pos mb1 = mb_pos mb" "mb_end mb1 = mb_end mb" "take (mb_size mb) (mb_buf mb1) = mb_buf mb"
proof (cases "mb_pos mb + n > mb_size mb")
  case True
  define sz where "sz = max (mb_pos mb + n) (if mb_size mb \<noteq> 0 then mb_size mb * 2 else MBUF_DEFAULT_SIZE)"
  obtain junk where "al sz = Some junk" using assms(1) by (auto simp: mem_ok_def)
  then have "\<exists>mb1. mbuf_resize al mb sz = (OK, mb1)" by (simp add: mbuf_resize_def mem_alloc_def mem_realloc_def)
  then obtain mb1 where r: "mbuf_resize al mb sz = (OK, mb1)" ..
  have "mbuf_grow al mb n = (OK, mb1)" using True r by (simp add: mbuf_grow_def Let_def sz_def)
  with mbuf_resize_ok [OF r] True assms(2) show ?thesis by (intro that [of mb1]) (auto simp: mbuf_wf_def sz_def)
next
  case False
  with assms(2) show ?thesis by (intro that [of mb]) (auto simp: mbuf_grow_def mbuf_wf_def)
qed

lemma nth_poke: "i \<le> length xs \<Longrightarrow> k < i \<or> i + length ys \<le> k \<Longrightarrow> k < length xs \<Longrightarrow> poke i ys xs ! k = xs ! k"
  by (auto simp: poke_def nth_append)

lemma wrote_poke:
  assumes "mbuf_wf mb" "mb_pos mb + length bs \<le> mb_size mb"
  shows "wrote mb (mb\<lparr>mb_buf := poke (mb_pos mb) bs (mb_buf mb), mb_pos := mb_pos mb + length bs,
    mb_end := max (mb_end mb) (mb_pos mb + length bs)\<rparr>) bs"
  using assms by (auto simp: wrote_def mbuf_wf_def at_pos_def poke_def nth_append)

lemma writes_mem: "mem_ok al \<Longrightarrow> writes (\<lambda>mb. mbuf_write_mem al mb bs) bs"
  unfolding writes_def
proof (intro allI impI)
  fix mb
  assume a: "mem_ok al" "mbuf_wf mb"
  then obtain mb1 where g: "mbuf_grow al mb (length bs) = (OK, mb1)" "mbuf_wf mb1" "mb_size mb \<le> mb_size mb1"
    "mb_pos mb + length bs \<le> mb_size mb1" "mb_pos mb1 = mb_pos mb" "mb_end mb1 = mb_end mb" "take (mb_size mb) (mb_buf mb1) = mb_buf mb"
    by (rule grow_mem_ok)
  have "mb_buf mb1 ! i = mb_buf mb ! i" if "i < mb_size mb" for i using g(7) that by (metis nth_take)
  then have "wrote mb mb2 bs" if "wrote mb1 mb2 bs" for mb2 using that g by (auto simp: wrote_def)
  with wrote_poke [of mb1 bs] g
  show "\<exists>mb'. mbuf_write_mem al mb bs = (OK, mb') \<and> wrote mb mb' bs" by (auto simp: mbuf_write_mem_def)
qed

lemma writes_or_put: "mem_ok al \<Longrightarrow> writes (\<lambda>mb. or_put (mbuf_write_mem al) mb cs) (concat cs)"
proof (induction cs)
  case (Cons c cs)
  from writes_or_then [OF writes_mem [OF Cons.prems] Cons.IH [OF Cons.prems], of c]
  show ?case by (simp add: or_then_def)
qed (simp add: writes_self)

lemma writes_or_put_concat: "mem_ok al \<Longrightarrow> concat cs = bs \<Longrightarrow> writes (\<lambda>mb. or_put (mbuf_write_mem al) mb cs) bs"
  using writes_or_put by blast

lemma writes_ints:
  assumes "mem_ok al"
  shows "writes (\<lambda>mb. mbuf_write_u8 al mb a) [a]" "writes (\<lambda>mb. mbuf_write_u16 al mb b) (le16 b)"
    "writes (\<lambda>mb. mbuf_write_u32 al mb c) (le32 c)" "writes (\<lambda>mb. mbuf_write_u64 al mb d) (le64 d)"
  using writes_mem [OF assms] by (simp_all add: mbuf_write_u8_def mbuf_write_u16_def mbuf_write_u32_def mbuf_write_u64_def)

section \<open>The bytes of an attribute\<close>

definition addr_bytes :: "byte list option \<Rightarrow> sa \<Rightarrow> byte list" where
  "addr_bytes tid a =
     (case a of
        Sa_in addr4 p \<Rightarrow> [0, 1] @ be16 (xor_port tid p) @ be32 (xor_addr4 tid addr4)
      | Sa_in6 addr6 p \<Rightarrow> [0, 2] @ be16 (xor_port tid p) @ xor_addr6 tid addr6
      | Sa_other p \<Rightarrow> [])"

definition val_bytes :: "byte list option \<Rightarrow> attr_kind \<Rightarrow> stun_val \<Rightarrow> byte list" where
  "val_bytes tid kind v =
     (case v of
        V_sa a \<Rightarrow> addr_bytes (if kind = K_addr then None else tid) a
      | V_change_req ip port \<Rightarrow> be32 (push_bit 2 (of_bool ip) OR push_bit 1 (of_bool port))
      | V_str s \<Rightarrow> c_str s
      | V_msg_integrity m \<Rightarrow> m
      | V_err_code code r \<Rightarrow> [0, 0, ucast (code div 100), ucast (code mod 100)] @ c_str r
      | V_unknown_attr ts \<Rightarrow> concat (map be16 ts)
      | V_uint16 n \<Rightarrow> be16 n @ [0, 0]
      | V_uint32 n \<Rightarrow> be32 n
      | V_mb d \<Rightarrow> bytes_left d
      | V_uint8 n \<Rightarrow> [n, 0, 0, 0]
      | V_even_port r \<Rightarrow> [push_bit 7 (of_bool r)]
      | V_uint64 n \<Rightarrow> rev (le64 n)
      | _ \<Rightarrow> [])"

definition str_ok :: "byte list \<Rightarrow> bool" where
  "str_ok s \<longleftrightarrow> s = c_str s @ [0]"

text \<open>The values that can be sent in an attribute and read back.\<close>

definition val_ok :: "attr_kind \<Rightarrow> stun_val \<Rightarrow> bool" where
  "val_ok kind v =
     (case v of
        V_sa a \<Rightarrow> (kind = K_addr \<or> kind = K_xor_addr) \<and> (case a of Sa_in i p \<Rightarrow> True | Sa_in6 i p \<Rightarrow> length i = 16 | Sa_other p \<Rightarrow> False)
      | V_change_req ip port \<Rightarrow> kind = K_change_req
      | V_str s \<Rightarrow> kind = K_str \<and> str_ok s
      | V_msg_integrity m \<Rightarrow> kind = K_integrity \<and> length m = 20
      | V_err_code code r \<Rightarrow> kind = K_err_code \<and> code < 800 \<and> str_ok r
      | V_unknown_attr ts \<Rightarrow> kind = K_unknown_attr \<and> length ts \<le> 8
      | V_uint16 n \<Rightarrow> kind = K_uint16
      | V_uint32 n \<Rightarrow> kind = K_uint32
      | V_mb d \<Rightarrow> kind = K_buf
      | V_self \<Rightarrow> False
      | V_uint8 n \<Rightarrow> kind = K_uint8
      | V_even_port r \<Rightarrow> kind = K_even_port
      | V_none \<Rightarrow> kind = K_flag
      | V_uint64 n \<Rightarrow> kind = K_uint64)"

definition pad4 :: "nat \<Rightarrow> nat" where
  "pad4 n = (4 - n mod 4) mod 4"

definition attr_bytes :: "byte list option \<Rightarrow> byte \<Rightarrow> u16 \<times> stun_val \<Rightarrow> byte list" where
  "attr_bytes tid padding a =
     (let b = val_bytes tid (attr_kind (fst a)) (snd a)
      in be16 (fst a) @ be16 (of_nat (length b)) @ b @ replicate (pad4 (length b)) padding)"

subsection \<open>Encoding an attribute\<close>

lemma le64_of_le64: "le64 (of_le64 [a, b, c, d, e, f, g, h]) = [a, b, c, d, e, f, g, h]"
  by (auto simp: le64_def bit_simps intro!: bit_word_eqI)

lemma le64_htonll [simp]: "le64 (sys_htonll n) = rev (le64 n)"
  by (simp add: sys_htonll_def le64_def [of n] le64_of_le64 del: of_le64.simps)

lemma le16_0 [simp]: "le16 0 = [0, 0]"
  by (simp add: le16_def)

lemma writes_addr: "mem_ok al \<Longrightarrow> (case a of Sa_other p \<Rightarrow> False | _ \<Rightarrow> True) \<Longrightarrow> writes (\<lambda>mb. stun_addr_encode al mb a tid) (addr_bytes tid a)"
  by (cases a) (simp_all add: stun_addr_encode_def addr_bytes_def sa_port_def writes_or_put_concat del: or_put.simps)

definition writes_opt :: "(mbuf \<Rightarrow> (err \<times> mbuf) option) \<Rightarrow> byte list \<Rightarrow> bool" where
  "writes_opt f bs \<longleftrightarrow> (\<exists>g. (\<forall>mb. f mb = Some (g mb)) \<and> writes g bs)"

lemma writes_optI: "writes g bs \<Longrightarrow> writes_opt (\<lambda>mb. Some (g mb)) bs"
  by (auto simp: writes_opt_def)

lemma writes_value:
  assumes "mem_ok al" "val_ok kind v"
  shows "writes_opt (\<lambda>mb. attr_value_encode al mb kind v tid) (val_bytes tid kind v)"
proof (cases v)
  case (V_sa a)
  then show ?thesis using assms writes_addr [OF assms(1), of a]
    by (auto simp: attr_value_encode_def val_ok_def val_bytes_def split: sa.splits intro!: writes_optI)
next
  case (V_err_code code r)
  have "writes (\<lambda>mb. or_then (or_then (or_then (mbuf_write_u16 al mb 0) (\<lambda>mb. mbuf_write_u8 al mb (ucast (code div 100))))
      (\<lambda>mb. mbuf_write_u8 al mb (ucast (code mod 100)))) (\<lambda>mb. mbuf_write_str al mb r))
      (((le16 0 @ [ucast (code div 100)]) @ [ucast (code mod 100)]) @ c_str r)"
    unfolding mbuf_write_str_def by (intro writes_or_then writes_ints writes_mem assms(1))
  then show ?thesis using V_err_code assms(2)
    by (auto simp: attr_value_encode_def val_ok_def val_bytes_def Let_def intro!: writes_optI)
next
  case (V_unknown_attr ts)
  then show ?thesis using assms writes_or_put [OF assms(1), of "map be16 ts"]
    by (auto simp: attr_value_encode_def val_ok_def val_bytes_def intro!: writes_optI)
next
  case (V_uint16 n)
  have "writes (\<lambda>mb. or_then (mbuf_write_u16 al mb (htons n)) (\<lambda>mb. mbuf_write_u16 al mb 0)) (le16 (htons n) @ le16 0)"
    by (intro writes_or_then writes_ints assms(1))
  then show ?thesis using V_uint16 assms(2) by (auto simp: attr_value_encode_def val_ok_def val_bytes_def intro!: writes_optI)
next
  case (V_uint8 n)
  have "writes (\<lambda>mb. or_then (or_then (mbuf_write_u8 al mb n) (\<lambda>mb. mbuf_write_u8 al mb 0)) (\<lambda>mb. mbuf_write_u16 al mb 0)) (([n] @ [0]) @ le16 0)"
    by (intro writes_or_then writes_ints assms(1))
  then show ?thesis using V_uint8 assms(2) by (auto simp: attr_value_encode_def val_ok_def val_bytes_def Let_def intro!: writes_optI)
qed (use assms writes_ints [OF assms(1)] writes_mem [OF assms(1)] writes_self in
  \<open>auto simp: attr_value_encode_def val_ok_def val_bytes_def mbuf_write_str_def bytes_left_def simp flip: le32_htonl le64_htonll intro!: writes_optI\<close>)

lemma mod4_cases: "n mod 4 = 0 \<or> n mod 4 = 1 \<or> n mod 4 = 2 \<or> n mod 4 = (3 :: nat)"
  using mod_less_divisor [of 4 n] by linarith

lemma pad4_0: "pad4 n = 0 \<Longrightarrow> n mod 4 = 0"
  using mod4_cases [of n] by (auto simp: pad4_def)

lemma pad4_Suc: "pad4 n = Suc k \<Longrightarrow> n mod 4 \<noteq> 0" "pad4 n = Suc k \<Longrightarrow> pad4 (Suc n) = k"
  using mod4_cases [of n] by (auto simp: pad4_def mod_Suc)

lemma int_mod4: "s \<le> p \<Longrightarrow> (int p - int s) mod 4 = int ((p - s) mod 4)"
  by (simp add: zmod_int of_nat_diff)

lemma writes_padding:
  assumes "mem_ok al"
  shows "mbuf_wf mb \<Longrightarrow> start \<le> mb_pos mb \<Longrightarrow> pad4 (mb_pos mb - start) = n \<Longrightarrow>
    \<exists>mb'. attr_padding al padding start e mb = Some (e, mb') \<and> wrote mb mb' (replicate n padding)"
proof (induction n arbitrary: mb)
  case 0
  then have "(int (mb_pos mb) - int start) mod 4 = 0" by (simp add: int_mod4 pad4_0)
  with 0 show ?case by (subst attr_padding.simps) (simp add: wrote_self)
next
  case (Suc n)
  then have m: "(int (mb_pos mb) - int start) mod 4 \<noteq> 0" by (simp add: int_mod4 pad4_Suc)
  obtain mb1 where w: "mbuf_write_u8 al mb padding = (OK, mb1)" "wrote mb mb1 [padding]"
    using writesD [OF writes_ints(1) [OF assms]] Suc.prems(1) by blast
  then have p: "mbuf_wf mb1" "mb_pos mb1 = Suc (mb_pos mb)" by (auto simp: wrote_def)
  have "pad4 (mb_pos mb1 - start) = n" using p(2) Suc.prems(2,3) pad4_Suc(2) by (simp add: Suc_diff_le)
  with Suc.IH [OF p(1)] p(2) Suc.prems(2) obtain mb2 where
    "attr_padding al padding start e mb1 = Some (e, mb2)" "wrote mb1 mb2 (replicate n padding)" by auto
  with w m wrote_trans [OF w(2)] show ?case by (subst attr_padding.simps) auto
qed

lemma encode_attr_wrote:
  assumes "mem_ok al" "val_ok (attr_kind t) v" "mbuf_wf mb" "mb_pos mb + length (attr_bytes tid padding (t, v)) < 2 ^ 64"
  shows "\<exists>mb'. stun_attr_encode al mb t v tid padding = Some (OK, mb') \<and> wrote mb mb' (attr_bytes tid padding (t, v))"
proof -
  define b where "b = val_bytes tid (attr_kind t) v"
  define hs where "hs = be16 t @ be16 (of_nat (length b))"
  have lhs: "length hs = 4" by (simp add: hs_def)
  obtain mb1 where v: "attr_value_encode al (mb\<lparr>mb_pos := mb_pos mb + 4\<rparr>) (attr_kind t) v tid = Some (OK, mb1)"
    "wrote (mb\<lparr>mb_pos := mb_pos mb + 4\<rparr>) mb1 b"
    using writes_value [OF assms(1,2), of tid] writesD [of _ b "mb\<lparr>mb_pos := mb_pos mb + 4\<rparr>"] assms(3) unfolding writes_opt_def b_def by fastforce
  then have p1: "mbuf_wf mb1" "mb_pos mb1 = mb_pos mb + 4 + length b" by (auto simp: wrote_def)
  have "writes (\<lambda>mb. or_then (mbuf_write_u16 al mb (htons t)) (\<lambda>mb. mbuf_write_u16 al mb (htons (of_nat (length b))))) (le16 (htons t) @ le16 (htons (of_nat (length b))))"
    by (intro writes_or_then writes_ints assms(1))
  from writesD [OF this, of "mb1\<lparr>mb_pos := mb_pos mb\<rparr>"] p1(1) obtain mb2 where
    h: "or_then (mbuf_write_u16 al (mb1\<lparr>mb_pos := mb_pos mb\<rparr>) (htons t)) (\<lambda>mb. mbuf_write_u16 al mb (htons (of_nat (length b)))) = (OK, mb2)"
    "wrote (mb1\<lparr>mb_pos := mb_pos mb\<rparr>) mb2 hs" by (auto simp: hs_def)
  define mb3 where "mb3 = mb2\<lparr>mb_pos := mb_pos mb + 4 + length b\<rparr>"
  have w3: "wrote mb mb3 (hs @ b)" using wrote_header [of "mb_pos mb" hs mb mb1 b mb2] v(2) h(2) lhs by (force simp: mb3_def)
  then have wf3: "mbuf_wf mb3" by (simp add: wrote_def)
  have adv: "mbuf_advance mb2 (int (length b)) = mb3"
    using h(2) assms(4) lhs by (simp add: mbuf_advance_def mb3_def wrote_def attr_bytes_def Let_def flip: b_def)
  obtain mb4 where p: "attr_padding al padding (mb_pos mb + 4) OK mb3 = Some (OK, mb4)" "wrote mb3 mb4 (replicate (pad4 (length b)) padding)"
    using writes_padding [OF assms(1) wf3, of "mb_pos mb + 4" "pad4 (length b)" padding OK] by (auto simp: mb3_def)
  have "stun_attr_encode al mb t v tid padding = Some (OK, mb4)"
    using v(1) p1(2) h(1) adv p(1) by (simp add: stun_attr_encode_def Let_def or_then_def split_def)
  moreover have "wrote mb mb4 (attr_bytes tid padding (t, v))"
    using wrote_trans [OF w3 p(2)] by (simp add: attr_bytes_def hs_def Let_def flip: b_def)
  ultimately show ?thesis by blast
qed

subsection \<open>Decoding an attribute\<close>

definition val_same :: "stun_val \<Rightarrow> stun_val \<Rightarrow> bool" where
  "val_same v w = (case (v, w) of (V_mb a, V_mb b) \<Rightarrow> bytes_left a = bytes_left b | _ \<Rightarrow> v = w)"

lemma val_same_self [simp]: "val_same v v"
  by (simp add: val_same_def split: stun_val.splits)

lemma xor_port_xor_port [simp]: "xor_port tid (xor_port tid p) = p"
  by (simp add: xor_port_def xor.assoc)

lemma xor_addr4_xor_addr4 [simp]: "xor_addr4 tid (xor_addr4 tid a) = a"
  by (simp add: xor_addr4_def xor.assoc)

lemma in6_xor_tid_twice: "length in6 = 16 \<Longrightarrow> length tid = 12 \<Longrightarrow> in6_xor_tid (in6_xor_tid in6 tid) tid = in6"
  unfolding in6_xor_tid_def by (rule nth_equalityI) (simp_all add: xor.assoc)

lemma length_in6_xor_tid: "length in6 = 16 \<Longrightarrow> length tid = 12 \<Longrightarrow> length (in6_xor_tid in6 tid) = 16"
  by (simp add: in6_xor_tid_def)

lemma mbuf_read_mem_after:
  assumes "mbuf_ok mb" "mb_after mb = b @ r" "length b = n"
  shows "mbuf_read_mem mb n = (OK, b, mb_adv mb n)" "mbuf_ok (mb_adv mb n)" "mb_after (mb_adv mb n) = r"
proof -
  have "n \<le> mbuf_get_left mb" using assms length_mb_after [of mb] by simp
  then show "mbuf_read_mem mb n = (OK, b, mb_adv mb n)" "mbuf_ok (mb_adv mb n)" "mb_after (mb_adv mb n) = r"
    using assms mb_adv [of mb n] by (simp_all add: mbuf_read_mem_adv)
qed

lemma addr_decode_bytes:
  assumes "mbuf_ok mb" "mb_after mb = addr_bytes tid a @ r" "val_ok K_xor_addr (V_sa a)" "tid = None \<or> (\<exists>t. tid = Some t \<and> length t = 12)"
  shows "stun_addr_decode mb tid = (OK, V_sa a, mb_adv mb (length (addr_bytes tid a)))"
proof (cases a)
  case (Sa_in i p)
  have a: "mb_after mb = 0 # 1 # be16 (xor_port tid p) @ be32 (xor_addr4 tid i) @ r" using assms(2) Sa_in by (simp add: addr_bytes_def)
  note r0 = mbuf_read_u8_after [OF assms(1) a]
  note r1 = mbuf_read_u8_after [OF r0(2,3)]
  note r2 = mbuf_read_u16_after [OF r1(2,3)]
  note r3 = mbuf_read_u32_after [OF r2(2,3)]
  have "4 \<le> mbuf_get_left mb" "4 \<le> mbuf_get_left (mb_adv mb 4)"
    using length_mb_after [OF assms(1)] length_mb_after [OF r2(2)] a r2(3) by (simp_all add: eval_nat_numeral)
  then show ?thesis using r0 r1 r2 r3 Sa_in by (simp add: stun_addr_decode_def addr_bytes_def Let_def eval_nat_numeral)
next
  case (Sa_in6 i p)
  have a: "mb_after mb = 0 # 2 # be16 (xor_port tid p) @ xor_addr6 tid i @ r" using assms(2) Sa_in6 by (simp add: addr_bytes_def)
  have l: "length (xor_addr6 tid i) = 16" "xor_addr6 tid (xor_addr6 tid i) = i"
    using assms(3,4) Sa_in6 by (auto simp: val_ok_def xor_addr6_def in6_xor_tid_twice length_in6_xor_tid)
  note r0 = mbuf_read_u8_after [OF assms(1) a]
  note r1 = mbuf_read_u8_after [OF r0(2,3)]
  note r2 = mbuf_read_u16_after [OF r1(2,3)]
  note r3 = mbuf_read_mem_after [OF r2(2,3) l(1)]
  have "4 \<le> mbuf_get_left mb" "16 \<le> mbuf_get_left (mb_adv mb 4)"
    using length_mb_after [OF assms(1)] length_mb_after [OF r2(2)] a l(1) r2(3) by (simp_all add: eval_nat_numeral)
  then show ?thesis using r0 r1 r2 r3 Sa_in6 l by (simp add: stun_addr_decode_def addr_bytes_def Let_def eval_nat_numeral)
next
  case (Sa_other p)
  then show ?thesis using assms(3) by (simp add: val_ok_def)
qed

lemma err_code_word:
  assumes "code < (800 :: u16)"
  shows "ucast ((ucast (code div 100) :: byte) AND 7) * 100 + ucast (ucast (code mod 100) :: byte) = code"
proof -
  have n: "unat code < 800" using assms by (simp add: word_less_nat_alt)
  then have q: "unat (code div 100) < 8" and m: "unat (code mod 100) < 100" by (simp_all add: unat_div unat_mod)
  have c: "ucast ((ucast (code div 100) :: byte) AND 7) = code div 100"
  proof (rule word_unat_eq_iff [THEN iffD2])
    have "unat (code div 100) AND 7 = unat (code div 100)"
      using q take_bit_nat_eq_self [of "unat (code div 100)" 3] by (simp add: take_bit_eq_mask mask_eq_exp_minus_1)
    then show "unat (ucast ((ucast (code div 100) :: byte) AND 7) :: u16) = unat (code div 100)"
      using q by (simp add: unsigned_ucast_eq unsigned_and_eq unsigned_take_bit_eq take_bit_nat_eq_self)
  qed
  have "ucast (ucast (code mod 100) :: byte) = code mod 100"
    using m by (intro word_unat_eq_iff [THEN iffD2]) (simp add: unsigned_ucast_eq unsigned_take_bit_eq take_bit_nat_eq_self)
  with c show ?thesis by (simp add: div_mult_mod_eq)
qed

lemma mbuf_read_u64_after:
  assumes "mbuf_ok mb" "mb_after mb = rev (le64 v) @ r"
  shows "mbuf_read_u64 mb = (sys_htonll v, mb_adv mb 8)"
  using mbuf_read_mem_after(1) [OF assms, of 8] by (simp add: mbuf_read_u64_def sys_htonll_def)

lemma sys_htonll_twice [simp]: "sys_htonll (sys_htonll v) = v"
  unfolding sys_htonll_def [of "sys_htonll v"] by simp

lemma read_unknown_bytes:
  "mbuf_ok mb \<Longrightarrow> mb_after mb = concat (map be16 ts) @ r \<Longrightarrow> length us + length ts \<le> 8 \<Longrightarrow>
     read_unknown (length ts) mb us = (us @ ts, mb_adv mb (2 * length ts))"
proof (induction ts arbitrary: mb us)
  case (Cons t ts)
  have a: "mb_after mb = be16 t @ concat (map be16 ts) @ r" using Cons.prems(2) by simp
  note rd = mbuf_read_u16_after [OF Cons.prems(1) a]
  show ?case using Cons.IH [OF rd(2,3), of "us @ [t]"] Cons.prems(3) rd(1) by simp
qed simp

lemma concat_be16_length [simp]: "length (concat (map be16 ts)) = 2 * length ts"
  by (induction ts) simp_all

lemma strdup_bytes:
  assumes "mem_ok al" "mbuf_ok mb" "mb_after mb = c_str s @ r" "str_ok s"
  shows "str_decode al mb (length (c_str s)) = (OK, s, mb_adv mb (length (c_str s)))"
proof -
  obtain junk where "al (length (c_str s) + 1) = Some junk" using assms(1) by (auto simp: mem_ok_def)
  then show ?thesis using mbuf_read_mem_after(1) [OF assms(2,3) refl] assms(2-4) length_mb_after [OF assms(2)]
    by (simp add: str_decode_def mbuf_strdup_def mem_alloc_def str_ok_def)
qed

lemma change_req_bits:
  "(drop_bit 2 (push_bit 2 (of_bool a) OR push_bit 1 (of_bool b) :: u32) AND 1 \<noteq> 0) = a"
  "(drop_bit 1 (push_bit 2 (of_bool a) OR push_bit 1 (of_bool b) :: u32) AND 1 \<noteq> 0) = b"
  by (cases a; cases b; simp)+

definition decodes_to :: "allocator \<Rightarrow> byte list \<Rightarrow> attr_kind \<Rightarrow> stun_val \<Rightarrow> mbuf \<Rightarrow> bool" where
  "decodes_to al tid kind v mb \<longleftrightarrow>
     (\<exists>w n. attr_value_decode al mb kind (length (val_bytes (Some tid) kind v)) (Some tid) = (OK, w, mb_adv mb n) \<and> val_same v w
        \<and> n + pad4 n = length (val_bytes (Some tid) kind v) + pad4 (length (val_bytes (Some tid) kind v)))"

lemma decodes_all:
  "attr_value_decode al mb kind (length (val_bytes (Some tid) kind v)) (Some tid) = (OK, v, mb_adv mb (length (val_bytes (Some tid) kind v)))
     \<Longrightarrow> decodes_to al tid kind v mb"
  unfolding decodes_to_def by (intro exI conjI) (assumption | simp)+

lemma decodes_err_code:
  assumes "mem_ok al" "mbuf_ok mb" "mb_after mb = val_bytes (Some tid) K_err_code (V_err_code code s) @ r" "code < 800" "str_ok s"
  shows "decodes_to al tid K_err_code (V_err_code code s) mb"
proof -
  let ?c = "ucast (code div 100) :: byte" and ?d = "ucast (code mod 100) :: byte"
  have a: "mb_after mb = [0, 0] @ ?c # ?d # c_str s @ r" using assms(3) by (simp add: val_bytes_def)
  note r0 = mbuf_read_mem_after [OF assms(2) a, of 2]
  have ok: "mbuf_ok (mb_adv mb 2)" "mb_after (mb_adv mb 2) = ?c # ?d # c_str s @ r" using r0 by simp_all
  note r1 = mbuf_read_u8_after [OF ok]
  note r2 = mbuf_read_u8_after [OF r1(2,3)]
  note r3 = strdup_bytes [OF assms(1) r2(2,3) assms(5)]
  have "mb\<lparr>mb_pos := mb_pos mb + 2\<rparr> = mb_adv mb 2" by (simp add: mb_adv_def)
  then show ?thesis unfolding decodes_to_def using r1(1) r2(1) r3 err_code_word [OF assms(4)]
    by (intro exI [of _ "V_err_code code s"] exI [of _ "4 + length (c_str s)"])
      (simp add: attr_value_decode_def val_bytes_def Let_def eval_nat_numeral)
qed

lemma take_eq_append: "take n xs = b @ r \<Longrightarrow> take (length b) xs = b"
proof -
  assume a: "take n xs = b @ r"
  have "length b \<le> n" using arg_cong [OF a, of length] by simp
  then have "take (length b) xs = take (length b) (take n xs)" by (simp add: min_def)
  with a show ?thesis by simp
qed

lemma decodes_value:
  assumes "mem_ok al" "mbuf_ok mb" "mb_after mb = val_bytes (Some tid) kind v @ r" "val_ok kind v" "length tid = 12"
  shows "decodes_to al tid kind v mb"
proof (cases v)
  case (V_sa a)
  then show ?thesis using assms addr_decode_bytes [of mb "if kind = K_addr then None else Some tid" a r]
    by (intro decodes_all) (auto simp: val_ok_def val_bytes_def attr_value_decode_def)
next
  case (V_str s)
  then show ?thesis using assms strdup_bytes [of al mb s r]
    by (intro decodes_all) (auto simp: val_ok_def val_bytes_def attr_value_decode_def)
next
  case (V_msg_integrity m)
  then show ?thesis using assms mbuf_read_mem_after(1) [OF assms(2), of m r 20]
    by (intro decodes_all) (auto simp: val_ok_def val_bytes_def attr_value_decode_def)
next
  case (V_err_code code s)
  then show ?thesis using assms decodes_err_code [of al mb tid code s r] by (auto simp: val_ok_def)
next
  case (V_unknown_attr ts)
  then show ?thesis using assms read_unknown_bytes [of mb ts r "[]"]
    by (intro decodes_all) (auto simp: val_ok_def val_bytes_def attr_value_decode_def)
next
  case (V_mb d)
  have "mb_after mb = bytes_left d @ r" using assms(3) V_mb by (simp add: val_bytes_def)
  then have "bytes_left (mb\<lparr>mb_end := mb_pos mb + length (bytes_left d)\<rparr>) = bytes_left d"
    by (simp add: bytes_left_def [of "mb\<lparr>mb_end := _\<rparr>"] mb_after_def mbuf_get_left_diff mbuf_buf_def take_eq_append)
  then show ?thesis using assms(4) V_mb
    by (auto simp: decodes_to_def val_ok_def val_bytes_def attr_value_decode_def val_same_def mb_adv_def intro!: exI [of _ "length (bytes_left d)"])
next
  case (V_uint16 n)
  then show ?thesis using assms mbuf_read_u16_after(1) [OF assms(2), of n "[0, 0] @ r"]
    by (auto simp: decodes_to_def val_ok_def val_bytes_def attr_value_decode_def pad4_def)
next
  case (V_uint8 n)
  then show ?thesis using assms mbuf_read_u8_after(1) [OF assms(2), of n "[0, 0, 0] @ r"]
    by (auto simp: decodes_to_def val_ok_def val_bytes_def attr_value_decode_def pad4_def)
next
  case (V_even_port n)
  then show ?thesis using assms mbuf_read_u8_after(1) [OF assms(2), of "push_bit 7 (of_bool n)" r]
    by (intro decodes_all) (auto simp: val_ok_def val_bytes_def attr_value_decode_def byte_flag bit_simps)
next
  case (V_uint32 n)
  then show ?thesis using assms mbuf_read_u32_after(1) [OF assms(2), of n r]
    by (intro decodes_all) (auto simp: val_ok_def val_bytes_def attr_value_decode_def)
next
  case (V_change_req a b)
  then show ?thesis using assms mbuf_read_u32_after(1) [OF assms(2), of _ r] change_req_bits [of a b]
    by (intro decodes_all) (auto simp: val_ok_def val_bytes_def attr_value_decode_def)
next
  case (V_uint64 n)
  then show ?thesis using assms mbuf_read_u64_after [OF assms(2), of n r]
    by (intro decodes_all) (auto simp: val_ok_def val_bytes_def attr_value_decode_def)
qed (use assms in \<open>auto simp: val_ok_def val_bytes_def attr_value_decode_def intro!: decodes_all\<close>)

lemma skip_padding_adv:
  "pad4 n = k \<Longrightarrow> k \<le> mbuf_get_left (mb_adv mb n) \<Longrightarrow> skip_padding (mb_pos mb) (mb_adv mb n) = mb_adv mb (n + k)"
proof (induction k arbitrary: n)
  case 0
  then show ?case by (subst skip_padding.simps) (simp add: mb_adv_def pad4_0)
next
  case (Suc k)
  have "mb_adv mb (Suc n) = (mb_adv mb n)\<lparr>mb_pos := mb_pos (mb_adv mb n) + 1\<rparr>" by (simp add: mb_adv_def)
  moreover have "k \<le> mbuf_get_left (mb_adv mb (Suc n))" using Suc.prems(2) by (simp add: mb_adv_left)
  ultimately show ?case using Suc.IH [of "Suc n"] Suc.prems pad4_Suc [OF Suc.prems(1)]
    by (subst skip_padding.simps) (simp add: mb_adv_def)
qed

definition attr_ok :: "u16 \<times> stun_val \<Rightarrow> bool" where
  "attr_ok a \<longleftrightarrow> val_ok (attr_kind (fst a)) (snd a)"

definition attr_same :: "u16 \<times> stun_val \<Rightarrow> stun_attr \<Rightarrow> bool" where
  "attr_same a b \<longleftrightarrow> sa_type b = fst a \<and> val_same (snd a) (sa_v b)"

lemma attr_decode_bytes:
  assumes "mem_ok al" "mbuf_ok mb" "mb_after mb = attr_bytes (Some tid) padding a @ r" "attr_ok a" "length tid = 12" "mem (mb_pos mb)"
    "length (attr_bytes (Some tid) padding a) < 2 ^ 16"
  shows "\<exists>b. stun_attr_decode al mem mb (Some tid) ua = (OK, Some b, mb_adv mb (length (attr_bytes (Some tid) padding a)), ua) \<and> attr_same a b"
proof -
  define b where "b = val_bytes (Some tid) (attr_kind (fst a)) (snd a)"
  have a: "mb_after mb = be16 (fst a) @ be16 (of_nat (length b)) @ b @ replicate (pad4 (length b)) padding @ r"
    using assms(3) by (simp add: attr_bytes_def Let_def flip: b_def)
  have len: "length (attr_bytes (Some tid) padding a) = 4 + length b + pad4 (length b)" by (simp add: attr_bytes_def Let_def flip: b_def)
  then have un: "unat (of_nat (length b) :: u16) = length b" using assms(7) by (simp add: unat_of_nat take_bit_nat_eq_self unsigned_of_nat)
  note r0 = mbuf_read_u16_after [OF assms(2) a]
  note r1 = mbuf_read_u16_after [OF r0(2,3)]
  have ok4: "mbuf_ok (mb_adv mb 4)" "mb_after (mb_adv mb 4) = b @ replicate (pad4 (length b)) padding @ r" using r1(2,3) by simp_all
  have "decodes_to al tid (attr_kind (fst a)) (snd a) (mb_adv mb 4)"
    using decodes_value [OF assms(1) ok4(1) ok4(2) [unfolded b_def]] assms(4,5) by (simp add: attr_ok_def)
  then obtain w n where v: "attr_value_decode al (mb_adv mb 4) (attr_kind (fst a)) (length b) (Some tid) = (OK, w, mb_adv mb (4 + n))"
    "val_same (snd a) w" "n + pad4 n = length b + pad4 (length b)" by (auto simp: decodes_to_def simp flip: b_def)
  have left: "mbuf_get_left (mb_adv mb 4) = length b + pad4 (length b) + length r" using length_mb_after [OF ok4(1)] ok4(2) by simp
  then have "pad4 n \<le> mbuf_get_left (mb_adv (mb_adv mb 4) n)" using v(3) by (simp add: mb_adv_left)
  from skip_padding_adv [OF refl this] have s: "skip_padding (mb_pos (mb_adv mb 4)) (mb_adv mb (4 + n)) = mb_adv mb (4 + length b + pad4 (length b))"
    using v(3) by (simp add: add.assoc)
  have "4 \<le> mbuf_get_left mb" using length_mb_after [OF assms(2)] a by simp
  moreover have "note_unknown (fst a) ua = ua" using assms(4) by (auto simp: note_unknown_def attr_ok_def val_ok_def split: stun_val.splits)
  ultimately show ?thesis using assms(6) r0(1) r1(1) un left v s len
    by (intro exI [of _ "\<lparr>sa_type = fst a, sa_v = w\<rparr>"]) (simp add: stun_attr_decode_def attr_same_def)
qed

definition attrs_bytes :: "byte list \<Rightarrow> byte \<Rightarrow> (u16 \<times> stun_val) list \<Rightarrow> byte list" where
  "attrs_bytes tid padding as = concat (map (attr_bytes (Some tid) padding) as)"

lemma size_sub_add [simp]: "n < 2 ^ 64 \<Longrightarrow> size_sub (n + k) k = n"
  by (simp add: size_sub_def)

lemma attr_bytes_ge: "4 \<le> length (attr_bytes tid padding a)"
  by (simp add: attr_bytes_def Let_def)

lemma msg_attrs_bytes:
  assumes "mem_ok al" "length tid = 12" "\<And>p. mem p"
  shows "mbuf_ok mb \<Longrightarrow> mb_after mb = attrs_bytes tid padding as @ r \<Longrightarrow> list_all attr_ok as \<Longrightarrow> length (attrs_bytes tid padding as) < 2 ^ 16 \<Longrightarrow>
    \<exists>bs. stun_msg_attrs al mem tid (length r) mb ua attrl = (OK, attrl @ bs, mb_adv mb (length (attrs_bytes tid padding as)), ua) \<and> list_all2 attr_same as bs"
proof (induction as arbitrary: mb attrl)
  case Nil
  then have "mbuf_get_left mb = length r" using length_mb_after [of mb] by (simp add: attrs_bytes_def)
  then show ?case using size_sub_add [of 0 "length r"] by (subst stun_msg_attrs.simps) (simp add: attrs_bytes_def)
next
  case (Cons a as)
  let ?n = "length (attr_bytes (Some tid) padding a)" and ?m = "length (attrs_bytes tid padding as)"
  have l: "length (attrs_bytes tid padding (a # as)) = ?n + ?m" by (simp add: attrs_bytes_def)
  have m: "mb_after mb = attr_bytes (Some tid) padding a @ attrs_bytes tid padding as @ r" using Cons.prems(2) by (simp add: attrs_bytes_def)
  have left: "mbuf_get_left mb = (?n + ?m) + length r" using length_mb_after [OF Cons.prems(1)] m by simp
  have "attr_ok a" using Cons.prems(3) by simp
  from attr_decode_bytes [of al mb tid padding a _ mem ua, OF assms(1) Cons.prems(1) m this assms(2,3)] Cons.prems(4) l
  obtain b where b: "stun_attr_decode al mem mb (Some tid) ua = (OK, Some b, mb_adv mb ?n, ua)" "attr_same a b" by auto
  have ok: "mbuf_ok (mb_adv mb ?n)" "mb_after (mb_adv mb ?n) = attrs_bytes tid padding as @ r" using mbuf_read_mem_after(2,3) [OF Cons.prems(1) m refl] .
  from Cons.IH [OF this, of "attrl @ [b]"] Cons.prems(3,4) l
  obtain bs where i: "stun_msg_attrs al mem tid (length r) (mb_adv mb ?n) ua (attrl @ [b]) = (OK, (attrl @ [b]) @ bs, mb_adv (mb_adv mb ?n) ?m, ua)" "list_all2 attr_same as bs" by auto
  have "size_sub (mbuf_get_left mb) (length r) = ?n + ?m" using left l Cons.prems(4) size_sub_add [of "?n + ?m" "length r"] by simp
  moreover have "4 \<le> ?n" by (rule attr_bytes_ge)
  ultimately show ?case using b i l by (subst stun_msg_attrs.simps) auto
qed

definition hdr_bytes :: "stun_hdr \<Rightarrow> byte list" where
  "hdr_bytes h = be16 (sh_type h) @ be16 (sh_len h) @ be32 (sh_cookie h) @ sh_tid h"

definition hdr_ok :: "stun_hdr \<Rightarrow> bool" where
  "hdr_ok h \<longleftrightarrow> sh_type h AND 0xc000 = 0 \<and> sh_len h AND 3 = 0 \<and> length (sh_tid h) = 12"

lemma hdr_decode_bytes:
  assumes "mbuf_ok mb" "mb_after mb = hdr_bytes h @ r" "hdr_ok h" "unat (sh_len h) \<le> length r"
  shows "stun_hdr_decode h0 mb = (OK, h, mb_adv mb 20)" "mbuf_ok (mb_adv mb 20)" "mb_after (mb_adv mb 20) = r"
proof -
  have a: "mb_after mb = be16 (sh_type h) @ be16 (sh_len h) @ be32 (sh_cookie h) @ sh_tid h @ r" using assms(2) by (simp add: hdr_bytes_def)
  have l: "length (sh_tid h) = 12" using assms(3) by (simp add: hdr_ok_def)
  note r0 = mbuf_read_u16_after [OF assms(1) a]
  note r1 = mbuf_read_u16_after [OF r0(2,3)]
  note r2 = mbuf_read_u32_after [OF r1(2,3)]
  note r3 = mbuf_read_mem_after [OF r2(2,3) l]
  show "mbuf_ok (mb_adv mb 20)" "mb_after (mb_adv mb 20) = r" using r3(2,3) by simp_all
  then have "mbuf_get_left (mb_adv mb 20) = length r" using length_mb_after by force
  moreover have "20 \<le> mbuf_get_left mb" using length_mb_after [OF assms(1)] a l by simp
  ultimately show "stun_hdr_decode h0 mb = (OK, h, mb_adv mb 20)"
    using assms(3,4) r0(1) r1(1) r2(1) r3(1) by (simp add: stun_hdr_decode_def hdr_ok_def STUN_HEADER_SIZE_def STUN_TID_SIZE_def)
qed

lemma type_mask: "(t :: u16) AND 0xc000 = 0 \<Longrightarrow> t AND 0x3fff = t"
proof -
  assume "t AND 0xc000 = 0"
  then have "t AND 0x3fff = (t AND 0xc000) OR (t AND 0x3fff)" by simp
  also have "\<dots> = t AND (0xc000 OR 0x3fff)" by (simp only: bit.conj_disj_distrib)
  also have "0xc000 OR 0x3fff = (-1 :: u16)" by simp
  finally show ?thesis by simp
qed

lemma writes_hdr: "mem_ok al \<Longrightarrow> hdr_ok h \<Longrightarrow> writes (\<lambda>mb. stun_hdr_encode al mb h) (hdr_bytes h)"
proof -
  assume a: "mem_ok al" "hdr_ok h"
  have "writes (\<lambda>mb. or_then (or_then (or_then (mbuf_write_u16 al mb (htons (sh_type h))) (\<lambda>mb. mbuf_write_u16 al mb (htons (sh_len h))))
      (\<lambda>mb. mbuf_write_u32 al mb (htonl (sh_cookie h)))) (\<lambda>mb. mbuf_write_mem al mb (sh_tid h)))
      (((le16 (htons (sh_type h)) @ le16 (htons (sh_len h))) @ le32 (htonl (sh_cookie h))) @ sh_tid h)"
    by (intro writes_or_then writes_ints writes_mem a)
  then show ?thesis using a(2) type_mask by (simp add: stun_hdr_encode_def hdr_bytes_def hdr_ok_def Let_def)
qed

section \<open>Messages on the wire\<close>

lemma and3_mod4: "(w :: u16) AND 3 = 0 \<longleftrightarrow> unat w mod 4 = 0"
proof -
  have "w AND 3 = take_bit 2 w" by (simp add: take_bit_eq_mask mask_eq_exp_minus_1)
  then have "unat (w AND 3) = unat w mod 4" by (simp add: take_bit_eq_mod unat_mod)
  then show ?thesis by (metis unsigned_0 word_unat_eq_iff)
qed

lemma pad4_aligned: "(n + pad4 n) mod 4 = 0"
  using mod4_cases [of n] by (auto simp: pad4_def mod_add_left_eq [symmetric, of n])

lemma attr_bytes_aligned: "length (attr_bytes tid padding a) mod 4 = 0"
  using pad4_aligned by (simp add: attr_bytes_def Let_def add.assoc)

lemma attrs_bytes_aligned: "length (attrs_bytes tid padding as) mod 4 = 0"
  using attr_bytes_aligned by (induction as) (auto simp: attrs_bytes_def mod_add_eq [symmetric])

lemma attrs_bytes_append: "attrs_bytes tid padding (as @ bs) = attrs_bytes tid padding as @ attrs_bytes tid padding bs"
  by (simp add: attrs_bytes_def)

lemma STUN_TYPE_top: "STUN_TYPE m c AND 0xc000 = 0"
  by (simp add: STUN_TYPE_def push_bit_and bit.conj_disj_distrib2 and.assoc)

definition msg_hdr :: "u16 \<Rightarrow> byte list \<Rightarrow> nat \<Rightarrow> stun_hdr" where
  "msg_hdr type tid n = \<lparr>sh_type = type, sh_len = of_nat n, sh_cookie = STUN_MAGIC_COOKIE, sh_tid = tid\<rparr>"

lemma unat_len: "n < 2 ^ 16 \<Longrightarrow> unat (of_nat n :: u16) = n"
  by (simp add: unsigned_of_nat take_bit_nat_eq_self)

lemma msg_hdr_ok: "length tid = 12 \<Longrightarrow> n < 2 ^ 16 \<Longrightarrow> n mod 4 = 0 \<Longrightarrow> hdr_ok (msg_hdr (STUN_TYPE m c) tid n)"
  by (simp add: hdr_ok_def msg_hdr_def STUN_TYPE_top and3_mod4 unat_len)

lemma length_hdr_bytes: "length (sh_tid h) = 12 \<Longrightarrow> length (hdr_bytes h) = 20"
  by (simp add: hdr_bytes_def)

subsection \<open>Decoding\<close>

lemma msg_decode_bytes:
  assumes "mem_ok al" "\<And>p. mem p" "mbuf_ok mb" "mb_after mb = hdr_bytes h @ attrs_bytes (sh_tid h) padding as @ r" "hdr_ok h"
    "unat (sh_len h) = length (attrs_bytes (sh_tid h) padding as)" "list_all attr_ok as"
  shows "\<exists>bs. stun_msg_decode al True mem mb ua =
      (OK, Some \<lparr>sm_hdr = h, sm_attrl = bs, sm_mb = mb, sm_start = mb_pos mb\<rparr>, mb, map_option (\<lambda>ts. []) ua) \<and> list_all2 attr_same as bs"
proof -
  note d = hdr_decode_bytes [OF assms(3,4,5)]
  have l: "length (sh_tid h) = 12" using assms(5) by (simp add: hdr_ok_def)
  have len: "length (attrs_bytes (sh_tid h) padding as) < 2 ^ 16" using assms(6) unsigned_less [of "sh_len h", where ?'a = nat] by simp
  have left: "mbuf_get_left (mb_adv mb 20) = unat (sh_len h) + length r" using length_mb_after [OF d(2)] d(3) assms(6) by simp
  from msg_attrs_bytes [of al "sh_tid h" mem "mb_adv mb 20" padding as r "map_option (\<lambda>ts. []) ua" "[]", OF assms(1) l assms(2) _ _ assms(7) len] d(2,3) assms(6)
  obtain bs where "stun_msg_attrs al mem (sh_tid h) (length r) (mb_adv mb 20) (map_option (\<lambda>ts. []) ua) [] =
      (OK, bs, mb_adv (mb_adv mb 20) (length (attrs_bytes (sh_tid h) padding as)), map_option (\<lambda>ts. []) ua)" "list_all2 attr_same as bs" by auto
  then show ?thesis using d(1) [of stun_hdr0] assms(6) left by (intro exI [of _ bs]) (simp add: stun_msg_decode_def mb_adv_def)
qed

subsection \<open>Encoding\<close>

text \<open>The attributes that the caller gives a value for.\<close>

definition given :: "(u16 \<times> stun_val option) list \<Rightarrow> (u16 \<times> stun_val) list" where
  "given as = concat (map (\<lambda>(t, v). case v of None \<Rightarrow> [] | Some v \<Rightarrow> [(t, v)]) as)"

lemma given_simps [simp]: "given [] = []" "given ((t, None) # as) = given as" "given ((t, Some v) # as) = (t, v) # given as"
  by (simp_all add: given_def)

lemma encode_attrs_wrote:
  assumes "mem_ok al"
  shows "mbuf_wf mb \<Longrightarrow> list_all attr_ok (given as) \<Longrightarrow> mb_pos mb + length (attrs_bytes tid padding (given as)) < 2 ^ 64 \<Longrightarrow>
    \<exists>mb'. encode_attrs al (Some tid) padding as (OK, mb) = Some (OK, mb') \<and> wrote mb mb' (attrs_bytes tid padding (given as))"
proof (induction as arbitrary: mb)
  case Nil
  then show ?case by (simp add: attrs_bytes_def wrote_self)
next
  case (Cons a as)
  obtain t v where a: "a = (t, v)" by (cases a)
  show ?case
  proof (cases v)
    case None
    with Cons a show ?thesis by (simp add: encode_attr_def)
  next
    case (Some w)
    have l: "attrs_bytes tid padding (given (a # as)) = attr_bytes (Some tid) padding (t, w) @ attrs_bytes tid padding (given as)"
      by (simp add: a Some attrs_bytes_def)
    obtain mb1 where m1: "stun_attr_encode al mb t w (Some tid) padding = Some (OK, mb1)" "wrote mb mb1 (attr_bytes (Some tid) padding (t, w))"
      using encode_attr_wrote [OF assms, of t w mb "Some tid" padding] Cons.prems a Some l by (auto simp: attr_ok_def)
    then have "mbuf_wf mb1" "mb_pos mb1 = mb_pos mb + length (attr_bytes (Some tid) padding (t, w))" by (auto simp: wrote_def)
    with Cons.IH [of mb1] Cons.prems(2,3) l obtain mb2 where
      "encode_attrs al (Some tid) padding as (OK, mb1) = Some (OK, mb2)" "wrote mb1 mb2 (attrs_bytes tid padding (given as))"
      by (auto simp: a Some)
    with m1 wrote_trans [OF m1(2)] show ?thesis unfolding l by (simp add: a Some encode_attr_def)
  qed
qed

lemma attr_bytes_tid: "attr_ok a \<Longrightarrow> attr_kind (fst a) \<noteq> K_xor_addr \<Longrightarrow> attr_bytes t1 padding a = attr_bytes t2 padding a"
  by (auto simp: attr_bytes_def attr_ok_def val_ok_def val_bytes_def split: stun_val.splits)

lemma wrote_over:
  assumes "wrote mb mb1 (hs @ vs)" "wrote (mb1\<lparr>mb_pos := mb_pos mb\<rparr>) mb2 hs'" "length hs' = length hs" "hs \<noteq> []"
  shows "wrote mb (mb2\<lparr>mb_pos := mb_pos mb + length hs + length vs\<rparr>) (hs' @ vs)"
proof -
  have "at_pos mb2 (mb_pos mb + length hs) vs"
    using wrote_frame [OF assms(2), of "mb_pos mb + length hs" vs] assms(1,3) by (auto simp: wrote_def at_pos_append)
  then show ?thesis using assms by (auto simp: wrote_def at_pos_append)
qed

lemma wrote_bytes_left:
  assumes "wrote mb mb' bs" "bs \<noteq> []" "mb_end mb \<le> mb_pos mb"
  shows "bytes_left (mb'\<lparr>mb_pos := mb_pos mb\<rparr>) = bs" "mb_end mb' = mb_pos mb'"
proof -
  show e: "mb_end mb' = mb_pos mb'" using assms by (auto simp: wrote_def)
  then show "bytes_left (mb'\<lparr>mb_pos := mb_pos mb\<rparr>) = bs"
    using assms(1) by (simp add: bytes_left_def wrote_def at_pos_def mbuf_get_left_diff mbuf_buf_def)
qed

lemmas stun_attr_types =
  STUN_ATTR_MAPPED_ADDR_def STUN_ATTR_CHANGE_REQ_def STUN_ATTR_USERNAME_def STUN_ATTR_MSG_INTEGRITY_def STUN_ATTR_ERR_CODE_def
  STUN_ATTR_UNKNOWN_ATTR_def STUN_ATTR_CHANNEL_NUMBER_def STUN_ATTR_LIFETIME_def STUN_ATTR_XOR_PEER_ADDR_def STUN_ATTR_DATA_def
  STUN_ATTR_REALM_def STUN_ATTR_NONCE_def STUN_ATTR_XOR_RELAY_ADDR_def STUN_ATTR_REQ_ADDR_FAMILY_def STUN_ATTR_EVEN_PORT_def
  STUN_ATTR_REQ_TRANSPORT_def STUN_ATTR_DONT_FRAGMENT_def STUN_ATTR_XOR_MAPPED_ADDR_def STUN_ATTR_RSV_TOKEN_def
  STUN_ATTR_PRIORITY_def STUN_ATTR_USE_CAND_def STUN_ATTR_PADDING_def STUN_ATTR_RESP_PORT_def STUN_ATTR_SOFTWARE_def
  STUN_ATTR_ALT_SERVER_def STUN_ATTR_FINGERPRINT_def STUN_ATTR_CONTROLLED_def STUN_ATTR_CONTROLLING_def STUN_ATTR_RESP_ORIGIN_def
  STUN_ATTR_OTHER_ADDR_def

lemma attr_kinds [simp]:
  "attr_kind STUN_ATTR_MSG_INTEGRITY = K_integrity" "attr_kind STUN_ATTR_FINGERPRINT = K_uint32" "attr_kind STUN_ATTR_ERR_CODE = K_err_code"
  by (simp_all add: attr_kind_def stun_attr_types)

definition mi_attr :: "byte list \<Rightarrow> u16 \<times> stun_val" where
  "mi_attr m = (STUN_ATTR_MSG_INTEGRITY, V_msg_integrity m)"

definition fp_attr :: "u32 \<Rightarrow> u16 \<times> stun_val" where
  "fp_attr n = (STUN_ATTR_FINGERPRINT, V_uint32 n)"

lemma tail_attrs_ok: "length m = 20 \<Longrightarrow> attr_ok (mi_attr m)" "attr_ok (fp_attr n)"
  by (simp_all add: attr_ok_def mi_attr_def fp_attr_def val_ok_def)

lemma tail_attrs_length: "length m = 20 \<Longrightarrow> length (attr_bytes tid padding (mi_attr m)) = 24" "length (attr_bytes tid padding (fp_attr n)) = 8"
  by (simp_all add: attr_bytes_def mi_attr_def fp_attr_def val_bytes_def pad4_def)

lemma encode_tail_wrote:
  assumes "mem_ok al" "attr_ok (t, v)" "attr_kind t \<noteq> K_xor_addr" "mbuf_wf mb" "mb_pos mb + length (attr_bytes (Some tid) padding (t, v)) < 2 ^ 64"
  shows "\<exists>mb'. encode_attr al None padding (t, Some v) (OK, mb) = Some (OK, mb') \<and> wrote mb mb' (attr_bytes (Some tid) padding (t, v))"
  using encode_attr_wrote [OF assms(1), of t v mb None padding] assms attr_bytes_tid [of "(t, v)" None padding "Some tid"]
  by (auto simp: encode_attr_def attr_ok_def)

lemma mb_pos_same: "mb_pos mb = p \<Longrightarrow> mb\<lparr>mb_pos := p\<rparr> = mb"
  by auto

lemma encode_integrity_wrote:
  assumes "mem_ok al" "length (hmac k (hdr_bytes h @ B)) = 20" "wrote mb mb1 (hdr_bytes h @ B)" "mb_end mb \<le> mb_pos mb" "length (sh_tid h) = 12"
    "unat (sh_len h) = length B + 24" "mb_pos mb + 44 + length B < 2 ^ 64"
  shows "\<exists>mb2. encode_integrity al hmac padding (mb_pos mb) h k (OK, mb1) = Some (OK, mb2)
    \<and> wrote mb mb2 (hdr_bytes h @ B @ attr_bytes (Some tid) padding (mi_attr (hmac k (hdr_bytes h @ B))))"
proof -
  let ?m = "hmac k (hdr_bytes h @ B)"
  have h: "length (hdr_bytes h) = 20" using assms(5) by (rule length_hdr_bytes)
  have p: "mb_pos mb1 = mb_pos mb + 20 + length B" "mbuf_wf mb1" using assms(3) h by (auto simp: wrote_def)
  have bl: "bytes_left (mb1\<lparr>mb_pos := mb_pos mb\<rparr>) = hdr_bytes h @ B" using wrote_bytes_left(1) [OF assms(3) _ assms(4)] h by fastforce
  have u: "uint (sh_len h) = int (length B) + 24" using arg_cong [OF assms(6), of int] by simp
  have adv: "mbuf_advance (mb1\<lparr>mb_pos := mb_pos mb\<rparr>) (int STUN_HEADER_SIZE + uint (sh_len h) - int MI_SIZE) = mb1"
    using u assms(7) p(1) by (simp add: mbuf_advance_def STUN_HEADER_SIZE_def MI_SIZE_def mb_pos_same)
  obtain mb2 where "encode_attr al None padding (STUN_ATTR_MSG_INTEGRITY, Some (V_msg_integrity ?m)) (OK, mb1) = Some (OK, mb2)"
    "wrote mb1 mb2 (attr_bytes (Some tid) padding (mi_attr ?m))"
    using encode_tail_wrote [OF assms(1), of STUN_ATTR_MSG_INTEGRITY "V_msg_integrity ?m" mb1 tid padding] tail_attrs_ok(1) [OF assms(2)]
      tail_attrs_length(1) [OF assms(2), of "Some tid" padding] p assms(7) by (auto simp: mi_attr_def)
  with wrote_trans [OF assms(3)] show ?thesis using bl adv by (auto simp: encode_integrity_def)
qed

lemma encode_fingerprint_wrote:
  assumes "mem_ok al" "wrote mb mb1 (hdr_bytes h @ C)" "mb_end mb \<le> mb_pos mb" "hdr_ok h" "length C mod 4 = 0" "length C + 8 < 2 ^ 16"
    "mb_pos mb + 28 + length C < 2 ^ 64"
  defines "h' \<equiv> h\<lparr>sh_len := of_nat (length C + 8)\<rparr>"
  shows "\<exists>mb2. encode_fingerprint al padding (mb_pos mb) h (OK, mb1) = Some (OK, mb2)
    \<and> wrote mb mb2 (hdr_bytes h' @ C @ attr_bytes (Some tid) padding (fp_attr (fingerprint (hdr_bytes h' @ C))))"
proof -
  have l: "length (sh_tid h) = 12" "length (sh_tid h') = 12" using assms(4) by (simp_all add: hdr_ok_def h'_def)
  have h: "length (hdr_bytes h) = 20" "length (hdr_bytes h') = 20" using length_hdr_bytes l by simp_all
  have ok': "hdr_ok h'" using assms(4-6) by (simp add: hdr_ok_def h'_def and3_mod4 unat_len mod_add_eq [symmetric] del: of_nat_add)
  have p: "mb_pos mb1 = mb_pos mb + 20 + length C" "mbuf_wf mb1" using assms(2) h by (auto simp: wrote_def)
  have hl: "h\<lparr>sh_len := of_int (int (mb_pos mb1) - int (mb_pos mb) - int STUN_HEADER_SIZE + int FP_SIZE)\<rparr> = h'"
    using p(1) by (simp add: h'_def STUN_HEADER_SIZE_def FP_SIZE_def)
  obtain mb2 where e: "stun_hdr_encode al (mb1\<lparr>mb_pos := mb_pos mb\<rparr>) h' = (OK, mb2)" "wrote (mb1\<lparr>mb_pos := mb_pos mb\<rparr>) mb2 (hdr_bytes h')"
    using writesD [OF writes_hdr [OF assms(1) ok'], of "mb1\<lparr>mb_pos := mb_pos mb\<rparr>"] p(2) by auto
  define mb3 where "mb3 = mb2\<lparr>mb_pos := mb_pos mb + 20 + length C\<rparr>"
  have w: "wrote mb mb3 (hdr_bytes h' @ C)" using wrote_over [OF assms(2) e(2)] h by (fastforce simp: mb3_def)
  then have p3: "mb_pos mb3 = mb_pos mb + 20 + length C" "mbuf_wf mb3" using h by (auto simp: wrote_def)
  have bl: "bytes_left (mb2\<lparr>mb_pos := mb_pos mb\<rparr>) = hdr_bytes h' @ C" using wrote_bytes_left(1) [OF w _ assms(3)] h by (fastforce simp: mb3_def)
  have u: "uint (sh_len h') = int (length C) + 8" using arg_cong [OF unat_len [OF assms(6)], of int] by (simp add: h'_def)
  have adv: "mbuf_advance (mb2\<lparr>mb_pos := mb_pos mb\<rparr>) (int STUN_HEADER_SIZE + uint (sh_len h') - int FP_SIZE) = mb3"
    using u assms(7) by (simp add: mbuf_advance_def mb3_def STUN_HEADER_SIZE_def FP_SIZE_def)
  let ?n = "fingerprint (hdr_bytes h' @ C)"
  obtain mb4 where "encode_attr al None padding (STUN_ATTR_FINGERPRINT, Some (V_uint32 ?n)) (OK, mb3) = Some (OK, mb4)"
    "wrote mb3 mb4 (attr_bytes (Some tid) padding (fp_attr ?n))"
    using encode_tail_wrote [OF assms(1), of STUN_ATTR_FINGERPRINT "V_uint32 ?n" mb3 tid padding] tail_attrs_ok(2) [of ?n]
      tail_attrs_length(2) [of "Some tid" padding ?n] p3 assms(7) by (auto simp: fp_attr_def)
  with wrote_trans [OF w] show ?thesis using bl adv e(1) hl by (auto simp: encode_fingerprint_def Let_def)
qed

definition tail_attrs :: "(byte list \<Rightarrow> byte list \<Rightarrow> byte list) \<Rightarrow> byte list option \<Rightarrow> bool \<Rightarrow> u16 \<Rightarrow> byte list \<Rightarrow> byte \<Rightarrow> byte list \<Rightarrow> (u16 \<times> stun_val) list" where
  "tail_attrs hmac key fp type tid padding B =
     (let mi = (case key of None \<Rightarrow> [] | Some k \<Rightarrow> [mi_attr (hmac k (hdr_bytes (msg_hdr type tid (length B + 24)) @ B))]);
          C = B @ attrs_bytes tid padding mi
      in mi @ (if fp then [fp_attr (fingerprint (hdr_bytes (msg_hdr type tid (length C + 8)) @ C))] else []))"

definition msg_bytes :: "u16 \<Rightarrow> byte list \<Rightarrow> byte list \<Rightarrow> byte list" where
  "msg_bytes type tid A = hdr_bytes (msg_hdr type tid (length A)) @ A"

lemma encode_body_wrote:
  assumes "mem_ok al" "mbuf_wf mb" "list_all attr_ok (given ((STUN_ATTR_ERR_CODE, ec) # attrs))"
    "mb_pos mb + 20 + length (attrs_bytes tid padding (given ((STUN_ATTR_ERR_CODE, ec) # attrs))) < 2 ^ 64"
  shows "\<exists>r mb1. encode_attr al None padding (STUN_ATTR_ERR_CODE, ec) (OK, mb\<lparr>mb_pos := mb_pos mb + 20\<rparr>) = Some r
    \<and> encode_attrs al (Some tid) padding attrs r = Some (OK, mb1)
    \<and> wrote (mb\<lparr>mb_pos := mb_pos mb + 20\<rparr>) mb1 (attrs_bytes tid padding (given ((STUN_ATTR_ERR_CODE, ec) # attrs)))"
proof (cases ec)
  case None
  then show ?thesis using encode_attrs_wrote [OF assms(1), of "mb\<lparr>mb_pos := mb_pos mb + 20\<rparr>" attrs tid padding] assms by (simp add: encode_attr_def)
next
  case (Some v)
  let ?a = "(STUN_ATTR_ERR_CODE, v)" and ?mb = "mb\<lparr>mb_pos := mb_pos mb + 20\<rparr>"
  have l: "attrs_bytes tid padding (given ((STUN_ATTR_ERR_CODE, ec) # attrs)) = attr_bytes (Some tid) padding ?a @ attrs_bytes tid padding (given attrs)"
    by (simp add: Some attrs_bytes_def)
  obtain mb1 where m: "encode_attr al None padding (STUN_ATTR_ERR_CODE, ec) (OK, ?mb) = Some (OK, mb1)" "wrote ?mb mb1 (attr_bytes (Some tid) padding ?a)"
    using encode_tail_wrote [OF assms(1), of STUN_ATTR_ERR_CODE v ?mb tid padding] assms Some l by auto
  then have "mbuf_wf mb1" "mb_pos mb1 = mb_pos mb + 20 + length (attr_bytes (Some tid) padding ?a)" by (auto simp: wrote_def)
  with encode_attrs_wrote [OF assms(1), of mb1 attrs tid padding] assms(3,4) l obtain mb2 where
    "encode_attrs al (Some tid) padding attrs (OK, mb1) = Some (OK, mb2)" "wrote mb1 mb2 (attrs_bytes tid padding (given attrs))"
    by (auto simp: Some)
  with m wrote_trans [OF m(2)] show ?thesis unfolding l by blast
qed

lemma encode_tail:
  assumes "mem_ok al" "\<And>k x. length (hmac k x) = 20" "wrote mb mb3 (hdr_bytes h @ B)" and h: "h = msg_hdr type tid (length B + (if key = None then 0 else 24))"
    and "mb_end mb \<le> mb_pos mb" "hdr_ok h" "length B + 32 < 2 ^ 16" "mb_pos mb + 2 ^ 17 < 2 ^ 64" "length B mod 4 = 0"
  shows "\<exists>mb'. (case (case key of None \<Rightarrow> Some (OK, mb3) | Some k \<Rightarrow> encode_integrity al hmac padding (mb_pos mb) h k (OK, mb3)) of
         None \<Rightarrow> None | Some r \<Rightarrow> if fp then encode_fingerprint al padding (mb_pos mb) h r else Some r) = Some (OK, mb')
    \<and> wrote mb mb' (msg_bytes type tid (B @ attrs_bytes tid padding (tail_attrs hmac key fp type tid padding B)))"
proof -
  define mi where "mi = (case key of None \<Rightarrow> [] | Some k \<Rightarrow> [mi_attr (hmac k (hdr_bytes (msg_hdr type tid (length B + 24)) @ B))])"
  define C where "C = B @ attrs_bytes tid padding mi"
  have lmi: "length (attrs_bytes tid padding mi) = (if key = None then 0 else 24)"
    using tail_attrs_length(1) [OF assms(2)] by (auto simp: mi_def attrs_bytes_def split: option.splits)
  have hC: "h = msg_hdr type tid (length C)" using lmi by (simp add: h C_def)
  have lh: "length (sh_tid h) = 12" using assms(6) by (simp add: hdr_ok_def)
  have u: "unat (sh_len h) = length B + (if key = None then 0 else 24)" using assms(7) unat_len [of "length B + (if key = None then 0 else 24)"] by (simp add: h msg_hdr_def split: if_splits)
  have "\<exists>mb4. (case key of None \<Rightarrow> Some (OK, mb3) | Some k \<Rightarrow> encode_integrity al hmac padding (mb_pos mb) h k (OK, mb3)) = Some (OK, mb4)
      \<and> wrote mb mb4 (hdr_bytes h @ C)"
  proof (cases key)
    case None
    then show ?thesis using assms(3) by (simp add: C_def mi_def attrs_bytes_def)
  next
    case (Some k)
    then have "hdr_bytes h @ C = hdr_bytes h @ B @ attr_bytes (Some tid) padding (mi_attr (hmac k (hdr_bytes h @ B)))"
      by (simp add: C_def mi_def attrs_bytes_def h)
    then show ?thesis using encode_integrity_wrote [of al hmac k h B mb mb3 padding tid, OF assms(1,2,3,5) lh] Some u assms(7,8) by simp
  qed
  then obtain mb4 where m4: "(case key of None \<Rightarrow> Some (OK, mb3) | Some k \<Rightarrow> encode_integrity al hmac padding (mb_pos mb) h k (OK, mb3)) = Some (OK, mb4)"
    "wrote mb mb4 (hdr_bytes h @ C)" by blast
  have ta: "tail_attrs hmac key fp type tid padding B = mi @ (if fp then [fp_attr (fingerprint (hdr_bytes (msg_hdr type tid (length C + 8)) @ C))] else [])"
    by (simp add: tail_attrs_def Let_def mi_def C_def)
  show ?thesis
  proof (cases fp)
    case False
    then show ?thesis using m4 ta by (simp add: msg_bytes_def C_def hC)
  next
    case True
    have h': "h\<lparr>sh_len := of_nat (length C + 8)\<rparr> = msg_hdr type tid (length C + 8)" by (simp add: hC msg_hdr_def)
    have "length C mod 4 = 0" "length C + 8 < 2 ^ 16" "mb_pos mb + 28 + length C < 2 ^ 64"
      using assms(7-9) lmi by (simp_all add: C_def mod_add_eq [symmetric])
    from encode_fingerprint_wrote [OF assms(1) m4(2) assms(5,6) this, of padding tid] True m4(1) ta show ?thesis
      unfolding h' by (simp add: msg_bytes_def attrs_bytes_append C_def attrs_bytes_def [of _ _ "[_]"] tail_attrs_length(2) add.assoc)
  qed
qed

lemma encode_msg_wrote:
  assumes "mem_ok al" "\<And>k x. length (hmac k x) = 20" "mbuf_wf mb" "mb_end mb \<le> mb_pos mb" "length tid = 12"
    "list_all attr_ok (given ((STUN_ATTR_ERR_CODE, ec) # attrs))" "mb_pos mb + 2 ^ 17 < 2 ^ 64"
    and B_def: "B = attrs_bytes tid padding (given ((STUN_ATTR_ERR_CODE, ec) # attrs))" and type_def: "type = STUN_TYPE met cls"
    and lB: "length B + 32 < 2 ^ 16"
  shows "\<exists>mb'. stun_msg_vencode al hmac mb met cls tid ec key fp padding attrs = Some (OK, mb')
    \<and> wrote mb mb' (msg_bytes type tid (B @ attrs_bytes tid padding (tail_attrs hmac key fp type tid padding B)))"
proof -
  have alB: "length B mod 4 = 0" unfolding B_def by (rule attrs_bytes_aligned)
  define mis where "mis = (if key = None then 0 else MI_SIZE)"
  have mis: "mis = (if key = None then 0 else 24)" by (simp add: mis_def MI_SIZE_def)
  define h where "h = msg_hdr type tid (length B + mis)"
  have hok: "hdr_ok h" using msg_hdr_ok [OF assms(5), of "length B + mis" met cls] alB lB
    by (auto simp: h_def type_def mis mod_add_eq [symmetric] split: if_splits)
  then have lh: "length (sh_tid h) = 12" "length (hdr_bytes h) = 20" using length_hdr_bytes by (auto simp: hdr_ok_def)
  have uh: "unat (sh_len h) = length B + mis" using lB unat_len [of "length B + mis"] by (auto simp: h_def msg_hdr_def mis)
  obtain r mb1 where e1: "encode_attr al None padding (STUN_ATTR_ERR_CODE, ec) (OK, mb\<lparr>mb_pos := mb_pos mb + 20\<rparr>) = Some r"
    "encode_attrs al (Some tid) padding attrs r = Some (OK, mb1)" "wrote (mb\<lparr>mb_pos := mb_pos mb + 20\<rparr>) mb1 B"
    using encode_body_wrote [OF assms(1,3,6), of tid padding] assms(7) lB by (auto simp: B_def)
  then have p1: "mb_pos mb1 = mb_pos mb + 20 + length B" "mbuf_wf mb1" by (auto simp: wrote_def)
  obtain mb2 where e2: "stun_hdr_encode al (mb1\<lparr>mb_pos := mb_pos mb\<rparr>) h = (OK, mb2)" "wrote (mb1\<lparr>mb_pos := mb_pos mb\<rparr>) mb2 (hdr_bytes h)"
    using writesD [OF writes_hdr [OF assms(1) hok], of "mb1\<lparr>mb_pos := mb_pos mb\<rparr>"] p1(2) by auto
  define mb3 where "mb3 = mb2\<lparr>mb_pos := mb_pos mb + 20 + length B\<rparr>"
  have w3: "wrote mb mb3 (hdr_bytes h @ B)"
    using wrote_header [of "mb_pos mb" "hdr_bytes h" mb mb1 B mb2] e1(3) e2(2) lh(2) by (force simp: mb3_def)
  have adv: "mbuf_advance mb2 (uint (sh_len h) - int mis) = mb3"
    using arg_cong [OF uh, of int] e2(2) lh(2) assms(7) lB by (simp add: mbuf_advance_def mb3_def wrote_def)
  have hl: "\<lparr>sh_type = STUN_TYPE met cls, sh_len = 0, sh_cookie = STUN_MAGIC_COOKIE, sh_tid = tid\<rparr>
      \<lparr>sh_len := of_int (int (mb_pos mb1) - int (mb_pos mb) - int 20 + int mis)\<rparr> = h" using p1(1) by (simp add: h_def msg_hdr_def type_def)
  have "stun_msg_vencode al hmac mb met cls tid ec key fp padding attrs =
      (case (case key of None \<Rightarrow> Some (OK, mb3) | Some k \<Rightarrow> encode_integrity al hmac padding (mb_pos mb) h k (OK, mb3)) of
         None \<Rightarrow> None | Some r \<Rightarrow> if fp then encode_fingerprint al padding (mb_pos mb) h r else Some r)"
    by (simp only: stun_msg_vencode_def Let_def STUN_HEADER_SIZE_def e1(1,2) option.case prod.case mis_def [symmetric] hl or_then_pair e2(1) adv or.right_neutral)
  then show ?thesis
    using encode_tail [of al hmac mb mb3 h B type tid key fp padding, OF assms(1,2) w3 _ assms(4) hok] mis uh lB assms(7) alB by (simp add: h_def)
qed

subsection \<open>Checking\<close>

lemma poke_poke_append:
  "i + length as + length bs \<le> length xs \<Longrightarrow> poke (i + length as) bs (poke i as xs) = poke i (as @ bs) xs"
  by (cases as) (auto simp: poke_def min_def ac_simps)

lemma poke_same: "take (length as) (drop i xs) = as \<Longrightarrow> i + length as \<le> length xs \<Longrightarrow> length bs = length as \<Longrightarrow> poke i as (poke i bs xs) = xs"
proof -
  assume a: "take (length as) (drop i xs) = as" "i + length as \<le> length xs" "length bs = length as"
  have "poke i as (poke i bs xs) = take i xs @ as @ drop (i + length as) xs" using a(2,3) by (simp add: poke_def)
  also have "\<dots> = xs" using a(1,2) take_drop_append_drop [of i "length as" xs] by simp
  finally show ?thesis .
qed

lemma write_room_poke:
  "mb_pos mb + length bs \<le> mb_end mb \<Longrightarrow> mb_end mb \<le> mb_size mb \<Longrightarrow>
     mbuf_write_mem al mb bs = (OK, mb\<lparr>mb_buf := poke (mb_pos mb) bs (mb_buf mb), mb_pos := mb_pos mb + length bs\<rparr>)"
  by (simp add: mbuf_write_mem_def mbuf_grow_def max_def)

lemma or_put_room_poke:
  "mb_pos mb + length (concat cs) \<le> mb_end mb \<Longrightarrow> mbuf_wf mb \<Longrightarrow>
     or_put (mbuf_write_mem al) mb cs = (OK, mb\<lparr>mb_buf := poke (mb_pos mb) (concat cs) (mb_buf mb), mb_pos := mb_pos mb + length (concat cs)\<rparr>)"
proof (induction cs arbitrary: mb)
  case (Cons c cs)
  have s: "mb_end mb \<le> mb_size mb" "length (mb_buf mb) = mb_size mb" using Cons.prems(2) by (auto simp: mbuf_wf_def)
  note w = write_room_poke [of mb c al]
  let ?mb = "mb\<lparr>mb_buf := poke (mb_pos mb) c (mb_buf mb), mb_pos := mb_pos mb + length c\<rparr>"
  have "mbuf_wf ?mb" using s Cons.prems(1) by (simp add: mbuf_wf_def)
  with Cons.IH [of ?mb] Cons.prems(1) w s show ?case by (simp add: poke_poke_append add.assoc)
qed (simp add: poke_def mb_pos_same)

lemma hdr_encode_room:
  assumes "mbuf_wf mb" "mb_pos mb + 20 \<le> mb_end mb" "hdr_ok h"
  shows "stun_hdr_encode al mb h = (OK, mb\<lparr>mb_buf := poke (mb_pos mb) (hdr_bytes h) (mb_buf mb), mb_pos := mb_pos mb + 20\<rparr>)"
proof -
  let ?cs = "[be16 (sh_type h), be16 (sh_len h), be32 (sh_cookie h), sh_tid h]"
  have c: "concat ?cs = hdr_bytes h" by (simp add: hdr_bytes_def)
  have l: "length (hdr_bytes h) = 20" using assms(3) length_hdr_bytes by (simp add: hdr_ok_def)
  have "stun_hdr_encode al mb h = or_put (mbuf_write_mem al) mb ?cs"
    using assms(3) type_mask [of "sh_type h"]
    by (simp add: stun_hdr_encode_def hdr_ok_def mbuf_write_u16_def mbuf_write_u32_def or_then_def Let_def split_def or.assoc)
  with or_put_room_poke [of mb ?cs al] assms(1,2) c l show ?thesis by (simp del: or_put.simps concat.simps)
qed

lemma set_len_room:
  assumes "mbuf_wf mb" "mb_pos mb + 20 \<le> mb_end mb" "mb_end mb < 2 ^ 64" "hdr_ok (h\<lparr>sh_len := sh_len h + of_int d\<rparr>)"
  shows "set_len al d h mb = (h\<lparr>sh_len := sh_len h + of_int d\<rparr>, mb\<lparr>mb_buf := poke (mb_pos mb) (hdr_bytes (h\<lparr>sh_len := sh_len h + of_int d\<rparr>)) (mb_buf mb)\<rparr>)"
  using hdr_encode_room [OF assms(1,2,4)] assms(2,3)
  by (simp add: set_len_def Let_def mbuf_advance_def STUN_HEADER_SIZE_def mb_pos_same)

text \<open>The bytes under the integrity: the message up to it, with the length that ends with it.\<close>

definition mi_text :: "stun_hdr \<Rightarrow> byte list \<Rightarrow> nat \<Rightarrow> byte list" where
  "mi_text h A fps = hdr_bytes (h\<lparr>sh_len := of_nat (length A - fps)\<rparr>) @ take (length A - fps - 24) A"

lemma covered_after:
  assumes "mbuf_ok mb" "mb_after mb = xs @ r" "n = int (length xs)"
  shows "covered mb n = Some xs"
proof -
  have "length xs \<le> length (mbuf_buf mb)" using arg_cong [OF assms(2), of length] by (simp add: mb_after_def)
  moreover have "take (length xs) (mbuf_buf mb) = xs" using assms(2) by (simp add: mb_after_def take_eq_append)
  ultimately show ?thesis using assms(3) by (simp add: covered_def)
qed

lemma poke_after:
  assumes "mbuf_ok mb" "mb_after mb = as @ r" "length bs = length as"
  shows "mbuf_ok (mb\<lparr>mb_buf := poke (mb_pos mb) bs (mb_buf mb)\<rparr>)" "mb_after (mb\<lparr>mb_buf := poke (mb_pos mb) bs (mb_buf mb)\<rparr>) = bs @ r"
    "poke (mb_pos mb) as (poke (mb_pos mb) bs (mb_buf mb)) = mb_buf mb" "poke (mb_pos mb) as (mb_buf mb) = mb_buf mb"
proof -
  have l: "mb_pos mb + length as \<le> mb_end mb" "mb_end mb \<le> length (mb_buf mb)"
    using length_mb_after [OF assms(1)] assms(1,2) by (auto simp: mbuf_ok_def mbuf_get_left_diff)
  then show "mbuf_ok (mb\<lparr>mb_buf := poke (mb_pos mb) bs (mb_buf mb)\<rparr>)" using assms(1,3) by (simp add: mbuf_ok_def)
  have a: "take (mb_end mb - mb_pos mb) (drop (mb_pos mb) (mb_buf mb)) = as @ r" using assms(2) by (simp add: mb_after_def mbuf_get_left_diff mbuf_buf_def)
  from arg_cong [OF a, of "drop (length as)"] show "mb_after (mb\<lparr>mb_buf := poke (mb_pos mb) bs (mb_buf mb)\<rparr>) = bs @ r"
    using l assms(3) by (simp add: mb_after_def mbuf_get_left_diff mbuf_buf_def poke_def drop_take add.commute)
  show "poke (mb_pos mb) as (poke (mb_pos mb) bs (mb_buf mb)) = mb_buf mb"
    using take_eq_append [OF a] l assms(3) by (intro poke_same) simp_all
  show "poke (mb_pos mb) as (mb_buf mb) = mb_buf mb"
    using take_eq_append [OF a] l take_drop_append_drop [of "mb_pos mb" "length as" "mb_buf mb"] by (simp add: poke_def)
qed

lemma chk_mi_text:
  assumes ok: "mbuf_ok mb" "mb_end mb < 2 ^ 64" and a: "mb_after mb = hdr_bytes h @ A @ r" and h: "hdr_ok h" "unat (sh_len h) = length A"
    and msg: "msg = \<lparr>sm_hdr = h, sm_attrl = bs, sm_mb = mb, sm_start = mb_pos mb\<rparr>"
    and mi: "stun_msg_attr msg STUN_ATTR_MSG_INTEGRITY = Some mia" "sa_v mia = V_msg_integrity m"
    and fps: "fps = (if stun_msg_attr msg STUN_ATTR_FINGERPRINT \<noteq> None then 8 else 0)" "24 + fps \<le> length A"
  shows "stun_msg_chk_mi al hmac msg key = Some (if m \<noteq> hmac key (mi_text h A fps) then EBADMSG else OK, msg)"
proof -
  define h1 where "h1 = h\<lparr>sh_len := sh_len h + of_int (- int fps)\<rparr>"
  have len: "of_nat (length A) = sh_len h" by (simp flip: h(2))
  then have l1: "sh_len h1 = of_nat (length A - fps)" using fps(2) by (simp add: h1_def of_nat_diff)
  have lA: "length A < 2 ^ 16" using h(2) unsigned_less [of "sh_len h", where ?'a = nat] by simp
  then have u1: "unat (sh_len h1) = length A - fps" unfolding l1 by (intro unat_len) simp
  have "length A mod 4 = 0" using h by (simp add: hdr_ok_def and3_mod4)
  then have "(length A - fps) mod 4 = 0" using fps by (simp add: mod_if [of "length A - 8"] split: if_splits) presburger
  then have h1: "hdr_ok h1" using h(1) u1 by (simp add: hdr_ok_def and3_mod4 h1_def)
  have lh: "length (hdr_bytes h) = 20" "length (hdr_bytes h1) = 20" using h(1) h1 length_hdr_bytes by (simp_all add: hdr_ok_def)
  have bk: "h1\<lparr>sh_len := sh_len h1 + of_int (int fps)\<rparr> = h" by (simp add: h1_def)
  have tx: "mi_text h A fps = hdr_bytes h1 @ take (length A - fps - 24) A" using l1 by (simp add: mi_text_def h1_def)
  define mb1 where "mb1 = mb\<lparr>mb_buf := poke (mb_pos mb) (hdr_bytes h1) (mb_buf mb)\<rparr>"
  note p = poke_after [OF ok(1) a, of "hdr_bytes h1", folded mb1_def]
  have a1: "mb_after mb1 = (hdr_bytes h1 @ take (length A - fps - 24) A) @ drop (length A - fps - 24) A @ r" using p(2) lh by simp
  have n: "int STUN_HEADER_SIZE + uint (sh_len h1) - int MI_SIZE = int (length (hdr_bytes h1 @ take (length A - fps - 24) A))"
    using arg_cong [OF u1, of int] fps(2) lh by (simp add: STUN_HEADER_SIZE_def MI_SIZE_def)
  have cov: "covered mb1 (int STUN_HEADER_SIZE + uint (sh_len h1) - int MI_SIZE) = Some (mi_text h A fps)"
    unfolding tx using p(1) lh a1 n by (intro covered_after) simp_all
  have room: "mb_pos mb + 20 \<le> mb_end mb" using length_mb_after [OF ok(1)] a lh ok(1) by (simp add: mbuf_get_left_diff)
  have wf: "mbuf_wf mb" "mbuf_wf mb1" using ok(1) p(1) lh by (simp_all add: mbuf_ok_def mbuf_wf_def)
  have s1: "set_len al (- int fps) h mb = (h1, mb1)" using set_len_room [OF wf(1) room ok(2), of h "- int fps" al, folded h1_def] h1 by (simp add: mb1_def)
  have s2: "set_len al (int fps) h1 mb1 = (h, mb)"
    using set_len_room [OF wf(2), of h1 "int fps" al] room ok(2) h(1) p(3) lh unfolding bk by (simp add: mb1_def)
  show ?thesis
  proof (cases "stun_msg_attr msg STUN_ATTR_FINGERPRINT = None")
    case True
    then have "h1 = h" using fps(1) by (simp add: h1_def)
    then have "mb1 = mb" using p(4) by (simp add: mb1_def)
    with \<open>h1 = h\<close> show ?thesis using mi cov True by (simp add: stun_msg_chk_mi_def msg mb_pos_same)
  next
    case False
    then show ?thesis using mi cov s1 s2 fps(1) by (simp add: stun_msg_chk_mi_def msg mb_pos_same FP_SIZE_def)
  qed
qed

lemma chk_fp_text:
  assumes ok: "mbuf_ok mb" and a: "mb_after mb = hdr_bytes h @ A @ r" and h: "hdr_ok h" "unat (sh_len h) = length A"
    and msg: "msg = \<lparr>sm_hdr = h, sm_attrl = bs, sm_mb = mb, sm_start = mb_pos mb\<rparr>"
    and fp: "stun_msg_attr msg STUN_ATTR_FINGERPRINT = Some fpa" "sa_v fpa = V_uint32 n" "8 \<le> length A"
  shows "stun_msg_chk_fingerprint msg = Some (if fingerprint (hdr_bytes h @ take (length A - 8) A) \<noteq> n then EBADMSG else OK, msg)"
proof -
  have lh: "length (hdr_bytes h) = 20" using h(1) length_hdr_bytes by (simp add: hdr_ok_def)
  have a1: "mb_after mb = (hdr_bytes h @ take (length A - 8) A) @ drop (length A - 8) A @ r" using a by simp
  have "int STUN_HEADER_SIZE + uint (sh_len h) - int FP_SIZE = int (length (hdr_bytes h @ take (length A - 8) A))"
    using arg_cong [OF h(2), of int] fp(3) lh by (simp add: STUN_HEADER_SIZE_def FP_SIZE_def)
  from covered_after [OF ok a1 this] show ?thesis using fp(1,2) by (simp add: stun_msg_chk_fingerprint_def msg mb_pos_same)
qed

section \<open>Round trip\<close>

lemma find_append: "find P (xs @ ys) = (case find P xs of None \<Rightarrow> find P ys | Some x \<Rightarrow> Some x)"
  by (induction xs) auto

lemma same_types: "list_all2 attr_same as bs \<Longrightarrow> map sa_type bs = map fst as"
  by (induction rule: list_all2_induct) (auto simp: attr_same_def)

lemma same_find:
  "list_all2 attr_same as bs \<Longrightarrow> find (\<lambda>b. sa_type b = t) bs = None \<and> find (\<lambda>a. fst a = t) as = None
     \<or> (\<exists>a b. find (\<lambda>b. sa_type b = t) bs = Some b \<and> find (\<lambda>a. fst a = t) as = Some a \<and> attr_same a b)"
  by (induction rule: list_all2_induct) (auto simp: attr_same_def)

lemma find_skip: "list_all (\<lambda>a. fst a \<noteq> t) as \<Longrightarrow> find (\<lambda>a. fst a = t) (as @ bs) = find (\<lambda>a. fst a = t) bs"
  by (induction as) auto

lemma tail_find:
  assumes "tail = tail_attrs hmac key fp type tid padding B"
  shows "find (\<lambda>a. fst a = STUN_ATTR_MSG_INTEGRITY) tail = (case key of None \<Rightarrow> None | Some k \<Rightarrow> Some (mi_attr (hmac k (hdr_bytes (msg_hdr type tid (length B + 24)) @ B))))"
    "(find (\<lambda>a. fst a = STUN_ATTR_FINGERPRINT) tail \<noteq> None) = fp"
  unfolding assms
  by (auto simp: tail_attrs_def Let_def mi_attr_def fp_attr_def STUN_ATTR_MSG_INTEGRITY_def STUN_ATTR_FINGERPRINT_def split: option.splits)

lemma tail_fp:
  assumes "tail = tail_attrs hmac key True type tid padding B" "A = B @ attrs_bytes tid padding tail"
  shows "find (\<lambda>a. fst a = STUN_ATTR_FINGERPRINT) tail = Some (fp_attr (fingerprint (hdr_bytes (msg_hdr type tid (length A)) @ take (length A - 8) A)))"
proof -
  define mi where "mi = (case key of None \<Rightarrow> [] | Some k \<Rightarrow> [mi_attr (hmac k (hdr_bytes (msg_hdr type tid (length B + 24)) @ B))])"
  have t: "tail = mi @ [fp_attr (fingerprint (hdr_bytes (msg_hdr type tid (length (B @ attrs_bytes tid padding mi) + 8)) @ B @ attrs_bytes tid padding mi))]"
    "list_all (\<lambda>a. fst a \<noteq> STUN_ATTR_FINGERPRINT) mi"
    unfolding assms(1) by (auto simp: tail_attrs_def Let_def mi_def mi_attr_def STUN_ATTR_MSG_INTEGRITY_def STUN_ATTR_FINGERPRINT_def split: option.splits)
  let ?C = "B @ attrs_bytes tid padding mi"
  have "\<exists>x. A = ?C @ x \<and> length x = 8" unfolding assms(2) t(1)
    by (auto simp: attrs_bytes_append attrs_bytes_def [of _ _ "[_]"] tail_attrs_length(2))
  then have "length A = length ?C + 8" "take (length A - 8) A = ?C" by auto
  then show ?thesis using t(1) find_skip [OF t(2)] by (simp add: fp_attr_def add.assoc)
qed

lemma tail_types: "map fst (tail_attrs hmac key fp type tid padding B) = (if key = None then [] else [STUN_ATTR_MSG_INTEGRITY]) @ (if fp then [STUN_ATTR_FINGERPRINT] else [])"
  by (auto simp: tail_attrs_def Let_def mi_attr_def fp_attr_def split: option.splits)

lemma tail_ok: "(\<And>k x. length (hmac k x) = 20) \<Longrightarrow> list_all attr_ok (tail_attrs hmac key fp type tid padding B)"
  by (auto simp: tail_attrs_def Let_def tail_attrs_ok split: option.splits)

lemma tail_length: "(\<And>k x. length (hmac k x) = 20) \<Longrightarrow>
    length (attrs_bytes tid' padding' (tail_attrs hmac key fp type tid padding B)) = (if key = None then 0 else 24) + (if fp then 8 else 0)"
  by (auto simp: tail_attrs_def Let_def attrs_bytes_def tail_attrs_length split: option.splits)

text \<open>What the receiver of a message gets, and that the two checks succeed on it.\<close>

lemma msg_received:
  assumes "mem_ok al" and hm: "\<And>k x. length (hmac k x) = 20" and "length tid = 12" "list_all attr_ok as"
    "list_all (\<lambda>a. fst a \<noteq> STUN_ATTR_MSG_INTEGRITY) as" "list_all (\<lambda>a. fst a \<noteq> STUN_ATTR_FINGERPRINT) as"
    and B: "B = attrs_bytes tid padding as" "length B + 32 < 2 ^ 16" and type: "type = STUN_TYPE met cls"
    and tail: "tail = tail_attrs hmac key fp type tid padding B"
    and mb: "mbuf_ok mb" "mb_end mb < 2 ^ 64" "mb_after mb = msg_bytes type tid (B @ attrs_bytes tid padding tail)"
  shows "\<exists>msg. stun_msg_decode al True (\<lambda>p. True) mb ua = (OK, Some msg, mb, map_option (\<lambda>ts. []) ua)
    \<and> stun_msg_type msg = type \<and> stun_msg_mcookie msg \<and> stun_msg_tid msg = tid \<and> list_all2 attr_same (as @ tail) (sm_attrl msg)
    \<and> (\<forall>k. key = Some k \<longrightarrow> stun_msg_chk_mi al hmac msg k = Some (OK, msg)) \<and> (fp \<longrightarrow> stun_msg_chk_fingerprint msg = Some (OK, msg))"
proof -
  define A where "A = attrs_bytes tid padding (as @ tail)"
  have AB: "A = B @ attrs_bytes tid padding tail" by (simp add: A_def B(1) attrs_bytes_append)
  have lA: "length A = length B + (if key = None then 0 else 24) + (if fp then 8 else 0)"
    using tail_length [OF hm] by (simp add: AB tail)
  then have lA16: "length A < 2 ^ 16" using B(2) by (auto split: if_splits)
  define h where "h = msg_hdr type tid (length A)"
  have hok: "hdr_ok h" unfolding h_def type using assms(3) lA16 by (intro msg_hdr_ok) (auto simp: A_def attrs_bytes_aligned)
  have u: "unat (sh_len h) = length A" "sh_tid h = tid" using lA16 unat_len by (simp_all add: h_def msg_hdr_def)
  have a: "mb_after mb = hdr_bytes h @ A @ []" using mb(3) by (simp add: msg_bytes_def h_def AB)
  have ok: "list_all attr_ok (as @ tail)" using assms(4) tail_ok [OF hm] by (simp add: tail)
  from msg_decode_bytes [of al "\<lambda>p. True" mb h padding "as @ tail" "[]" ua, OF assms(1) _ mb(1) _ hok _ ok] a u
  obtain bs where d: "stun_msg_decode al True (\<lambda>p. True) mb ua = (OK, Some \<lparr>sm_hdr = h, sm_attrl = bs, sm_mb = mb, sm_start = mb_pos mb\<rparr>, mb, map_option (\<lambda>ts. []) ua)"
    "list_all2 attr_same (as @ tail) bs" by (auto simp: A_def)
  define msg where "msg = \<lparr>sm_hdr = h, sm_attrl = bs, sm_mb = mb, sm_start = mb_pos mb\<rparr>"
  note find = same_find [OF d(2)] find_skip [OF assms(5), of tail] find_skip [OF assms(6), of tail] tail_find [OF tail]
  have fps: "(stun_msg_attr msg STUN_ATTR_FINGERPRINT \<noteq> None) = fp"
    using find(1) [of STUN_ATTR_FINGERPRINT] find(3,5) by (auto simp: stun_msg_attr_def msg_def)
  have "stun_msg_chk_mi al hmac msg k = Some (OK, msg)" if k: "key = Some k" for k
  proof -
    let ?m = "hmac k (hdr_bytes (msg_hdr type tid (length B + 24)) @ B)"
    obtain b where b: "stun_msg_attr msg STUN_ATTR_MSG_INTEGRITY = Some b" "sa_v b = V_msg_integrity ?m"
      using find(1) [of STUN_ATTR_MSG_INTEGRITY] find(2,4) k by (auto simp: stun_msg_attr_def msg_def attr_same_def mi_attr_def val_same_def split: stun_val.splits)
    have "mi_text h A (if fp then 8 else 0) = hdr_bytes (msg_hdr type tid (length B + 24)) @ B"
      using lA k by (auto simp: mi_text_def h_def msg_hdr_def AB)
    then show ?thesis using chk_mi_text [OF mb(1,2) a hok u(1) msg_def b, of "if fp then 8 else 0" al hmac k] fps lA k by simp
  qed
  moreover have "stun_msg_chk_fingerprint msg = Some (OK, msg)" if f: fp
  proof -
    let ?n = "fingerprint (hdr_bytes h @ take (length A - 8) A)"
    have "find (\<lambda>a. fst a = STUN_ATTR_FINGERPRINT) tail = Some (fp_attr ?n)" using tail_fp [of tail hmac key type tid padding B A] tail f AB by (simp add: h_def)
    then obtain b where b: "stun_msg_attr msg STUN_ATTR_FINGERPRINT = Some b" "sa_v b = V_uint32 ?n"
      using find(1) [of STUN_ATTR_FINGERPRINT] find(3) by (auto simp: stun_msg_attr_def msg_def attr_same_def fp_attr_def val_same_def split: stun_val.splits)
    then show ?thesis using chk_fp_text [OF mb(1) a hok u(1) msg_def b] lA f by simp
  qed
  ultimately show ?thesis using d by (intro exI [of _ msg])
    (simp add: msg_def stun_msg_type_def stun_msg_mcookie_def stun_msg_tid_def h_def msg_hdr_def)
qed

lemma wrote_mbuf_ok: "wrote mb mb' bs \<Longrightarrow> bs \<noteq> [] \<Longrightarrow> mbuf_ok (mb'\<lparr>mb_pos := mb_pos mb\<rparr>)"
  by (auto simp: wrote_def mbuf_ok_def mbuf_wf_def)

text \<open>
  C6. When there is memory, a message with valid attributes, of a length that the header can hold, is
  encoded without an error. Decoding it gives its type, transaction and attributes back in order,
  followed by the integrity and the fingerprint that were asked for; no attribute is reported as
  unknown, and both checks accept the message and leave it as it was.
\<close>

theorem stun_msg_roundtrip:
  assumes "mem_ok al" "\<forall>k x. length (hmac k x) = 20" "mbuf_wf mb" "mb_end mb \<le> mb_pos mb" "mb_pos mb + 2 ^ 17 < 2 ^ 64" "length tid = 12"
    and "as = given ((STUN_ATTR_ERR_CODE, ec) # attrs)" "list_all attr_ok as"
    and "list_all (\<lambda>a. fst a \<noteq> STUN_ATTR_MSG_INTEGRITY) as" "list_all (\<lambda>a. fst a \<noteq> STUN_ATTR_FINGERPRINT) as"
    and "length (attrs_bytes tid padding as) + 32 < 2 ^ 16"
  shows "\<exists>mb' msg tail. stun_msg_vencode al hmac mb met cls tid ec key fp padding attrs = Some (OK, mb')
    \<and> stun_msg_decode al True (\<lambda>p. True) (mb'\<lparr>mb_pos := mb_pos mb\<rparr>) ua = (OK, Some msg, mb'\<lparr>mb_pos := mb_pos mb\<rparr>, map_option (\<lambda>ts. []) ua)
    \<and> stun_msg_type msg = STUN_TYPE met cls \<and> stun_msg_mcookie msg \<and> stun_msg_tid msg = tid
    \<and> list_all2 attr_same (as @ tail) (sm_attrl msg)
    \<and> map fst tail = (if key = None then [] else [STUN_ATTR_MSG_INTEGRITY]) @ (if fp then [STUN_ATTR_FINGERPRINT] else [])
    \<and> (\<forall>k. key = Some k \<longrightarrow> stun_msg_chk_mi al hmac msg k = Some (OK, msg)) \<and> (fp \<longrightarrow> stun_msg_chk_fingerprint msg = Some (OK, msg))"
proof -
  define B where "B = attrs_bytes tid padding as"
  define tail where "tail = tail_attrs hmac key fp (STUN_TYPE met cls) tid padding B"
  have hm: "length (hmac k x) = 20" for k x using assms(2) by simp
  from encode_msg_wrote [of al hmac mb tid ec attrs B padding "STUN_TYPE met cls" met cls key fp] assms hm
  obtain mb' where e: "stun_msg_vencode al hmac mb met cls tid ec key fp padding attrs = Some (OK, mb')"
    "wrote mb mb' (msg_bytes (STUN_TYPE met cls) tid (B @ attrs_bytes tid padding tail))" by (auto simp: B_def tail_def)
  let ?A = "B @ attrs_bytes tid padding tail" and ?mb = "mb'\<lparr>mb_pos := mb_pos mb\<rparr>"
  have lh: "length (hdr_bytes (msg_hdr t tid n)) = 20" for t n using assms(6) length_hdr_bytes by (simp add: msg_hdr_def)
  have ne: "msg_bytes (STUN_TYPE met cls) tid ?A \<noteq> []" using lh [of "STUN_TYPE met cls" "length ?A"] by (auto simp: msg_bytes_def)
  have lA: "length ?A \<le> length B + 32" using tail_length [of hmac, OF hm] by (simp add: tail_def)
  note left = wrote_bytes_left [OF e(2) ne assms(4)]
  have "mb_end ?mb < 2 ^ 64" using left(2) e(2) lA assms(5,11) lh [of "STUN_TYPE met cls" "length ?A"] by (simp add: wrote_def msg_bytes_def B_def)
  moreover have "mb_after ?mb = msg_bytes (STUN_TYPE met cls) tid ?A" using left(1) by (simp add: bytes_left_def mb_after_def)
  ultimately obtain msg where "stun_msg_decode al True (\<lambda>p. True) ?mb ua = (OK, Some msg, ?mb, map_option (\<lambda>ts. []) ua)"
    "stun_msg_type msg = STUN_TYPE met cls" "stun_msg_mcookie msg" "stun_msg_tid msg = tid" "list_all2 attr_same (as @ tail) (sm_attrl msg)"
    "\<forall>k. key = Some k \<longrightarrow> stun_msg_chk_mi al hmac msg k = Some (OK, msg)" "fp \<longrightarrow> stun_msg_chk_fingerprint msg = Some (OK, msg)"
    using msg_received [of al hmac tid as B padding "STUN_TYPE met cls" met cls tail key fp ?mb ua]
      assms(1,6,8-11) hm B_def tail_def wrote_mbuf_ok [OF e(2) ne] by auto
  then show ?thesis using e(1) tail_types [of hmac key fp _ tid padding B] tail_def
    by (intro exI [of _ mb'] exI [of _ msg] exI [of _ tail]) blast
qed

theorem stun_msg_roundtrip_witness:
  "\<exists>mb' msg. stun_msg_vencode (\<lambda>n. Some (\<lambda>i. 0)) (\<lambda>k x. take 20 (k @ x @ replicate 20 0)) mbuf_init 1 0 (replicate 12 7) None (Some [1, 2]) True 0
       [(STUN_ATTR_USERNAME, Some (V_str [97, 0])), (STUN_ATTR_USE_CAND, None), (STUN_ATTR_XOR_MAPPED_ADDR, Some (V_sa (Sa_in 0x7f000001 3478)))] = Some (OK, mb')
     \<and> map sa_type (sm_attrl msg) = [STUN_ATTR_USERNAME, STUN_ATTR_XOR_MAPPED_ADDR, STUN_ATTR_MSG_INTEGRITY, STUN_ATTR_FINGERPRINT]
     \<and> stun_msg_chk_mi (\<lambda>n. Some (\<lambda>i. 0)) (\<lambda>k x. take 20 (k @ x @ replicate 20 0)) msg [1, 2] = Some (OK, msg)
     \<and> stun_msg_chk_fingerprint msg = Some (OK, msg)"
proof -
  let ?al = "\<lambda>n. Some (\<lambda>i. 0) :: (nat \<Rightarrow> byte) option" and ?hmac = "\<lambda>k x. take 20 (k @ x @ replicate 20 (0 :: byte))"
  let ?as = "[(STUN_ATTR_USERNAME, V_str [97, 0]), (STUN_ATTR_XOR_MAPPED_ADDR, V_sa (Sa_in 0x7f000001 3478))]"
  have 1: "mem_ok ?al" "\<forall>k x. length (?hmac k x) = 20" "mbuf_wf mbuf_init" by (simp_all add: mem_ok_def mbuf_wf_def mbuf_init_def min_def)
  have 2: "list_all attr_ok ?as" "length (attrs_bytes (replicate 12 7) 0 ?as) + 32 < 2 ^ 16"
    by (simp_all add: attr_ok_def val_ok_def attr_kind_def stun_attr_types str_ok_def c_str_def attrs_bytes_def attr_bytes_def val_bytes_def addr_bytes_def pad4_def)
  have 3: "list_all (\<lambda>a. fst a \<noteq> STUN_ATTR_MSG_INTEGRITY) ?as" "list_all (\<lambda>a. fst a \<noteq> STUN_ATTR_FINGERPRINT) ?as" by (simp_all add: stun_attr_types)
  from stun_msg_roundtrip [of ?al ?hmac mbuf_init "replicate 12 7" ?as None
      "[(STUN_ATTR_USERNAME, Some (V_str [97, 0])), (STUN_ATTR_USE_CAND, None), (STUN_ATTR_XOR_MAPPED_ADDR, Some (V_sa (Sa_in 0x7f000001 3478)))]"
      0 1 0 "Some [1, 2]" True None, OF 1 _ _ _ _ 2(1) 3 2(2)]
  show ?thesis by (auto simp: mbuf_init_def dest!: same_types)
qed

end
