(* ===== verification/StunSafe.thy ===== *)
theory StunSafe
  imports StunWire
begin

text \<open>
  What holds of every datagram that the STUN decoder of \<^verbatim>\<open>re/src/stun/msg.c\<close> accepts, whoever sent it:
  the attributes lie in the part of the buffer that the header announces, and the two checks read
  only that part and put back what they change.
\<close>

section \<open>Headers of any datagram\<close>

lemma be16_htons [simp]: "be16 (htons v) = le16 v"
  by (simp flip: le16_htons)

lemma be32_htonl [simp]: "be32 (htonl v) = le32 v"
  by (simp flip: le32_htonl)

lemma take2_le16: "length xs = 2 \<Longrightarrow> le16 (of_le16 xs) = xs"
  by (auto simp: length_Suc_conv numeral_2_eq_2 simp del: of_le16.simps)

lemma take4_le32: "length xs = 4 \<Longrightarrow> le32 (of_le32 xs) = xs"
  by (auto simp: length_Suc_conv eval_nat_numeral simp del: of_le32.simps)

lemma read_mem_some:
  assumes "mbuf_ok mb" "n \<le> mbuf_get_left mb"
  shows "mbuf_read_mem mb n = (OK, take n (mb_after mb), mb_adv mb n)" "mbuf_ok (mb_adv mb n)"
    "mb_after (mb_adv mb n) = drop n (mb_after mb)" "length (take n (mb_after mb)) = n"
  using assms mb_adv [OF assms] by (simp_all add: mbuf_read_mem_adv)

lemma hdr_decode_any:
  assumes "mbuf_ok mb" "stun_hdr_decode h0 mb = (OK, h, mb1)"
  shows "mb1 = mb_adv mb 20" "20 \<le> mbuf_get_left mb" "take 20 (mb_after mb) = hdr_bytes h" "hdr_ok h" "unat (sh_len h) \<le> mbuf_get_left mb1"
proof -
  have l: "20 \<le> mbuf_get_left mb" using assms(2) by (auto simp: stun_hdr_decode_def STUN_HEADER_SIZE_def EBADMSG_def split: if_splits)
  note r0 = read_mem_some [OF assms(1), of 2]
  note r1 = read_mem_some [of "mb_adv mb 2" 2]
  note r2 = read_mem_some [of "mb_adv mb 4" 4]
  note r3 = read_mem_some [of "mb_adv mb 8" 12]
  have lf: "mbuf_get_left (mb_adv mb n) = mbuf_get_left mb - n" for n by (rule mb_adv_left)
  have ok: "mbuf_ok (mb_adv mb 2)" "mbuf_ok (mb_adv mb 4)" "mbuf_ok (mb_adv mb 8)" using mb_adv(1) [OF assms(1)] l by simp_all
  have d: "mb_after (mb_adv mb n) = drop n (mb_after mb)" if "n \<le> 20" for n using mb_adv(3) [OF assms(1)] that l by simp
  let ?a = "mb_after mb"
  have u: "mbuf_read_u16 mb = (of_le16 (take 2 ?a), mb_adv mb 2)" "mbuf_read_u16 (mb_adv mb 2) = (of_le16 (take 2 (drop 2 ?a)), mb_adv mb 4)"
    "mbuf_read_u32 (mb_adv mb 4) = (of_le32 (take 4 (drop 4 ?a)), mb_adv mb 8)" "mbuf_read_mem (mb_adv mb 8) 12 = (OK, take 12 (drop 8 ?a), mb_adv mb 20)"
    using r0 r1 r2 r3 ok l lf d by (simp_all add: mbuf_read_u16_def mbuf_read_u32_def)
  have la: "20 \<le> length ?a" using l assms(1) by simp
  have res: "mb1 = mb_adv mb 20 \<and> h = h0\<lparr>sh_type := ntohs (of_le16 (take 2 ?a)), sh_len := ntohs (of_le16 (take 2 (drop 2 ?a))),
      sh_cookie := ntohl (of_le32 (take 4 (drop 4 ?a))), sh_tid := take 12 (drop 8 ?a)\<rparr>
      \<and> sh_type h AND 0xc000 = 0 \<and> sh_len h AND 3 = 0 \<and> unat (sh_len h) \<le> mbuf_get_left mb1"
    using assms(2) l u by (auto simp: stun_hdr_decode_def STUN_HEADER_SIZE_def STUN_TID_SIZE_def EBADMSG_def Let_def split: if_splits)
  then show "mb1 = mb_adv mb 20" "20 \<le> mbuf_get_left mb" "unat (sh_len h) \<le> mbuf_get_left mb1" using l by blast+
  have "length (sh_tid h) = 12" using res la by auto
  with res show "hdr_ok h" unfolding hdr_ok_def by blast
  have "hdr_bytes h = take 2 ?a @ take 2 (drop 2 ?a) @ take 4 (drop 4 ?a) @ take 12 (drop 8 ?a)"
    using res la by (simp add: hdr_bytes_def take2_le16 take4_le32)
  also have "\<dots> = take (2 + (2 + (4 + 12))) ?a" unfolding take_add by simp
  finally show "take 20 ?a = hdr_bytes h" by simp
qed

section \<open>Attributes of any datagram\<close>

definition attr_size :: "stun_attr \<Rightarrow> nat" where
  "attr_size a = (if sa_type a = STUN_ATTR_MSG_INTEGRITY then 24 else if sa_type a = STUN_ATTR_FINGERPRINT then 8 else 4)"

definition attr_typed :: "stun_attr \<Rightarrow> bool" where
  "attr_typed a \<longleftrightarrow> (sa_type a = STUN_ATTR_MSG_INTEGRITY \<longrightarrow> (\<exists>m. sa_v a = V_msg_integrity m))
     \<and> (sa_type a = STUN_ATTR_FINGERPRINT \<longrightarrow> (\<exists>n. sa_v a = V_uint32 n))"

lemma read_left:
  "mbuf_read_mem mb n = (e, s, mb') \<Longrightarrow> n \<le> mbuf_get_left mb \<Longrightarrow> mbuf_get_left mb' = mbuf_get_left mb - n"
  "mbuf_read_u16 mb = (b, mb') \<Longrightarrow> 2 \<le> mbuf_get_left mb \<Longrightarrow> mbuf_get_left mb' = mbuf_get_left mb - 2"
  "mbuf_read_u32 mb = (c, mb') \<Longrightarrow> 4 \<le> mbuf_get_left mb \<Longrightarrow> mbuf_get_left mb' = mbuf_get_left mb - 4"
  by (auto simp: mbuf_read_u16_def mbuf_read_u32_def mbuf_read_mem_def mbuf_get_left_diff split: if_splits)

lemma mi_not_fp [simp]: "STUN_ATTR_MSG_INTEGRITY \<noteq> STUN_ATTR_FINGERPRINT" "STUN_ATTR_FINGERPRINT \<noteq> STUN_ATTR_MSG_INTEGRITY"
  by (simp_all add: stun_attr_types)

lemma value_decode_size:
  assumes "attr_value_decode al mb (attr_kind t) len tid = (OK, v, mb')" "len \<le> mbuf_get_left mb"
  shows "attr_typed \<lparr>sa_type = t, sa_v = v\<rparr>" "attr_size \<lparr>sa_type = t, sa_v = v\<rparr> \<le> 4 + (mbuf_get_left mb - mbuf_get_left mb')"
proof -
  consider "t = STUN_ATTR_MSG_INTEGRITY" | "t = STUN_ATTR_FINGERPRINT" | "t \<noteq> STUN_ATTR_MSG_INTEGRITY" "t \<noteq> STUN_ATTR_FINGERPRINT" by blast
  then have "attr_typed \<lparr>sa_type = t, sa_v = v\<rparr> \<and> attr_size \<lparr>sa_type = t, sa_v = v\<rparr> \<le> 4 + (mbuf_get_left mb - mbuf_get_left mb')"
  proof cases
    case 1
    then show ?thesis using assms
      by (auto simp: attr_value_decode_def attr_typed_def attr_size_def EBADMSG_def split: if_splits prod.splits dest: read_left(1))
  next
    case 2
    then show ?thesis using assms
      by (auto simp: attr_value_decode_def attr_typed_def attr_size_def EBADMSG_def split: if_splits prod.splits dest: read_left(3))
  qed (simp add: attr_typed_def attr_size_def)
  then show "attr_typed \<lparr>sa_type = t, sa_v = v\<rparr>" "attr_size \<lparr>sa_type = t, sa_v = v\<rparr> \<le> 4 + (mbuf_get_left mb - mbuf_get_left mb')" by simp_all
qed

lemma attr_decode_size:
  assumes "stun_attr_decode al mem mb tid ua = (OK, Some a, mb', ua')"
  shows "attr_typed a" "attr_size a + mbuf_get_left mb' \<le> mbuf_get_left mb"
proof -
  obtain t mb1 l mb2 v mb3 where r: "4 \<le> mbuf_get_left mb" "mbuf_read_u16 mb = (t, mb1)" "mbuf_read_u16 mb1 = (l, mb2)"
    "unat (ntohs l) \<le> mbuf_get_left mb2" "attr_value_decode al mb2 (attr_kind (ntohs t)) (unat (ntohs l)) tid = (OK, v, mb3)"
    "a = \<lparr>sa_type = ntohs t, sa_v = v\<rparr>" "mb' = skip_padding (mb_pos mb2) mb3"
    by (rule attr_decode_OK [OF assms]) blast
  note s = value_decode_size [OF r(5,4)]
  show "attr_typed a" using s(1) r(6) by simp
  have "mbuf_get_left mb2 = mbuf_get_left mb - 4" using read_left(2) [OF r(2)] read_left(2) [OF r(3)] r(1) by simp
  moreover have "mbuf_get_left mb' \<le> mbuf_get_left mb3" using adv_left [OF adv_skip_padding] r(7) by simp
  moreover have "mbuf_get_left mb3 \<le> mbuf_get_left mb2" using adv_left [OF adv_value_decode [OF r(5,4)]] .
  ultimately show "attr_size a + mbuf_get_left mb' \<le> mbuf_get_left mb" using s(2) r(1,6) by simp
qed

lemma attr_decode_adv: "stun_attr_decode al mem mb tid ua = (OK, a, mb', ua') \<Longrightarrow> adv mb mb'"
  by (erule attr_decode_OK) (auto intro: adv_trans [OF adv_reads(2) adv_trans [OF adv_reads(2) adv_trans [OF adv_value_decode adv_skip_padding]]])

text \<open>
  The loop of the decoder subtracts without a check. An attribute that goes past the announced length
  makes the difference huge, and then the loop can only end with an error.
\<close>

lemma size_sub_less: "a < b \<Longrightarrow> b < 2 ^ 63 \<Longrightarrow> 4 \<le> size_sub a b"
proof -
  assume a: "a < b" "b < 2 ^ 63"
  have "(int a - int b) mod 2 ^ 64 = (int a - int b + 2 ^ 64) mod 2 ^ 64" by simp
  also have "\<dots> = int a - int b + 2 ^ 64" using a by (intro mod_pos_pos_trivial) simp_all
  finally have "size_sub a b = nat (int a - int b + 2 ^ 64)" by (simp add: size_sub_def)
  then show ?thesis using a by simp
qed

lemma size_sub_ge: "b \<le> a \<Longrightarrow> a < 2 ^ 63 \<Longrightarrow> size_sub a b = a - b"
  by (simp add: size_sub_def of_nat_diff [symmetric] del: of_nat_diff)

lemma msg_attrs_overrun:
  "mbuf_get_left mb < extra \<Longrightarrow> extra < 2 ^ 63 \<Longrightarrow> stun_msg_attrs al mem tid extra mb ua attrl = (e, as, mb', ua') \<Longrightarrow> e \<noteq> OK"
proof (induction al mem tid extra mb ua attrl rule: stun_msg_attrs.induct)
  case (1 al mem tid extra mb ua attrl)
  obtain e1 a mb1 ua1 where d: "stun_attr_decode al mem mb (Some tid) ua = (e1, a, mb1, ua1)" by (metis surj_pair)
  have c: "4 \<le> size_sub (mbuf_get_left mb) extra" using size_sub_less 1(2,3) .
  show ?case
  proof (cases "e1 = OK")
    case True
    then have "mbuf_get_left mb1 < extra" using attr_decode_progress [of al mem mb "Some tid" ua a mb1 ua1] d 1(2) by simp
    with 1(1) [OF c d [symmetric] refl refl] 1(3,4) True c d show ?thesis by (simp add: stun_msg_attrs.simps [of al mem tid extra mb])
  next
    case False
    with 1(4) c d show ?thesis by (simp add: stun_msg_attrs.simps [of al mem tid extra mb])
  qed
qed

lemma attr_decode_some: "stun_attr_decode al mem mb tid ua = (OK, a, mb', ua') \<Longrightarrow> a \<noteq> None"
  by (auto elim: attr_decode_OK)

lemma msg_attrs_size:
  "extra \<le> mbuf_get_left mb \<Longrightarrow> mbuf_get_left mb < 2 ^ 63 \<Longrightarrow> stun_msg_attrs al mem tid extra mb ua attrl = (OK, as, mb', ua') \<Longrightarrow>
     \<exists>new. as = attrl @ new \<and> sum_list (map attr_size new) + extra \<le> mbuf_get_left mb \<and> list_all attr_typed new \<and> adv mb mb'"
proof (induction al mem tid extra mb ua attrl rule: stun_msg_attrs.induct)
  case (1 al mem tid extra mb ua attrl)
  show ?case
  proof (cases "4 \<le> size_sub (mbuf_get_left mb) extra")
    case True
    obtain e1 a mb1 ua1 where d: "stun_attr_decode al mem mb (Some tid) ua = (e1, a, mb1, ua1)" by (metis surj_pair)
    have e1: "e1 = OK" using 1(4) True d by (auto simp: stun_msg_attrs.simps [of al mem tid extra mb] split: if_splits)
    then obtain b where b: "a = Some b" using attr_decode_some [of al mem mb "Some tid" ua a mb1 ua1] d by auto
    have s: "attr_typed b" "attr_size b + mbuf_get_left mb1 \<le> mbuf_get_left mb" using attr_decode_size d e1 b by simp_all
    have r: "stun_msg_attrs al mem tid extra mb1 ua1 (attrl @ [b]) = (OK, as, mb', ua')"
      using 1(4) True d e1 b by (simp add: stun_msg_attrs.simps [of al mem tid extra mb])
    have "extra \<le> mbuf_get_left mb1" using msg_attrs_overrun [OF _ _ r] 1(2,3) by fastforce
    with 1(1) [OF True d [symmetric] refl refl] e1 b r 1(3) s(2)
    obtain new where n: "as = (attrl @ [b]) @ new" "sum_list (map attr_size new) + extra \<le> mbuf_get_left mb1" "list_all attr_typed new" "adv mb1 mb'" by auto
    have "adv mb mb1" using attr_decode_adv d e1 by simp
    with n s adv_trans show ?thesis by (intro exI [of _ "b # new"]) auto
  next
    case False
    then show ?thesis using 1(2-4) by (simp add: stun_msg_attrs.simps [of al mem tid extra mb])
  qed
qed

lemma typed_sizes:
  "(if find (\<lambda>a. sa_type a = STUN_ATTR_MSG_INTEGRITY) as \<noteq> None then 24 else 0) + (if find (\<lambda>a. sa_type a = STUN_ATTR_FINGERPRINT) as \<noteq> None then 8 else 0)
     \<le> sum_list (map attr_size as)"
  by (induction as) (auto simp: attr_size_def split: if_splits)

section \<open>The checks are safe\<close>

lemma msg_decode_any:
  assumes "mbuf_ok mb" "mb_end mb < 2 ^ 63" "stun_msg_decode al zm mem mb ua = (OK, Some msg, mb', ua')"
  obtains h A r as where "mb' = mb" "msg = \<lparr>sm_hdr = h, sm_attrl = as, sm_mb = mb, sm_start = mb_pos mb\<rparr>" "mb_after mb = hdr_bytes h @ A @ r" "hdr_ok h"
    "unat (sh_len h) = length A" "sum_list (map attr_size as) \<le> length A" "list_all attr_typed as"
proof -
  obtain h mb1 where d: "stun_hdr_decode stun_hdr0 mb = (OK, h, mb1)"
    using assms(3) by (cases "stun_hdr_decode stun_hdr0 mb") (auto simp: stun_msg_decode_def Let_def split: if_splits)
  note h = hdr_decode_any [OF assms(1) d]
  define A where "A = take (unat (sh_len h)) (mb_after mb1)"
  define r where "r = drop (unat (sh_len h)) (mb_after mb1)"
  have a1: "mbuf_ok mb1" "mb_after mb1 = drop 20 (mb_after mb)" using mb_adv(1,3) [OF assms(1) h(2)] h(1) by simp_all
  have "A @ r = drop 20 (mb_after mb)" unfolding A_def r_def a1(2) [symmetric] by simp
  then have a: "mb_after mb = hdr_bytes h @ A @ r" using h(3) append_take_drop_id [of 20 "mb_after mb"] by simp
  have lA: "unat (sh_len h) = length A" using h(5) a1(1) by (simp add: A_def)
  obtain e as mb2 ua2 where l0: "stun_msg_attrs al mem (sh_tid h) (mbuf_get_left mb1 - unat (sh_len h)) mb1 (map_option (\<lambda>ts. []) ua) [] = (e, as, mb2, ua2)"
    by (metis surj_pair)
  have m: "e = OK \<and> msg = \<lparr>sm_hdr = h, sm_attrl = as, sm_mb = mb2\<lparr>mb_pos := mb_pos mb\<rparr>, sm_start = mb_pos mb\<rparr> \<and> mb' = mb2\<lparr>mb_pos := mb_pos mb\<rparr>"
    using assms(3) by (auto simp: stun_msg_decode_def d l0 ENOMEM_def Let_def split: if_splits)
  note l = l0 [unfolded conjunct1 [OF m]]
  have "mbuf_get_left mb1 < 2 ^ 63" using assms(2) h(1) by (simp add: mb_adv_def mbuf_get_left_diff)
  from msg_attrs_size [OF _ this l] h(5) have s: "sum_list (map attr_size as) \<le> length A" "list_all attr_typed as" "adv mb1 mb2" by (auto simp flip: lA)
  then have "mb2\<lparr>mb_pos := mb_pos mb\<rparr> = mb" using h(1) by (auto simp: adv_def mb_adv_def)
  then show ?thesis using m a h(4) lA s(1,2) by (intro that [of h as A r]) simp_all
qed

lemma chk_mi_any:
  assumes "mbuf_ok mb" "mb_end mb < 2 ^ 63" and m: "msg = \<lparr>sm_hdr = h, sm_attrl = as, sm_mb = mb, sm_start = mb_pos mb\<rparr>"
    and h: "mb_after mb = hdr_bytes h @ A @ r" "hdr_ok h" "unat (sh_len h) = length A"
    and as: "sum_list (map attr_size as) \<le> length A" "list_all attr_typed as"
    and fps: "fps = (if stun_msg_attr msg STUN_ATTR_FINGERPRINT = None then 0 else 8)"
  shows "\<exists>e. stun_msg_chk_mi al hmac msg key = Some (e, msg) \<and>
      (e = OK \<longleftrightarrow> (\<exists>a. stun_msg_attr msg STUN_ATTR_MSG_INTEGRITY = Some a \<and> sa_v a = V_msg_integrity (hmac key (mi_text h A fps))))"
proof (cases "stun_msg_attr msg STUN_ATTR_MSG_INTEGRITY")
  case None
  then show ?thesis by (simp add: stun_msg_chk_mi_def EPROTO_def)
next
  case (Some a)
  then have t: "find (\<lambda>a. sa_type a = STUN_ATTR_MSG_INTEGRITY) as = Some a" using m by (simp add: stun_msg_attr_def)
  then obtain mi where v: "sa_v a = V_msg_integrity mi" using as(2) by (auto simp: find_Some_iff list_all_length attr_typed_def)
  have "24 + fps \<le> length A" using order_trans [OF typed_sizes as(1)] t fps m by (simp add: stun_msg_attr_def split: if_splits)
  with chk_mi_text [OF assms(1) _ h(1-3) m Some v, of fps al hmac key] fps Some v assms(2) show ?thesis by (auto simp: EBADMSG_def)
qed

lemma chk_fp_any:
  assumes "mbuf_ok mb" and m: "msg = \<lparr>sm_hdr = h, sm_attrl = as, sm_mb = mb, sm_start = mb_pos mb\<rparr>"
    and h: "mb_after mb = hdr_bytes h @ A @ r" "hdr_ok h" "unat (sh_len h) = length A"
    and as: "sum_list (map attr_size as) \<le> length A" "list_all attr_typed as"
  shows "\<exists>e. stun_msg_chk_fingerprint msg = Some (e, msg) \<and>
      (e = OK \<longleftrightarrow> (\<exists>a. stun_msg_attr msg STUN_ATTR_FINGERPRINT = Some a \<and> sa_v a = V_uint32 (fingerprint (hdr_bytes h @ take (length A - 8) A))))"
proof (cases "stun_msg_attr msg STUN_ATTR_FINGERPRINT")
  case None
  then show ?thesis by (simp add: stun_msg_chk_fingerprint_def EPROTO_def)
next
  case (Some a)
  then have t: "find (\<lambda>a. sa_type a = STUN_ATTR_FINGERPRINT) as = Some a" using m by (simp add: stun_msg_attr_def)
  then obtain n where v: "sa_v a = V_uint32 n" using as(2) by (auto simp: find_Some_iff list_all_length attr_typed_def)
  have "8 \<le> length A" using order_trans [OF typed_sizes as(1)] t by (simp split: if_splits)
  from chk_fp_text [OF assms(1) h m Some v this] Some v show ?thesis by (auto simp: EBADMSG_def)
qed

text \<open>
  C16. Whatever datagram was decoded into a message, decoding leaves the buffer as it was, the announced
  length lies in the buffer, and both checks stay inside it: they always have a result, and give the
  message back unchanged, the header that the first one overwrites included. They accept exactly when
  the first integrity attribute is the hash of the text before the end of the integrity, and the first
  fingerprint attribute the checksum of all but the last eight bytes of the message.
\<close>

theorem stun_checks_safe:
  assumes "mbuf_ok mb" "mb_end mb < 2 ^ 63" "stun_msg_decode al zm mem mb ua = (OK, Some msg, mb', ua')"
    and "len = unat (sh_len (sm_hdr msg))" "fps = (if stun_msg_attr msg STUN_ATTR_FINGERPRINT = None then 0 else 8)"
  shows "mb' = mb \<and> sm_mb msg = mb \<and> 20 + len \<le> mbuf_get_left mb
    \<and> (\<exists>e. stun_msg_chk_mi al' hmac msg key = Some (e, msg) \<and>
        (e = OK \<longleftrightarrow> (\<exists>a. stun_msg_attr msg STUN_ATTR_MSG_INTEGRITY = Some a
           \<and> sa_v a = V_msg_integrity (hmac key (mi_text (sm_hdr msg) (take len (drop 20 (mb_after mb))) fps)))))
    \<and> (\<exists>e. stun_msg_chk_fingerprint msg = Some (e, msg) \<and>
        (e = OK \<longleftrightarrow> (\<exists>a. stun_msg_attr msg STUN_ATTR_FINGERPRINT = Some a
           \<and> sa_v a = V_uint32 (fingerprint (take 20 (mb_after mb) @ take (len - 8) (drop 20 (mb_after mb)))))))"
proof -
  obtain h A r as where m: "mb' = mb" "msg = \<lparr>sm_hdr = h, sm_attrl = as, sm_mb = mb, sm_start = mb_pos mb\<rparr>" "mb_after mb = hdr_bytes h @ A @ r" "hdr_ok h"
    "unat (sh_len h) = length A" "sum_list (map attr_size as) \<le> length A" "list_all attr_typed as"
    by (rule msg_decode_any [OF assms(1-3)])
  have lh: "length (hdr_bytes h) = 20" using m(4) length_hdr_bytes by (simp add: hdr_ok_def)
  have len: "len = length A" "sm_hdr msg = h" using assms(4) m(2,5) by simp_all
  have "mb' = mb \<and> sm_mb msg = mb \<and> 20 + len \<le> mbuf_get_left mb"
    using m(1,2) length_mb_after [OF assms(1)] m(3) lh len by simp
  moreover have "take len (drop 20 (mb_after mb)) = A" "take 20 (mb_after mb) = hdr_bytes h" "take (len - 8) (drop 20 (mb_after mb)) = take (length A - 8) A"
    using m(3) lh len by simp_all
  ultimately show ?thesis
    using chk_mi_any [OF assms(1,2) m(2-7) assms(5), of al' hmac key] chk_fp_any [OF assms(1) m(2-7)] unfolding len(2) by simp
qed

theorem stun_checks_safe_witness:
  "\<exists>mb msg. mb_size mb = 28 \<and> stun_msg_decode (\<lambda>n. Some (\<lambda>i. 0)) True (\<lambda>p. True) mb None = (OK, Some msg, mb, None)
     \<and> (\<exists>e. stun_msg_chk_mi (\<lambda>n. None) (\<lambda>k x. k) msg [] = Some (e, msg)) \<and> (\<exists>e. stun_msg_chk_fingerprint msg = Some (e, msg))"
proof -
  let ?tid = "replicate 12 7" and ?al = "\<lambda>n. Some (\<lambda>i. 0) :: (nat \<Rightarrow> byte) option"
  let ?A = "attrs_bytes ?tid 0 [fp_attr 5]"
  let ?b = "msg_bytes (STUN_TYPE 1 0) ?tid ?A"
  let ?mb = "\<lparr>mb_buf = ?b, mb_size = 28, mb_pos = 0, mb_end = 28\<rparr>"
  have lA: "length ?A = 8" by (simp add: attrs_bytes_def tail_attrs_length(2))
  then have lb: "length ?b = 28" by (simp add: msg_bytes_def length_hdr_bytes msg_hdr_def)
  have ok: "mbuf_ok ?mb" using lb by (simp add: mbuf_ok_def)
  have a: "mb_after ?mb = hdr_bytes (msg_hdr (STUN_TYPE 1 0) ?tid 8) @ ?A @ []" using lb lA by (simp add: mb_after_def mbuf_get_left_def mbuf_buf_def msg_bytes_def)
  have h: "hdr_ok (msg_hdr (STUN_TYPE 1 0) ?tid 8)" "sh_tid (msg_hdr (STUN_TYPE 1 0) ?tid 8) = ?tid" "unat (sh_len (msg_hdr (STUN_TYPE 1 0) ?tid 8)) = 8"
    using msg_hdr_ok [of ?tid 8] by (simp_all add: msg_hdr_def)
  obtain msg where d: "stun_msg_decode ?al True (\<lambda>p. True) ?mb None = (OK, Some msg, ?mb, None)"
    using msg_decode_bytes [of ?al "\<lambda>p. True" ?mb "msg_hdr (STUN_TYPE 1 0) ?tid 8" 0 "[fp_attr 5]" "[]" None] ok a h lA tail_attrs_ok(2) [of 5]
    by (auto simp: mem_ok_def)
  from stun_checks_safe [OF ok _ d refl refl, of "\<lambda>n. None" "\<lambda>k x. k" "[]"] d show ?thesis by (intro exI [of _ ?mb] exI [of _ msg]) auto
qed

end
