(* ===== verification/StunTrans.thy ===== *)
theory StunTrans
  imports StunSafe
begin

text \<open>
  STUN client transactions (\<^verbatim>\<open>re/src/stun/ctrans.c\<close>) and what is built from them and the codec: the STUN
  instance (\<^verbatim>\<open>stun.c\<close>), requests (\<^verbatim>\<open>req.c\<close>), replies (\<^verbatim>\<open>rep.c\<close>) and indications (\<^verbatim>\<open>ind.c\<close>).

  The calls that leave the component (datagrams, response and indication handlers, sockets) are collected
  in order. A transaction is known by the identity of its object; \<open>st_ptr\<close> are the pointer variables of
  the owners of transactions, which a completed transaction sets to \<^verbatim>\<open>NULL\<close>.
\<close>

section \<open>The instance\<close>

definition EPROTONOSUPPORT :: err where "EPROTONOSUPPORT = 93"
definition ECONNABORTED :: err where "ECONNABORTED = 103"

definition STUN_CLASS_REQUEST :: nat where "STUN_CLASS_REQUEST = 0"
definition STUN_CLASS_INDICATION :: nat where "STUN_CLASS_INDICATION = 1"
definition STUN_CLASS_SUCCESS_RESP :: nat where "STUN_CLASS_SUCCESS_RESP = 2"
definition STUN_CLASS_ERROR_RESP :: nat where "STUN_CLASS_ERROR_RESP = 3"

definition STUN_METHOD_BINDING :: u16 where "STUN_METHOD_BINDING = 1"

datatype stun_proto = P_udp | P_tcp | P_dtls | P_other

record stun_conf =
  sc_rto :: u32
  sc_rc :: u32
  sc_rm :: u32
  sc_ti :: u32
  sc_tos :: byte

definition conf_default :: stun_conf where
  "conf_default = \<lparr>sc_rto = 500, sc_rc = 7, sc_rm = 16, sc_ti = 39500, sc_tos = 0\<rparr>"

type_synonym sock = nat
type_synonym ct_name = nat

record stun_ctrans =
  ct_id :: ct_name
  ct_tmr :: "u32 option"
  ct_dst :: "sa option"
  ct_tid :: "byte list"
  ct_ctp :: "nat option"
  ct_key :: "byte list option"
  ct_sock :: "sock option"
  ct_mb :: mbuf
  ct_pos :: nat
  ct_resph :: bool
  ct_proto :: stun_proto
  ct_txc :: u32
  ct_ival :: u32
  ct_met :: u16

record stun =
  st_ctl :: "stun_ctrans list"
  st_conf :: stun_conf
  st_indh :: bool
  st_ptr :: "nat \<Rightarrow> ct_name option"

datatype stun_act =
    A_send stun_proto sock "sa option" "byte list"
  | A_listen
  | A_connect
  | A_helper sock
  | A_resp ct_name err u16 "byte list option" "stun_msg option"
  | A_ind stun_msg

definition stun_alloc :: "bool \<Rightarrow> stun_conf option \<Rightarrow> bool \<Rightarrow> err \<times> stun option" where
  "stun_alloc zm conf indh =
     (if \<not> zm then (ENOMEM, None)
      else (OK, Some \<lparr>st_ctl = [], st_conf = (case conf of None \<Rightarrow> conf_default | Some c \<Rightarrow> c), st_indh = indh, st_ptr = (\<lambda>p. None)\<rparr>))"

text \<open>\<open>net\<close> is the result of the socket's sending function.\<close>

definition stun_send :: "err \<Rightarrow> stun_proto \<Rightarrow> sock option \<Rightarrow> sa option \<Rightarrow> mbuf \<Rightarrow> err \<times> stun_act list" where
  "stun_send net proto sock dst mb =
     (case sock of
        None \<Rightarrow> (EINVAL, [])
      | Some s \<Rightarrow>
          if proto = P_other then (EPROTONOSUPPORT, [])
          else (net, [A_send proto s (if proto = P_udp then dst else None) (bytes_left mb)]))"

section \<open>Transactions\<close>

definition ct_remove :: "ct_name \<Rightarrow> stun \<Rightarrow> stun" where
  "ct_remove i stun = stun\<lparr>st_ctl := filter (\<lambda>c. ct_id c \<noteq> i) (st_ctl stun)\<rparr>"

definition ct_update :: "stun_ctrans \<Rightarrow> stun \<Rightarrow> stun" where
  "ct_update ct stun = stun\<lparr>st_ctl := map (\<lambda>c. if ct_id c = ct_id ct then ct else c) (st_ctl stun)\<rparr>"

definition completed :: "stun \<Rightarrow> stun_ctrans \<Rightarrow> err \<Rightarrow> u16 \<Rightarrow> byte list option \<Rightarrow> stun_msg option \<Rightarrow> stun \<times> stun_act list" where
  "completed stun ct err scode reason msg =
     (let stun = ct_remove (ct_id ct) stun;
          stun = (case ct_ctp ct of None \<Rightarrow> stun | Some p \<Rightarrow> stun\<lparr>st_ptr := (st_ptr stun)(p := None)\<rparr>)
      in (stun, if ct_resph ct then [A_resp (ct_id ct) err scode reason msg] else []))"

definition timeout_handler :: "err \<Rightarrow> stun \<Rightarrow> stun_ctrans \<Rightarrow> stun \<times> stun_act list" where
  "timeout_handler net stun ct =
     (let cfg = st_conf stun; over = (ct_txc ct \<ge> sc_rc cfg); ct = ct\<lparr>ct_txc := ct_txc ct + 1, ct_tmr := None\<rparr>
      in if over then completed stun ct ETIMEDOUT 0 None None
      else
        let ct = ct\<lparr>ct_mb := (ct_mb ct)\<lparr>mb_pos := ct_pos ct\<rparr>\<rparr>;
            (e, acts) = stun_send net (ct_proto ct) (ct_sock ct) (ct_dst ct) (ct_mb ct)
        in if e \<noteq> OK then let (stun, acts') = completed stun ct e 0 None None in (stun, acts @ acts')
           else
             let ct = ct\<lparr>ct_ival := (if ct_txc ct \<ge> sc_rc cfg then sc_rto cfg * sc_rm cfg else ct_ival ct * 2)\<rparr>
             in (ct_update (ct\<lparr>ct_tmr := Some (ct_ival ct)\<rparr>) stun, acts))"

definition match_handler :: "stun_msg \<Rightarrow> stun_ctrans \<Rightarrow> bool" where
  "match_handler msg ct \<longleftrightarrow> ct_met ct = stun_msg_method msg \<and> ct_tid ct = stun_msg_tid msg"

definition tcp_estab_handler :: "err \<Rightarrow> stun \<Rightarrow> stun_ctrans \<Rightarrow> stun \<times> stun_act list" where
  "tcp_estab_handler net stun ct =
     (let acts = (case ct_sock ct of None \<Rightarrow> [] | Some s \<Rightarrow> [A_send P_tcp s None (bytes_left (ct_mb ct))])
      in if net = OK then (stun, acts)
         else let (stun, acts') = completed stun ct net 0 None None in (stun, acts @ acts'))"

definition tcp_close_handler :: "err \<Rightarrow> stun \<Rightarrow> stun_ctrans \<Rightarrow> stun \<times> stun_act list" where
  "tcp_close_handler err stun ct = completed stun ct err 0 None None"

subsection \<open>Responses\<close>

definition reason_ok :: "byte list" where
  "reason_ok = [0x4f, 0x4b, 0]"

text \<open>The error so far, and the code and reason of an error response.\<close>

definition resp_errcode :: "stun_msg \<Rightarrow> (err \<times> u16 \<times> byte list) option" where
  "resp_errcode msg =
     (if unat (stun_msg_class msg) = STUN_CLASS_ERROR_RESP then
        case stun_msg_attr msg STUN_ATTR_ERR_CODE of
          None \<Rightarrow> Some (EPROTO, 0, reason_ok)
        | Some a \<Rightarrow> (case sa_v a of V_err_code code reason \<Rightarrow> Some (OK, code, reason) | _ \<Rightarrow> None)
      else Some (OK, 0, reason_ok))"

definition resp_check ::
  "allocator \<Rightarrow> (byte list \<Rightarrow> byte list \<Rightarrow> byte list) \<Rightarrow> stun_ctrans \<Rightarrow> u16 \<Rightarrow> stun_msg \<Rightarrow> (err \<times> stun_msg) option" where
  "resp_check al hmac ct code msg =
     (if code = 401 \<or> code = 438 then Some (OK, msg)
      else case ct_key ct of None \<Rightarrow> Some (OK, msg) | Some key \<Rightarrow> stun_msg_chk_mi al hmac msg key)"

definition stun_ctrans_recv ::
  "allocator \<Rightarrow> (byte list \<Rightarrow> byte list \<Rightarrow> byte list) \<Rightarrow> stun \<Rightarrow> stun_msg \<Rightarrow> u16 list \<Rightarrow> (err \<times> stun \<times> stun_act list) option" where
  "stun_ctrans_recv al hmac stun msg ua =
     (if unat (stun_msg_class msg) \<noteq> STUN_CLASS_ERROR_RESP \<and> unat (stun_msg_class msg) \<noteq> STUN_CLASS_SUCCESS_RESP then Some (OK, stun, [])
      else case resp_errcode msg of
        None \<Rightarrow> None
      | Some (herr, code, reason) \<Rightarrow>
          (case find (match_handler msg) (st_ctl stun) of
             None \<Rightarrow> Some (ENOENT, stun, [])
           | Some ct \<Rightarrow>
               (case resp_check al hmac ct code msg of
                  None \<Rightarrow> None
                | Some (e, msg) \<Rightarrow>
                    if e \<noteq> OK then Some (e, stun, [])
                    else let herr = (if herr = OK \<and> ua \<noteq> [] then EPROTO else herr);
                             (stun, acts) = completed stun ct herr code (Some reason) (Some msg)
                         in Some (OK, stun, acts))))"

definition stun_recv ::
  "allocator \<Rightarrow> bool \<Rightarrow> (nat \<Rightarrow> bool) \<Rightarrow> (byte list \<Rightarrow> byte list \<Rightarrow> byte list) \<Rightarrow> stun \<Rightarrow> mbuf \<Rightarrow> (err \<times> stun \<times> stun_act list) option" where
  "stun_recv al zm mem hmac stun mb =
     (case stun_msg_decode al zm mem mb (Some []) of
        (e, None, mb, ua) \<Rightarrow> Some (e, stun, [])
      | (e, Some msg, mb, ua) \<Rightarrow>
          if unat (stun_msg_class msg) = STUN_CLASS_INDICATION
          then Some (OK, stun, if ua \<noteq> Some [] then [] else if st_indh stun then [A_ind msg] else [])
          else if unat (stun_msg_class msg) = STUN_CLASS_ERROR_RESP \<or> unat (stun_msg_class msg) = STUN_CLASS_SUCCESS_RESP
          then stun_ctrans_recv al hmac stun msg (case ua of None \<Rightarrow> [] | Some ts \<Rightarrow> ts)
          else Some (OK, stun, []))"

text \<open>Datagrams come to the instance from a socket of its own, from a helper on a shared socket, or from a TCP connection.\<close>

definition udp_recv_handler_helper ::
  "allocator \<Rightarrow> bool \<Rightarrow> (nat \<Rightarrow> bool) \<Rightarrow> (byte list \<Rightarrow> byte list \<Rightarrow> byte list) \<Rightarrow> stun \<Rightarrow> mbuf \<Rightarrow> (bool \<times> stun \<times> stun_act list) option" where
  "udp_recv_handler_helper al zm mem hmac stun mb =
     (if mb_buf mb = [] then None
      else if hd (mb_buf mb) AND 0xc0 \<noteq> 0 then Some (False, stun, [])
      else map_option (\<lambda>(e, stun, acts). (e = OK, stun, acts)) (stun_recv al zm mem hmac stun mb))"

subsection \<open>Requests\<close>

text \<open>What the calls out of a request return.\<close>

record ct_env =
  en_zalloc :: bool
  en_key :: bool
  en_listen :: "err \<times> sock"
  en_connect :: "err \<times> sock"
  en_send :: err

definition request_start :: "ct_env \<Rightarrow> stun_conf \<Rightarrow> sock option \<Rightarrow> sa option \<Rightarrow> mbuf \<Rightarrow> stun_ctrans \<Rightarrow> err \<times> stun_ctrans \<times> stun_act list" where
  "request_start en cfg sock dst mb ct =
     (case ct_proto ct of
        P_udp \<Rightarrow>
          (case dst of
             None \<Rightarrow> (EINVAL, ct, [])
           | Some d \<Rightarrow>
               let ct = ct\<lparr>ct_dst := Some d, ct_ival := sc_rto cfg, ct_tmr := Some (sc_rto cfg)\<rparr>
               in case sock of
                 None \<Rightarrow>
                   (case en_listen en of
                      (e, s) \<Rightarrow> if e \<noteq> OK then (e, ct, [A_listen])
                        else (en_send en, ct\<lparr>ct_sock := Some s, ct_txc := 1\<rparr>, [A_listen, A_send P_udp s dst (bytes_left mb)]))
               | Some s \<Rightarrow> (en_send en, ct\<lparr>ct_txc := 1\<rparr>, [A_helper s, A_send P_udp s dst (bytes_left mb)]))
      | P_tcp \<Rightarrow>
          let ct = ct\<lparr>ct_txc := sc_rc cfg, ct_tmr := Some (sc_ti cfg)\<rparr>
          in (case sock of
                None \<Rightarrow> (case en_connect en of (e, s) \<Rightarrow> (e, ct\<lparr>ct_sock := Some s\<rparr>, [A_connect]))
              | Some s \<Rightarrow> (en_send en, ct, [A_send P_tcp s None (bytes_left mb)]))
      | P_dtls \<Rightarrow>
          (case sock of
             None \<Rightarrow> (EINVAL, ct, [])
           | Some s \<Rightarrow>
               (en_send en, ct\<lparr>ct_ival := sc_rto cfg, ct_tmr := Some (sc_rto cfg), ct_txc := 1\<rparr>, [A_send P_dtls s None (bytes_left mb)]))
      | P_other \<Rightarrow> (EPROTONOSUPPORT, ct, []))"

definition stun_ctrans_request ::
  "ct_env \<Rightarrow> ct_name \<Rightarrow> nat option \<Rightarrow> stun \<Rightarrow> stun_proto \<Rightarrow> sock option \<Rightarrow> sa option \<Rightarrow> mbuf \<Rightarrow> byte list \<Rightarrow> u16 \<Rightarrow> byte list option \<Rightarrow> bool \<Rightarrow>
     err \<times> stun \<times> stun_act list" where
  "stun_ctrans_request en i ctp stun proto sock dst mb tid met key resph =
     (if \<not> en_zalloc en then (ENOMEM, stun, [])
      else if key \<noteq> None \<and> \<not> en_key en then (ENOMEM, stun, [])
      else
        let ct = \<lparr>ct_id = i, ct_tmr = None, ct_dst = None, ct_tid = tid, ct_ctp = None, ct_key = key, ct_sock = sock, ct_mb = mb,
                  ct_pos = mb_pos mb, ct_resph = False, ct_proto = proto, ct_txc = 0, ct_ival = 0, ct_met = met\<rparr>;
            (e, ct, acts) = request_start en (st_conf stun) sock dst mb ct
        in if e \<noteq> OK then (e, stun, acts)
           else
             let stun = (case ctp of None \<Rightarrow> stun | Some p \<Rightarrow> stun\<lparr>st_ptr := (st_ptr stun)(p := Some i)\<rparr>)
             in (OK, stun\<lparr>st_ctl := st_ctl stun @ [ct\<lparr>ct_ctp := ctp, ct_resph := resph\<rparr>]\<rparr>, acts))"

text \<open>The owner drops its transaction with \<^verbatim>\<open>mem_deref\<close>; the handler is not called.\<close>

definition ct_cancel :: "nat \<Rightarrow> stun \<Rightarrow> stun" where
  "ct_cancel p stun =
     (case st_ptr stun p of None \<Rightarrow> stun | Some i \<Rightarrow> (ct_remove i stun)\<lparr>st_ptr := (st_ptr stun)(p := None)\<rparr>)"

fun close_all :: "stun_ctrans list \<Rightarrow> stun \<Rightarrow> stun \<times> stun_act list" where
  "close_all [] stun = (stun, [])"
| "close_all (ct # cts) stun =
     (let (stun, acts) = completed stun ct ECONNABORTED 0 None None; (stun, acts') = close_all cts stun in (stun, acts @ acts'))"

definition stun_ctrans_close :: "stun \<Rightarrow> stun \<times> stun_act list" where
  "stun_ctrans_close stun = close_all (st_ctl stun) stun"

definition stun_request ::
  "allocator \<Rightarrow> (byte list \<Rightarrow> byte list \<Rightarrow> byte list) \<Rightarrow> ct_env \<Rightarrow> ct_name \<Rightarrow> nat option \<Rightarrow> stun \<Rightarrow> stun_proto \<Rightarrow> sock option \<Rightarrow> sa option \<Rightarrow> nat \<Rightarrow>
     u16 \<Rightarrow> byte list option \<Rightarrow> bool \<Rightarrow> bool \<Rightarrow> byte list \<Rightarrow> (u16 \<times> stun_val option) list \<Rightarrow> (err \<times> stun \<times> stun_act list) option" where
  "stun_request al hmac en i ctp stun proto sock dst presz method key fp resph tid attrs =
     (case mbuf_alloc al 512 of
        None \<Rightarrow> Some (ENOMEM, stun, [])
      | Some mb \<Rightarrow>
          (case stun_msg_vencode al hmac (mb\<lparr>mb_pos := presz\<rparr>) method (of_nat STUN_CLASS_REQUEST) tid None key fp 0 attrs of
             None \<Rightarrow> None
           | Some (e, mb) \<Rightarrow>
               if e \<noteq> OK then Some (e, stun, [])
               else Some (stun_ctrans_request en i ctp stun proto sock dst (mb\<lparr>mb_pos := presz\<rparr>) tid method key resph)))"

subsection \<open>Replies and indications\<close>

definition encode_and_send ::
  "allocator \<Rightarrow> (byte list \<Rightarrow> byte list \<Rightarrow> byte list) \<Rightarrow> err \<Rightarrow> nat \<Rightarrow> stun_proto \<Rightarrow> sock option \<Rightarrow> sa option \<Rightarrow> nat \<Rightarrow> u16 \<Rightarrow> nat \<Rightarrow> byte list \<Rightarrow>
     stun_val option \<Rightarrow> byte list option \<Rightarrow> bool \<Rightarrow> (u16 \<times> stun_val option) list \<Rightarrow> (err \<times> stun_act list) option" where
  "encode_and_send al hmac net sz proto sock dst presz method cls tid ec key fp attrs =
     (case mbuf_alloc al sz of
        None \<Rightarrow> Some (ENOMEM, [])
      | Some mb \<Rightarrow>
          (case stun_msg_vencode al hmac (mb\<lparr>mb_pos := presz\<rparr>) method (of_nat cls) tid ec key fp 0 attrs of
             None \<Rightarrow> None
           | Some (e, mb) \<Rightarrow> if e \<noteq> OK then Some (e, []) else Some (stun_send net proto sock dst (mb\<lparr>mb_pos := presz\<rparr>))))"

definition stun_reply ::
  "allocator \<Rightarrow> (byte list \<Rightarrow> byte list \<Rightarrow> byte list) \<Rightarrow> err \<Rightarrow> stun_proto \<Rightarrow> sock option \<Rightarrow> sa option \<Rightarrow> nat \<Rightarrow> stun_msg \<Rightarrow>
     byte list option \<Rightarrow> bool \<Rightarrow> (u16 \<times> stun_val option) list \<Rightarrow> (err \<times> stun_act list) option" where
  "stun_reply al hmac net proto sock dst presz req key fp attrs =
     (if sock = None then Some (EINVAL, [])
      else encode_and_send al hmac net 256 proto sock dst presz (stun_msg_method req) STUN_CLASS_SUCCESS_RESP (stun_msg_tid req) None key fp attrs)"

definition stun_ereply ::
  "allocator \<Rightarrow> (byte list \<Rightarrow> byte list \<Rightarrow> byte list) \<Rightarrow> err \<Rightarrow> stun_proto \<Rightarrow> sock option \<Rightarrow> sa option \<Rightarrow> nat \<Rightarrow> stun_msg \<Rightarrow> u16 \<Rightarrow> byte list \<Rightarrow>
     byte list option \<Rightarrow> bool \<Rightarrow> (u16 \<times> stun_val option) list \<Rightarrow> (err \<times> stun_act list) option" where
  "stun_ereply al hmac net proto sock dst presz req scode reason key fp attrs =
     (if sock = None \<or> scode = 0 then Some (EINVAL, [])
      else encode_and_send al hmac net 256 proto sock dst presz (stun_msg_method req) STUN_CLASS_ERROR_RESP (stun_msg_tid req)
             (Some (V_err_code scode reason)) key fp attrs)"

definition stun_indication ::
  "allocator \<Rightarrow> (byte list \<Rightarrow> byte list \<Rightarrow> byte list) \<Rightarrow> err \<Rightarrow> stun_proto \<Rightarrow> sock option \<Rightarrow> sa option \<Rightarrow> nat \<Rightarrow> u16 \<Rightarrow> byte list option \<Rightarrow> bool \<Rightarrow>
     byte list \<Rightarrow> (u16 \<times> stun_val option) list \<Rightarrow> (err \<times> stun_act list) option" where
  "stun_indication al hmac net proto sock dst presz method key fp tid attrs =
     (if sock = None then Some (EINVAL, [])
      else encode_and_send al hmac net 2048 proto sock dst presz method STUN_CLASS_INDICATION tid None key fp attrs)"

end
