(* ===== verification/StunRun.thy ===== *)
theory StunRun
  imports StunTrans
begin

text \<open>
  Runs of STUN client transactions: what happens when no response comes, what holds in every run of an
  instance, when a response is trusted, and a request and its reply from end to end.
\<close>

section \<open>Retransmission\<close>

definition find_ct :: "ct_name \<Rightarrow> stun \<Rightarrow> stun_ctrans option" where
  "find_ct i stun = find (\<lambda>c. ct_id c = i) (st_ctl stun)"

text \<open>The timer of a transaction expires up to \<open>n\<close> times, sending works, and nothing else happens. The last part of the result is the time that passes.\<close>

fun expire :: "nat \<Rightarrow> ct_name \<Rightarrow> stun \<Rightarrow> stun \<times> stun_act list \<times> nat" where
  "expire 0 i stun = (stun, [], 0)"
| "expire (Suc n) i stun =
     (case find_ct i stun of
        None \<Rightarrow> (stun, [], 0)
      | Some ct \<Rightarrow>
          (case ct_tmr ct of
             None \<Rightarrow> (stun, [], 0)
           | Some d \<Rightarrow>
               let (stun, acts) = timeout_handler OK stun ct; (stun, acts', t) = expire n i stun in (stun, acts @ acts', unat d + t)))"

lemma find_ct_id: "find_ct i stun = Some ct \<Longrightarrow> ct_id ct = i"
  by (auto simp: find_ct_def find_Some_iff)

lemma find_ct_update:
  "find_ct i stun = Some ct \<Longrightarrow> ct_id ct' = i \<Longrightarrow> find_ct i (ct_update ct' stun) = Some ct'"
proof -
  assume a: "find_ct i stun = Some ct" "ct_id ct' = i"
  have "find (\<lambda>c. ct_id c = i) xs = Some ct \<Longrightarrow> find (\<lambda>c. ct_id c = i) (map (\<lambda>c. if ct_id c = i then ct' else c) xs) = Some ct'" for xs
    using a(2) by (induction xs) auto
  then show ?thesis using a by (simp add: find_ct_def ct_update_def)
qed

lemma find_ct_removed [simp]: "find_ct i (ct_remove i stun) = None"
  by (auto simp: find_ct_def ct_remove_def find_None_iff)

lemma completed_simps [simp]:
  "st_ctl (fst (completed stun ct e c r m)) = filter (\<lambda>c. ct_id c \<noteq> ct_id ct) (st_ctl stun)"
  "st_conf (fst (completed stun ct e c r m)) = st_conf stun" "st_indh (fst (completed stun ct e c r m)) = st_indh stun"
  "st_ptr (fst (completed stun ct e c r m)) = (case ct_ctp ct of None \<Rightarrow> st_ptr stun | Some p \<Rightarrow> (st_ptr stun)(p := None))"
  by (simp_all add: completed_def ct_remove_def Let_def split: option.splits)

lemma completed_gone: "find_ct (ct_id ct) (fst (completed stun ct e c r m)) = None"
  by (simp add: find_ct_def find_None_iff)

lemma completed_resp: "ct_resph ct \<Longrightarrow> snd (completed stun ct e c r m) = [A_resp (ct_id ct) e c r m]"
  by (simp add: completed_def Let_def)

lemma ct_update_conf [simp]: "st_conf (ct_update ct stun) = st_conf stun"
  by (simp add: ct_update_def)

text \<open>A transaction that has been sent \<open>k\<close> times and waits for the next expiry.\<close>

definition waiting :: "stun_conf \<Rightarrow> nat \<Rightarrow> sock \<Rightarrow> stun_ctrans \<Rightarrow> bool" where
  "waiting cfg k s ct \<longleftrightarrow>
     ct_proto ct = P_udp \<and> ct_sock ct = Some s \<and> ct_resph ct \<and> unat (ct_txc ct) = k
     \<and> ct_tmr ct = Some (ct_ival ct)
     \<and> unat (ct_ival ct) = (if k < unat (sc_rc cfg) then unat (sc_rto cfg) * 2 ^ (k - 1) else unat (sc_rto cfg) * unat (sc_rm cfg))"

definition ct_packet :: "stun_ctrans \<Rightarrow> byte list" where
  "ct_packet ct = bytes_left ((ct_mb ct)\<lparr>mb_pos := ct_pos ct\<rparr>)"

lemma u32_mult: "unat a * unat b < 2 ^ 32 \<Longrightarrow> unat (a * b :: u32) = unat a * unat b"
  by (simp add: unat_word_ariths)

lemma expire_step:
  assumes "find_ct i stun = Some ct" "waiting (st_conf stun) k s ct" "1 \<le> k" "k < unat (sc_rc (st_conf stun))"
    and "unat (sc_rto (st_conf stun)) * 2 ^ unat (sc_rc (st_conf stun)) < 2 ^ 32" "unat (sc_rto (st_conf stun)) * unat (sc_rm (st_conf stun)) < 2 ^ 32"
  obtains ct' where "timeout_handler OK stun ct = (ct_update ct' stun, [A_send P_udp s (ct_dst ct) (ct_packet ct)])" "ct_id ct' = i"
    "waiting (st_conf stun) (Suc k) s ct'" "ct_dst ct' = ct_dst ct" "ct_packet ct' = ct_packet ct"
proof -
  let ?cfg = "st_conf stun"
  define txc where "txc = ct_txc ct + 1"
  define ival where "ival = (if txc \<ge> sc_rc ?cfg then sc_rto ?cfg * sc_rm ?cfg else ct_ival ct * 2)"
  have k: "unat (ct_txc ct) = k" using assms(2) by (simp add: waiting_def)
  have lt: "unat (sc_rc ?cfg) < 2 ^ 32" using unsigned_less [of "sc_rc ?cfg", where ?'a = nat] by simp
  have tx: "unat txc = Suc k" using k assms(4) lt by (simp add: txc_def unat_word_ariths)
  have iv: "unat ival = (if Suc k < unat (sc_rc ?cfg) then unat (sc_rto ?cfg) * 2 ^ k else unat (sc_rto ?cfg) * unat (sc_rm ?cfg))"
  proof (cases "Suc k < unat (sc_rc ?cfg)")
    case True
    have "unat (sc_rto ?cfg) * 2 ^ k \<le> unat (sc_rto ?cfg) * 2 ^ unat (sc_rc ?cfg)" using assms(4) by (intro mult_left_mono power_increasing) simp_all
    from le_less_trans [OF this assms(5)] have "unat (sc_rto ?cfg) * 2 ^ k < 2 ^ 32" .
    moreover have "unat (ct_ival ct) * 2 = unat (sc_rto ?cfg) * 2 ^ k"
      using assms(2-4) power_Suc [of "2 :: nat" "k - 1"] by (simp add: waiting_def)
    ultimately show ?thesis using True tx u32_mult [of "ct_ival ct" 2] by (simp add: ival_def word_le_nat_alt)
  next
    case False
    then show ?thesis using tx assms(6) u32_mult by (simp add: ival_def word_le_nat_alt)
  qed
  let ?ct = "ct\<lparr>ct_txc := txc, ct_mb := (ct_mb ct)\<lparr>mb_pos := ct_pos ct\<rparr>, ct_ival := ival, ct_tmr := Some ival\<rparr>"
  have "timeout_handler OK stun ct = (ct_update ?ct stun, [A_send P_udp s (ct_dst ct) (ct_packet ct)])"
    using assms(2,4) k by (simp add: timeout_handler_def waiting_def stun_send_def ct_packet_def Let_def word_le_nat_alt txc_def ival_def)
  moreover have "waiting ?cfg (Suc k) s ?ct" using assms(2) tx iv by (simp add: waiting_def)
  ultimately show ?thesis using find_ct_id [OF assms(1)] by (intro that [of ?ct]) (simp_all add: ct_packet_def)
qed

text \<open>The time until a transaction that has been sent \<open>k\<close> times ends, after its current wait.\<close>

lemma expire_last:
  assumes "find_ct i stun = Some ct" "waiting (st_conf stun) k s ct" "k = unat (sc_rc (st_conf stun))"
  shows "\<exists>stun'. expire (Suc n) i stun = (stun', [A_resp i ETIMEDOUT 0 None None], unat (sc_rto (st_conf stun)) * unat (sc_rm (st_conf stun))) \<and> find_ct i stun' = None"
proof -
  let ?ct = "ct\<lparr>ct_txc := ct_txc ct + 1, ct_tmr := None\<rparr>"
  have id: "ct_id ct = i" using find_ct_id [OF assms(1)] .
  define stun' where "stun' = fst (completed stun ?ct ETIMEDOUT 0 None None)"
  have t: "timeout_handler OK stun ct = (stun', [A_resp i ETIMEDOUT 0 None None])"
    using assms(2,3) completed_resp [of ?ct stun ETIMEDOUT 0 None None] id
    by (simp add: timeout_handler_def waiting_def Let_def word_le_nat_alt stun'_def prod_eq_iff)
  have g: "find_ct i stun' = None" using completed_gone [of ?ct stun] id by (simp add: stun'_def)
  then have "expire n i stun' = (stun', [], 0)" by (cases n) simp_all
  with t g show ?thesis using assms by (simp add: waiting_def)
qed

lemma expire_all:
  assumes "unat (sc_rto cfg) * 2 ^ unat (sc_rc cfg) < 2 ^ 32" "unat (sc_rto cfg) * unat (sc_rm cfg) < 2 ^ 32"
  shows "k + m = unat (sc_rc cfg) \<Longrightarrow> 1 \<le> k \<Longrightarrow> 1 \<le> m \<Longrightarrow> st_conf stun = cfg \<Longrightarrow> find_ct i stun = Some ct \<Longrightarrow> waiting cfg k s ct \<Longrightarrow>
    \<exists>stun'. expire (Suc m) i stun =
        (stun', replicate m (A_send P_udp s (ct_dst ct) (ct_packet ct)) @ [A_resp i ETIMEDOUT 0 None None],
         unat (sc_rto cfg) * (2 ^ (unat (sc_rc cfg) - 1) - 2 ^ (k - 1)) + unat (sc_rto cfg) * unat (sc_rm cfg))
      \<and> find_ct i stun' = None"
proof (induction m arbitrary: k stun ct)
  case (Suc m)
  note IH = Suc.IH and P = Suc.prems
  have k: "k < unat (sc_rc cfg)" using P(1) by simp
  obtain ct' where t: "timeout_handler OK stun ct = (ct_update ct' stun, [A_send P_udp s (ct_dst ct) (ct_packet ct)])" "ct_id ct' = i"
    "waiting cfg (Suc k) s ct'" "ct_dst ct' = ct_dst ct" "ct_packet ct' = ct_packet ct"
    by (rule expire_step [OF P(5), of k s]) (use P k assms in auto)
  have f: "find_ct i (ct_update ct' stun) = Some ct'" using find_ct_update P(5) t(2) .
  have d: "ct_tmr ct = Some (ct_ival ct)" "unat (ct_ival ct) = unat (sc_rto cfg) * 2 ^ (k - 1)" using P(6) k by (simp_all add: waiting_def)
  have step: "expire (Suc (Suc m)) i stun =
      (let (stun, acts, t) = expire (Suc m) i (ct_update ct' stun) in (stun, A_send P_udp s (ct_dst ct) (ct_packet ct) # acts, unat (sc_rto cfg) * 2 ^ (k - 1) + t))"
    using P(5) d t(1) by (subst expire.simps) (simp add: Let_def split_def del: expire.simps)
  show ?case
  proof (cases m)
    case 0
    then have c: "Suc k = unat (sc_rc (st_conf (ct_update ct' stun)))" using P(1,4) by simp
    have e: "2 ^ (unat (sc_rc cfg) - 1) - 2 ^ (k - 1) = (2 :: nat) ^ (k - 1)" proof -
      have "unat (sc_rc cfg) - 1 = Suc (k - 1)" using c P(2,4) by simp
      then show ?thesis by simp
    qed
    show ?thesis using expire_last [OF f _ c, of s m] t(3) P(4) step e 0 by (auto simp: Let_def simp del: expire.simps)
  next
    case (Suc m')
    have e: "unat (sc_rto cfg) * (2 ^ (unat (sc_rc cfg) - 1) - 2 ^ (k - 1)) =
        unat (sc_rto cfg) * 2 ^ (k - 1) + unat (sc_rto cfg) * (2 ^ (unat (sc_rc cfg) - 1) - 2 ^ k)"
    proof -
      have b: "(2 :: nat) ^ k = 2 * 2 ^ (k - 1)" using P(2) by (cases k) simp_all
      have "(2 :: nat) ^ k \<le> 2 ^ (unat (sc_rc cfg) - 1)" using k by (intro power_increasing) simp_all
      then have "(2 :: nat) ^ (unat (sc_rc cfg) - 1) - 2 ^ (k - 1) = 2 ^ (k - 1) + (2 ^ (unat (sc_rc cfg) - 1) - 2 ^ k)" using b by simp
      then show ?thesis by (simp only: add_mult_distrib2)
    qed
    show ?thesis using IH [of "Suc k" "ct_update ct' stun" ct'] P f t step e Suc by (auto simp: Let_def simp del: expire.simps)
  qed
qed simp

text \<open>
  C18. A request over UDP that nobody answers is sent exactly \<open>rc\<close> times, with the wait doubling from
  \<open>rto\<close> and a last wait of \<open>rto * rm\<close>. Then its handler is called once, with a timeout, and the
  transaction is gone. The time that passes is the sum of the waits.
\<close>

theorem stun_ctrans_timeout:
  assumes "st_conf stun = cfg" "2 \<le> unat (sc_rc cfg)"
    and "unat (sc_rto cfg) * 2 ^ unat (sc_rc cfg) < 2 ^ 32" "unat (sc_rto cfg) * unat (sc_rm cfg) < 2 ^ 32"
    and "find_ct i stun = None" "en_zalloc en" "key = None \<or> en_key en" "en_send en = OK"
  shows "\<exists>stun1 stun2. stun_ctrans_request en i ctp stun P_udp (Some s) (Some d) mb tid met key True =
        (OK, stun1, [A_helper s, A_send P_udp s (Some d) (bytes_left mb)])
    \<and> expire (unat (sc_rc cfg)) i stun1 =
        (stun2, replicate (unat (sc_rc cfg) - 1) (A_send P_udp s (Some d) (bytes_left mb)) @ [A_resp i ETIMEDOUT 0 None None],
         unat (sc_rto cfg) * (2 ^ (unat (sc_rc cfg) - 1) - 1) + unat (sc_rto cfg) * unat (sc_rm cfg))
    \<and> find_ct i stun2 = None"
proof -
  let ?ct = "\<lparr>ct_id = i, ct_tmr = Some (sc_rto cfg), ct_dst = Some d, ct_tid = tid, ct_ctp = ctp, ct_key = key, ct_sock = Some s, ct_mb = mb,
    ct_pos = mb_pos mb, ct_resph = True, ct_proto = P_udp, ct_txc = 1, ct_ival = sc_rto cfg, ct_met = met\<rparr>"
  obtain stun1 where r: "stun_ctrans_request en i ctp stun P_udp (Some s) (Some d) mb tid met key True =
      (OK, stun1, [A_helper s, A_send P_udp s (Some d) (bytes_left mb)])" "st_conf stun1 = cfg" "st_ctl stun1 = st_ctl stun @ [?ct]"
    using assms(1,6-8) by (auto simp: stun_ctrans_request_def request_start_def Let_def split: option.splits)
  have f: "find_ct i stun1 = Some ?ct" using assms(5) r(3) by (simp add: find_ct_def find_append)
  have w: "waiting cfg 1 s ?ct" using assms(2) by (simp add: waiting_def)
  obtain m where m: "unat (sc_rc cfg) = Suc m" "1 \<le> m" using assms(2) by (cases "unat (sc_rc cfg)") simp_all
  have "ct_packet ?ct = bytes_left mb" by (simp add: ct_packet_def mb_pos_same)
  then show ?thesis using expire_all [OF assms(3,4), of 1 m stun1 i ?ct s] f w m r by (auto simp del: expire.simps)
qed

theorem stun_ctrans_timeout_witness:
  "\<exists>stun1 stun2. stun_ctrans_request \<lparr>en_zalloc = True, en_key = True, en_listen = (OK, 0), en_connect = (OK, 0), en_send = OK\<rparr> 1 (Some 0)
        \<lparr>st_ctl = [], st_conf = conf_default, st_indh = False, st_ptr = (\<lambda>p. None)\<rparr> P_udp (Some 4) (Some (Sa_in 1 2)) mbuf_init [] 1 None True =
        (OK, stun1, [A_helper 4, A_send P_udp 4 (Some (Sa_in 1 2)) []])
    \<and> expire 7 1 stun1 = (stun2, replicate 6 (A_send P_udp 4 (Some (Sa_in 1 2)) []) @ [A_resp 1 ETIMEDOUT 0 None None], 39500)"
  using stun_ctrans_timeout [of "\<lparr>st_ctl = [], st_conf = conf_default, st_indh = False, st_ptr = (\<lambda>p. None)\<rparr>" conf_default 1
      "\<lparr>en_zalloc = True, en_key = True, en_listen = (OK, 0), en_connect = (OK, 0), en_send = OK\<rparr>" None "Some 0" 4 "Sa_in 1 2" mbuf_init "[]" 1]
  by (auto simp: conf_default_def find_ct_def bytes_left_def mbuf_init_def mbuf_get_left_def simp del: expire.simps)

section \<open>Every run\<close>

text \<open>The calls made so far and the transactions ever created are kept with the instance.\<close>

record trans_run =
  tr_stun :: stun
  tr_log :: "stun_act list"
  tr_used :: "ct_name set"

definition tr_next :: "trans_run \<Rightarrow> stun \<times> stun_act list \<Rightarrow> trans_run" where
  "tr_next r sa = r\<lparr>tr_stun := fst sa, tr_log := tr_log r @ snd sa\<rparr>"

inductive trans_step :: "allocator \<Rightarrow> (byte list \<Rightarrow> byte list \<Rightarrow> byte list) \<Rightarrow> trans_run \<Rightarrow> trans_run \<Rightarrow> bool"
  for al :: allocator and hmac :: "byte list \<Rightarrow> byte list \<Rightarrow> byte list" where
  t_request: "i \<notin> tr_used r \<Longrightarrow> (\<And>p. ctp = Some p \<Longrightarrow> st_ptr (tr_stun r) p = None) \<Longrightarrow>
    stun_ctrans_request en i ctp (tr_stun r) proto sock dst mb tid met key resph = (e, stun', acts) \<Longrightarrow>
    trans_step al hmac r ((tr_next r (stun', acts))\<lparr>tr_used := insert i (tr_used r)\<rparr>)"
| t_timeout: "ct \<in> set (st_ctl (tr_stun r)) \<Longrightarrow> ct_tmr ct \<noteq> None \<Longrightarrow> trans_step al hmac r (tr_next r (timeout_handler net (tr_stun r) ct))"
| t_recv: "stun_recv al zm mem hmac (tr_stun r) mb = Some (e, stun', acts) \<Longrightarrow> trans_step al hmac r (tr_next r (stun', acts))"
| t_estab: "ct \<in> set (st_ctl (tr_stun r)) \<Longrightarrow> ct_proto ct = P_tcp \<Longrightarrow> trans_step al hmac r (tr_next r (tcp_estab_handler net (tr_stun r) ct))"
| t_closed: "ct \<in> set (st_ctl (tr_stun r)) \<Longrightarrow> ct_proto ct = P_tcp \<Longrightarrow> trans_step al hmac r (tr_next r (tcp_close_handler err (tr_stun r) ct))"
| t_cancel: "trans_step al hmac r (tr_next r (ct_cancel p (tr_stun r), []))"
| t_close: "trans_step al hmac r (tr_next r (stun_ctrans_close (tr_stun r)))"

definition trans_init :: "trans_run \<Rightarrow> bool" where
  "trans_init r \<longleftrightarrow> (\<exists>conf indh. stun_alloc True conf indh = (OK, Some (tr_stun r))) \<and> tr_log r = [] \<and> tr_used r = {}"

definition responses :: "stun_act list \<Rightarrow> ct_name list" where
  "responses log = concat (map (\<lambda>a. case a of A_resp i e c rs m \<Rightarrow> [i] | _ \<Rightarrow> []) log)"

text \<open>
  Transactions are distinct and each has a running timer; the pointers of the owners point to open
  transactions and back; nobody was answered twice, and no open transaction was answered.
\<close>

definition trans_inv :: "trans_run \<Rightarrow> bool" where
  "trans_inv r \<longleftrightarrow>
     distinct (map ct_id (st_ctl (tr_stun r))) \<and> ct_id ` set (st_ctl (tr_stun r)) \<subseteq> tr_used r
     \<and> (\<forall>ct \<in> set (st_ctl (tr_stun r)). ct_tmr ct \<noteq> None)
     \<and> (\<forall>p i. st_ptr (tr_stun r) p = Some i \<longleftrightarrow> (\<exists>ct \<in> set (st_ctl (tr_stun r)). ct_id ct = i \<and> ct_ctp ct = Some p))
     \<and> distinct (responses (tr_log r)) \<and> set (responses (tr_log r)) \<subseteq> tr_used r
     \<and> ct_id ` set (st_ctl (tr_stun r)) \<inter> set (responses (tr_log r)) = {}"

lemma responses_simps [simp]:
  "responses [] = []" "responses (as @ bs) = responses as @ responses bs" "responses (A_resp i e c rs m # as) = i # responses as"
  "responses (A_send p s d b # as) = responses as" "responses (A_listen # as) = responses as" "responses (A_connect # as) = responses as"
  "responses (A_helper s # as) = responses as" "responses (A_ind n # as) = responses as"
  by (simp_all add: responses_def)

lemma tr_next_sel [simp]:
  "tr_stun (tr_next r sa) = fst sa" "tr_log (tr_next r sa) = tr_log r @ snd sa" "tr_used (tr_next r sa) = tr_used r"
  by (simp_all add: tr_next_def)

lemma responses_completed: "responses (snd (completed stun ct e c rs m)) = (if ct_resph ct then [ct_id ct] else [])"
  by (simp add: completed_def Let_def)

lemma inv_ids: "trans_inv r \<Longrightarrow> a \<in> set (st_ctl (tr_stun r)) \<Longrightarrow> b \<in> set (st_ctl (tr_stun r)) \<Longrightarrow> ct_id a = ct_id b \<Longrightarrow> a = b"
  by (auto simp: trans_inv_def distinct_map inj_on_def)

text \<open>Completing a transaction, after other calls that answer nobody.\<close>

lemma completed_inv:
  assumes "trans_inv r" "ct0 \<in> set (st_ctl (tr_stun r))" "ct_id ct = ct_id ct0" "ct_ctp ct = ct_ctp ct0" "responses acts = []"
  shows "trans_inv (tr_next r (fst (completed (tr_stun r) ct e c rs m), acts @ snd (completed (tr_stun r) ct e c rs m)))"
proof -
  let ?s = "tr_stun r"
  note i = assms(1) [unfolded trans_inv_def]
  have "distinct (map ct_id (filter (\<lambda>c. ct_id c \<noteq> ct_id ct) (st_ctl ?s)))" using i by (simp add: distinct_map_filter)
  moreover have "st_ptr (fst (completed ?s ct e c rs m)) p = Some j \<longleftrightarrow>
      (\<exists>x \<in> set (filter (\<lambda>c. ct_id c \<noteq> ct_id ct) (st_ctl ?s)). ct_id x = j \<and> ct_ctp x = Some p)" for p j
  proof (cases "ct_ctp ct = Some p")
    case True
    then have "st_ptr ?s p = Some (ct_id ct)" using i assms(2-4) by auto
    with True i show ?thesis by auto (metis option.inject)+
  next
    case False
    then have "st_ptr (fst (completed ?s ct e c rs m)) p = st_ptr ?s p" by (auto split: option.splits)
    moreover have "ct_id x \<noteq> ct_id ct" if "x \<in> set (st_ctl ?s)" "ct_ctp x = Some p" for x
      using inv_ids [OF assms(1) that(1) assms(2)] that(2) assms(3,4) False by auto
    ultimately show ?thesis using i by auto
  qed
  ultimately show ?thesis using i assms(2,3,5) unfolding trans_inv_def by (auto simp: responses_completed)
qed

lemma completed_only_inv:
  assumes "trans_inv r" "ct0 \<in> set (st_ctl (tr_stun r))" "ct_id ct = ct_id ct0" "ct_ctp ct = ct_ctp ct0"
  shows "trans_inv (tr_next r (completed (tr_stun r) ct e c rs m))"
  using completed_inv [OF assms, of "[]" e c rs m] by simp

lemma inv_quiet: "trans_inv r \<Longrightarrow> responses acts = [] \<Longrightarrow> trans_inv (tr_next r (tr_stun r, acts))"
  by (simp add: trans_inv_def)

lemma ct_update_inv:
  assumes "trans_inv r" "ct0 \<in> set (st_ctl (tr_stun r))" "ct_id ct = ct_id ct0" "ct_ctp ct = ct_ctp ct0" "ct_tmr ct \<noteq> None" "responses acts = []"
  shows "trans_inv (tr_next r (ct_update ct (tr_stun r), acts))"
proof -
  define f where "f c = (if ct_id c = ct_id ct then ct else c)" for c
  let ?l = "st_ctl (tr_stun r)"
  have same: "ct_id (f x) = ct_id x" "ct_ctp (f x) = ct_ctp x" if "x \<in> set ?l" for x
    using inv_ids [OF assms(1) that assms(2)] assms(3,4) by (auto simp: f_def)
  have "map (\<lambda>x. ct_id (f x)) ?l = map ct_id ?l" using same(1) by simp
  then have "distinct (map (\<lambda>x. ct_id (f x)) ?l)" using assms(1) by (simp only: trans_inv_def)
  moreover have "(\<lambda>x. ct_id (f x)) ` set ?l = ct_id ` set ?l" using same(1) by simp
  moreover have "(\<exists>x \<in> set ?l. ct_id (f x) = i \<and> ct_ctp (f x) = Some p) \<longleftrightarrow> (\<exists>x \<in> set ?l. ct_id x = i \<and> ct_ctp x = Some p)" for i p
    using same by auto
  moreover have "\<forall>x \<in> set ?l. ct_tmr (f x) \<noteq> None" using assms(1,5) by (auto simp: trans_inv_def f_def)
  moreover have "st_ctl (ct_update ct (tr_stun r)) = map f ?l" by (simp add: ct_update_def f_def)
  moreover have "st_ptr (ct_update ct (tr_stun r)) = st_ptr (tr_stun r)" by (simp add: ct_update_def)
  ultimately show ?thesis using assms(1,6) unfolding trans_inv_def by (simp add: comp_def image_image)
qed

lemma timeout_inv:
  assumes "trans_inv r" "ct \<in> set (st_ctl (tr_stun r))"
  shows "trans_inv (tr_next r (timeout_handler net (tr_stun r) ct))"
proof -
  have s: "responses (snd (stun_send n p s d mb)) = []" for n p s d mb by (simp add: stun_send_def split: option.splits)
  show ?thesis
    by (auto simp: timeout_handler_def Let_def split_def s intro!: completed_inv [OF assms] completed_only_inv [OF assms] ct_update_inv [OF assms])
qed

lemma ctrans_recv_cases:
  assumes "stun_ctrans_recv al hmac stun msg ua = Some (e, stun', acts)"
  obtains (quiet) "stun' = stun" "acts = []"
  | (answer) ct herr code reason msg' where "unat (stun_msg_class msg) = STUN_CLASS_ERROR_RESP \<or> unat (stun_msg_class msg) = STUN_CLASS_SUCCESS_RESP"
      "resp_errcode msg = Some (herr, code, reason)" "find (match_handler msg) (st_ctl stun) = Some ct" "resp_check al hmac ct code msg = Some (OK, msg')"
      "(stun', acts) = completed stun ct (if herr = OK \<and> ua \<noteq> [] then EPROTO else herr) code (Some reason) (Some msg')"
proof -
  consider "stun' = stun \<and> acts = []" | "\<not> (stun' = stun \<and> acts = [])" by blast
  then show ?thesis
  proof cases
    case 2
    have c: "unat (stun_msg_class msg) = STUN_CLASS_ERROR_RESP \<or> unat (stun_msg_class msg) = STUN_CLASS_SUCCESS_RESP"
      using assms 2 by (simp add: stun_ctrans_recv_def split: if_splits)
    obtain herr code reason where r: "resp_errcode msg = Some (herr, code, reason)"
      using assms c by (cases "resp_errcode msg") (auto simp: stun_ctrans_recv_def)
    obtain ct where f: "find (match_handler msg) (st_ctl stun) = Some ct"
      using assms c r 2 by (cases "find (match_handler msg) (st_ctl stun)") (auto simp: stun_ctrans_recv_def)
    obtain e' msg' where k: "resp_check al hmac ct code msg = Some (e', msg')"
      using assms c r f by (cases "resp_check al hmac ct code msg") (auto simp: stun_ctrans_recv_def)
    have "e' = OK \<and> (stun', acts) = completed stun ct (if herr = OK \<and> ua \<noteq> [] then EPROTO else herr) code (Some reason) (Some msg')"
      using assms c r f k 2 by (auto simp: stun_ctrans_recv_def Let_def split_def split: if_splits)
    with c r f k show ?thesis by (intro answer) auto
  qed (use quiet in blast)
qed

lemma ctrans_recv_inv:
  assumes "trans_inv r" "stun_ctrans_recv al hmac (tr_stun r) msg ua = Some (e, stun', acts)"
  shows "trans_inv (tr_next r (stun', acts))"
  using assms(2)
proof (cases rule: ctrans_recv_cases)
  case quiet
  then show ?thesis using assms(1) by (simp add: inv_quiet)
next
  case (answer ct herr code reason msg')
  have "ct \<in> set (st_ctl (tr_stun r))" using answer(3) by (auto simp: find_Some_iff)
  then show ?thesis unfolding answer(5) using assms(1) by (rule completed_only_inv [rotated, OF _ refl refl])
qed

lemma recv_inv:
  assumes "trans_inv r" "stun_recv al zm mem hmac (tr_stun r) mb = Some (e, stun', acts)"
  shows "trans_inv (tr_next r (stun', acts))"
  using assms ctrans_recv_inv [OF assms(1)]
  by (auto simp: stun_recv_def intro!: inv_quiet split: prod.splits option.splits if_splits)

lemma request_start_ok:
  assumes "request_start en cfg sock dst mb ct = (e, ct', acts)"
  shows "responses acts = []" "ct_id ct' = ct_id ct" "e = OK \<Longrightarrow> ct_tmr ct' \<noteq> None"
  using assms
  by (auto simp: request_start_def EINVAL_def EPROTONOSUPPORT_def Let_def split: stun_proto.splits option.splits prod.splits if_splits)

lemma request_cases:
  assumes "stun_ctrans_request en i ctp stun proto sock dst mb tid met key resph = (e, stun', acts)"
  obtains (failed) "stun' = stun" "responses acts = []"
  | (started) ct where "responses acts = []" "st_ctl stun' = st_ctl stun @ [ct]" "ct_id ct = i" "ct_ctp ct = ctp" "ct_tmr ct \<noteq> None"
      "st_ptr stun' = (case ctp of None \<Rightarrow> st_ptr stun | Some p \<Rightarrow> (st_ptr stun)(p := Some i))"
proof (cases "\<not> en_zalloc en \<or> key \<noteq> None \<and> \<not> en_key en")
  case True
  then show ?thesis using assms by (intro failed) (auto simp: stun_ctrans_request_def split: if_splits)
next
  case False
  let ?ct = "\<lparr>ct_id = i, ct_tmr = None, ct_dst = None, ct_tid = tid, ct_ctp = None, ct_key = key, ct_sock = sock, ct_mb = mb,
    ct_pos = mb_pos mb, ct_resph = False, ct_proto = proto, ct_txc = 0, ct_ival = 0, ct_met = met\<rparr>"
  obtain e1 ct1 acts1 where s: "request_start en (st_conf stun) sock dst mb ?ct = (e1, ct1, acts1)" by (metis surj_pair)
  note ok = request_start_ok [OF s]
  show ?thesis
  proof (cases "e1 = OK")
    case True
    then show ?thesis using assms False s ok
      by (intro started [of "ct1\<lparr>ct_ctp := ctp, ct_resph := resph\<rparr>"]) (auto simp: stun_ctrans_request_def Let_def split: option.splits)
  next
    case e1: False
    then show ?thesis using assms False s ok by (intro failed) (auto simp: stun_ctrans_request_def)
  qed
qed

lemma ct_request_inv:
  assumes "trans_inv r" "i \<notin> tr_used r" "\<And>p. ctp = Some p \<Longrightarrow> st_ptr (tr_stun r) p = None"
    "stun_ctrans_request en i ctp (tr_stun r) proto sock dst mb tid met key resph = (e, stun', acts)"
  shows "trans_inv ((tr_next r (stun', acts))\<lparr>tr_used := insert i (tr_used r)\<rparr>)"
  using assms(4)
proof (cases rule: request_cases)
  case failed
  then show ?thesis using assms(1) by (auto simp: trans_inv_def)
next
  case (started ct)
  note i = assms(1) [unfolded trans_inv_def]
  have new: "i \<notin> ct_id ` set (st_ctl (tr_stun r))" "i \<notin> set (responses (tr_log r))" using i assms(2) by blast+
  have "st_ptr stun' p = Some j \<longleftrightarrow> (\<exists>x \<in> set (st_ctl (tr_stun r) @ [ct]). ct_id x = j \<and> ct_ctp x = Some p)" for p j
  proof (cases "ctp = Some p")
    case True
    then have "\<not> (\<exists>x \<in> set (st_ctl (tr_stun r)). ct_ctp x = Some p)" using i assms(3) [OF True] by (metis option.distinct(1))
    then show ?thesis using True started(3,4,6) by auto
  next
    case False
    then have "st_ptr stun' p = st_ptr (tr_stun r) p" using started(6) by (auto split: option.splits)
    then show ?thesis using False started(4) i by auto
  qed
  then show ?thesis using i new started(1-5) unfolding trans_inv_def by auto
qed

lemma cancel_inv:
  assumes "trans_inv r"
  shows "trans_inv (tr_next r (ct_cancel p (tr_stun r), []))"
proof (cases "st_ptr (tr_stun r) p")
  case None
  then show ?thesis using assms by (simp add: ct_cancel_def inv_quiet)
next
  case (Some j)
  then obtain ct where ct: "ct \<in> set (st_ctl (tr_stun r))" "ct_id ct = j" "ct_ctp ct = Some p" using assms by (auto simp: trans_inv_def)
  let ?ct = "ct\<lparr>ct_resph := False\<rparr>"
  have "completed (tr_stun r) ?ct OK 0 None None = (ct_cancel p (tr_stun r), [])"
    using Some ct by (simp add: completed_def ct_cancel_def ct_remove_def Let_def)
  then show ?thesis using completed_only_inv [OF assms ct(1), of ?ct OK 0 None None] by simp
qed

lemma close_all_inv:
  "trans_inv r \<Longrightarrow> set cts \<subseteq> set (st_ctl (tr_stun r)) \<Longrightarrow> distinct (map ct_id cts) \<Longrightarrow> trans_inv (tr_next r (close_all cts (tr_stun r)))"
proof (induction cts arbitrary: r)
  case Nil
  then show ?case by (simp add: inv_quiet)
next
  case (Cons ct cts)
  let ?c = "completed (tr_stun r) ct ECONNABORTED 0 None None"
  have "trans_inv (tr_next r (fst ?c, [] @ snd ?c))" using Cons.prems by (intro completed_inv) simp_all
  moreover have "set cts \<subseteq> set (st_ctl (fst ?c))" using Cons.prems(2,3) by (fastforce simp: image_iff)
  ultimately show ?case using Cons.IH [of "tr_next r (fst ?c, snd ?c)"] Cons.prems(3) by (simp add: tr_next_def split_def Let_def)
qed

lemma trans_step_inv: "trans_step al hmac r r' \<Longrightarrow> trans_inv r \<Longrightarrow> trans_inv r'"
proof (induction rule: trans_step.induct)
  case (t_request i r ctp en proto sock dst mb tid met key resph e stun' acts)
  then show ?case by (intro ct_request_inv)
next
  case (t_estab ct r net)
  then have "trans_inv (tr_next r (fst (completed (tr_stun r) ct net 0 None None), A_send P_tcp s None b # snd (completed (tr_stun r) ct net 0 None None)))" for s b
    using completed_inv [of r ct ct "[A_send P_tcp s None b]" net 0 None None] by simp
  with t_estab show ?case
    by (auto simp: tcp_estab_handler_def Let_def split_def split: option.splits intro!: completed_only_inv inv_quiet)
next
  case (t_closed ct r err)
  then show ?case by (auto simp: tcp_close_handler_def intro!: completed_only_inv)
next
  case (t_close r)
  then have "distinct (map ct_id (st_ctl (tr_stun r)))" by (simp add: trans_inv_def)
  with t_close show ?case unfolding stun_ctrans_close_def by (intro close_all_inv) simp_all
qed (auto intro: timeout_inv recv_inv cancel_inv)

lemma trans_init_inv: "trans_init r \<Longrightarrow> trans_inv r"
proof -
  assume a: "trans_init r"
  then obtain conf indh where "tr_stun r = \<lparr>st_ctl = [], st_conf = conf, st_indh = indh, st_ptr = (\<lambda>p. None)\<rparr>"
    unfolding trans_init_def stun_alloc_def by (simp add: eq_commute) metis
  with a show ?thesis by (simp add: trans_init_def trans_inv_def)
qed

interpretation transinv: invariant_system trans_init "trans_step al hmac" trans_inv
  for al hmac
  by unfold_locales (auto intro: trans_init_inv trans_step_inv)

text \<open>
  C5. In every run of an instance, however requests, datagrams, timeouts, connections and owners that
  give up interleave: the handler of a transaction is called at most once, and never while it is open;
  every open transaction has a running timer; and the pointer of an owner is set exactly as long as
  its transaction is open, so that none dangles.
\<close>

theorem stun_trans_run:
  assumes "reach trans_init (trans_step al hmac) r"
  shows "distinct (responses (tr_log r))
    \<and> list_all (\<lambda>ct. ct_tmr ct \<noteq> None \<and> ct_id ct \<notin> set (responses (tr_log r))) (st_ctl (tr_stun r))
    \<and> (st_ptr (tr_stun r) p = Some i \<longleftrightarrow> (\<exists>ct. ct \<in> set (st_ctl (tr_stun r)) \<and> ct_id ct = i \<and> ct_ctp ct = Some p))"
proof -
  have "trans_inv r" using assms by (rule transinv.reach_inv)
  then show ?thesis unfolding trans_inv_def list_all_iff by blast
qed

lemma stun_recv_response:
  assumes "stun_recv al zm mem hmac stun mb = Some (e, stun', acts)" "A_resp i err code reason (Some msg) \<in> set acts"
  obtains msg0 mb' ua ct herr reason' where "stun_msg_decode al zm mem mb (Some []) = (OK, Some msg0, mb', ua)"
    "find (match_handler msg0) (st_ctl stun) = Some ct" "ct_id ct = i" "resp_check al hmac ct code msg0 = Some (OK, msg)"
proof -
  obtain e0 m mb' ua where d: "stun_msg_decode al zm mem mb (Some []) = (e0, m, mb', ua)" by (metis surj_pair)
  obtain msg0 where m: "m = Some msg0" using assms d by (cases m) (auto simp: stun_recv_def)
  have e0: "e0 = OK" using d m by (auto simp: stun_msg_decode_def Let_def split: prod.splits if_splits)
  define us where "us = (case ua of None \<Rightarrow> [] | Some ts \<Rightarrow> ts)"
  have "stun_ctrans_recv al hmac stun msg0 us = Some (e, stun', acts)"
    using assms d m by (auto simp: stun_recv_def us_def split: if_splits)
  then show ?thesis
  proof (cases rule: ctrans_recv_cases)
    case quiet
    then show ?thesis using assms(2) by simp
  next
    case (answer ct herr code' reason' msg')
    then have "acts = snd (completed stun ct (if herr = OK \<and> us \<noteq> [] then EPROTO else herr) code' (Some reason') (Some msg'))" by (metis snd_conv)
    then have "ct_id ct = i" "code' = code" "msg' = msg" using assms(2) by (auto simp: completed_def Let_def split: if_splits)
    with answer d m e0 show ?thesis by (intro that [of msg0 mb' ua ct]) simp_all
  qed
qed

text \<open>
  C17. A response is handed to the handler of an open transaction only when a datagram with the method
  and the identifier of that transaction was received. When the transaction has a key and the code is
  not one of the two that ask for new credentials (401 and 438), the first integrity attribute of the message is the
  keyed hash of the message up to it.
\<close>

theorem stun_response_trusted:
  assumes "mbuf_ok mb" "mb_end mb < 2 ^ 63" "stun_recv al zm mem hmac stun mb = Some (e, stun', acts)"
    and "A_resp i err code reason (Some msg) \<in> set acts"
  shows "\<exists>ct. ct \<in> set (st_ctl stun) \<and> ct_id ct = i \<and> ct_met ct = stun_msg_method msg \<and> ct_tid ct = stun_msg_tid msg
    \<and> (ct_key ct = None \<or> code = 401 \<or> code = 438
       \<or> (\<exists>a. stun_msg_attr msg STUN_ATTR_MSG_INTEGRITY = Some a
           \<and> sa_v a = V_msg_integrity (hmac (the (ct_key ct)) (mi_text (sm_hdr msg) (take (unat (sh_len (sm_hdr msg))) (drop 20 (mb_after mb)))
               (if stun_msg_attr msg STUN_ATTR_FINGERPRINT = None then 0 else 8)))))"
proof -
  obtain msg0 mb' ua ct where r: "stun_msg_decode al zm mem mb (Some []) = (OK, Some msg0, mb', ua)" "find (match_handler msg0) (st_ctl stun) = Some ct"
    "ct_id ct = i" "resp_check al hmac ct code msg0 = Some (OK, msg)" by (rule stun_recv_response [OF assms(3,4)])
  have "ct \<in> set (st_ctl stun)" "match_handler msg0 ct" using r(2) by (auto simp: find_Some_iff)
  moreover have "msg = msg0 \<and> (ct_key ct = None \<or> code = 401 \<or> code = 438
       \<or> (\<exists>a. stun_msg_attr msg STUN_ATTR_MSG_INTEGRITY = Some a
           \<and> sa_v a = V_msg_integrity (hmac (the (ct_key ct)) (mi_text (sm_hdr msg) (take (unat (sh_len (sm_hdr msg))) (drop 20 (mb_after mb)))
               (if stun_msg_attr msg STUN_ATTR_FINGERPRINT = None then 0 else 8)))))"
  proof (cases "ct_key ct = None \<or> code = 401 \<or> code = 438")
    case True
    then show ?thesis using r(4) by (auto simp: resp_check_def split: if_splits option.splits)
  next
    case False
    then obtain k where k: "ct_key ct = Some k" "stun_msg_chk_mi al hmac msg0 k = Some (OK, msg)"
      using r(4) by (auto simp: resp_check_def split: if_splits)
    obtain h A t as where m: "msg0 = \<lparr>sm_hdr = h, sm_attrl = as, sm_mb = mb, sm_start = mb_pos mb\<rparr>" "mb_after mb = hdr_bytes h @ A @ t" "hdr_ok h"
      "unat (sh_len h) = length A" "sum_list (map attr_size as) \<le> length A" "list_all attr_typed as"
      by (rule msg_decode_any [OF assms(1,2) r(1)])
    have "length (hdr_bytes h) = 20" using m(3) length_hdr_bytes by (simp add: hdr_ok_def)
    then have "take (unat (sh_len h)) (drop 20 (mb_after mb)) = A" using m(2,4) by simp
    with chk_mi_any [OF assms(1,2) m refl, of al hmac k] k show ?thesis by (auto simp: m(1))
  qed
  ultimately show ?thesis using r(3) by (auto simp: match_handler_def)
qed

section \<open>A request and its reply\<close>

text \<open>The bits of the class survive for the methods in use, which are all below 16.\<close>

lemma STUN_TYPE_parts:
  assumes "met < 16" "c \<in> {0, 1, 2, 3}"
  shows "STUN_METHOD (STUN_TYPE met c) = met" "STUN_CLASS (STUN_TYPE met c) = ucast c"
proof -
  have "unat met < 16" using assms(1) by (simp add: word_less_nat_alt)
  then have "unat met \<in> set [0..<16]" by simp
  then have "unat met \<in> {0, 1, 2, 3, 4, 5, 6, 7, 8, 9, 10, 11, 12, 13, 14, 15}" by (simp add: upt_rec) presburger
  then have "met \<in> {0, 1, 2, 3, 4, 5, 6, 7, 8, 9, 10, 11, 12, 13, 14, 15}" by (auto simp: word_unat_eq_iff)
  then show "STUN_METHOD (STUN_TYPE met c) = met" "STUN_CLASS (STUN_TYPE met c) = ucast c"
    using assms(2) by (auto simp: STUN_TYPE_def STUN_METHOD_def STUN_CLASS_def)
qed

definition wire_msg :: "(byte list \<Rightarrow> byte list \<Rightarrow> byte list) \<Rightarrow> byte list option \<Rightarrow> bool \<Rightarrow> u16 \<Rightarrow> byte list \<Rightarrow> (u16 \<times> stun_val) list \<Rightarrow> byte list" where
  "wire_msg hmac key fp type tid as =
     msg_bytes type tid (attrs_bytes tid 0 as @ attrs_bytes tid 0 (tail_attrs hmac key fp type tid 0 (attrs_bytes tid 0 as)))"

text \<open>Attributes that a caller may pass: valid, without integrity and fingerprint, and not too long.\<close>

definition args_ok :: "byte list \<Rightarrow> (u16 \<times> stun_val) list \<Rightarrow> bool" where
  "args_ok tid as \<longleftrightarrow> list_all attr_ok as \<and> list_all (\<lambda>a. fst a \<noteq> STUN_ATTR_MSG_INTEGRITY) as \<and> list_all (\<lambda>a. fst a \<noteq> STUN_ATTR_FINGERPRINT) as
     \<and> length (attrs_bytes tid 0 as) + 32 < 2 ^ 16"

lemma mbuf_alloc_ok: "mem_ok al \<Longrightarrow> \<exists>mb. mbuf_alloc al n = Some mb \<and> mbuf_wf mb \<and> mb_end mb = 0"
proof -
  assume a: "mem_ok al"
  define k where "k = (if n \<noteq> 0 then n else MBUF_DEFAULT_SIZE)"
  obtain junk where "al k = Some junk" using a by (auto simp: mem_ok_def)
  then have "mbuf_resize al mbuf_init k = (OK, mbuf_init\<lparr>mb_buf := map junk [0..<k], mb_size := k\<rparr>)"
    by (simp add: mbuf_resize_def mem_alloc_def mbuf_init_def)
  then have "mbuf_alloc al n = Some (mbuf_init\<lparr>mb_buf := map junk [0..<k], mb_size := k\<rparr>)"
    unfolding mbuf_alloc_def k_def [symmetric] by simp
  then show ?thesis by (simp add: mbuf_wf_def mbuf_init_def)
qed

lemma encode_wire:
  assumes "mem_ok al" "\<forall>k x. length (hmac k x) = 20" "length tid = 12" "args_ok tid (given ((STUN_ATTR_ERR_CODE, ec) # attrs))" "presz + 2 ^ 17 < 2 ^ 64"
  shows "\<exists>mb mb'. mbuf_alloc al n = Some mb \<and> stun_msg_vencode al hmac (mb\<lparr>mb_pos := presz\<rparr>) met cls tid ec key fp 0 attrs = Some (OK, mb')
    \<and> bytes_left (mb'\<lparr>mb_pos := presz\<rparr>) = wire_msg hmac key fp (STUN_TYPE met cls) tid (given ((STUN_ATTR_ERR_CODE, ec) # attrs))"
proof -
  obtain mb where mb: "mbuf_alloc al n = Some mb" "mbuf_wf mb" "mb_end mb = 0" using mbuf_alloc_ok [OF assms(1)] by blast
  have hm: "length (hmac k x) = 20" for k x using assms(2) by simp
  let ?as = "given ((STUN_ATTR_ERR_CODE, ec) # attrs)"
  obtain mb' where e: "stun_msg_vencode al hmac (mb\<lparr>mb_pos := presz\<rparr>) met cls tid ec key fp 0 attrs = Some (OK, mb')"
    "wrote (mb\<lparr>mb_pos := presz\<rparr>) mb' (wire_msg hmac key fp (STUN_TYPE met cls) tid ?as)"
    using encode_msg_wrote [of al hmac "mb\<lparr>mb_pos := presz\<rparr>" tid ec attrs "attrs_bytes tid 0 ?as" 0 "STUN_TYPE met cls" met cls key fp] assms hm mb
    by (auto simp: wire_msg_def args_ok_def)
  have "wire_msg hmac key fp (STUN_TYPE met cls) tid ?as \<noteq> []" using length_hdr_bytes [of "msg_hdr _ tid _"] assms(3) by (auto simp: wire_msg_def msg_bytes_def msg_hdr_def hdr_bytes_def)
  from wrote_bytes_left(1) [OF e(2) this] mb e(1) show ?thesis by auto
qed

lemma decode_wire:
  assumes "mem_ok al" "\<forall>k x. length (hmac k x) = 20" "length tid = 12" "args_ok tid as"
    and "mbuf_ok mb" "mb_end mb < 2 ^ 64" "mb_after mb = wire_msg hmac key fp (STUN_TYPE met cls) tid as"
  shows "\<exists>msg tail. stun_msg_decode al True (\<lambda>p. True) mb (Some []) = (OK, Some msg, mb, Some [])
    \<and> stun_msg_type msg = STUN_TYPE met cls \<and> stun_msg_tid msg = tid \<and> list_all2 attr_same (as @ tail) (sm_attrl msg)
    \<and> (\<forall>k. key = Some k \<longrightarrow> stun_msg_chk_mi al hmac msg k = Some (OK, msg)) \<and> (fp \<longrightarrow> stun_msg_chk_fingerprint msg = Some (OK, msg))"
proof -
  have hm: "length (hmac k x) = 20" for k x using assms(2) by simp
  show ?thesis
    using msg_received [of al hmac tid as "attrs_bytes tid 0 as" 0 "STUN_TYPE met cls" met cls _ key fp mb "Some []"] assms hm
    by (auto simp: wire_msg_def args_ok_def)
qed

lemma request_sent:
  assumes "mem_ok al" "\<forall>k x. length (hmac k x) = 20" "length tid = 12" "args_ok tid (given attrs)"
    and "en_zalloc en" "key = None \<or> en_key en" "en_send en = OK"
  shows "\<exists>stun1 ct. stun_request al hmac en i ctp stun P_udp (Some s) (Some d) 0 met key fp True tid attrs =
      Some (OK, stun1, [A_helper s, A_send P_udp s (Some d) (wire_msg hmac key fp (STUN_TYPE met 0) tid (given attrs))])
    \<and> st_ctl stun1 = st_ctl stun @ [ct] \<and> ct_id ct = i \<and> ct_tid ct = tid \<and> ct_met ct = met \<and> ct_key ct = key \<and> ct_resph ct"
proof -
  obtain mb mb' where e: "mbuf_alloc al 512 = Some mb" "stun_msg_vencode al hmac (mb\<lparr>mb_pos := 0\<rparr>) met 0 tid None key fp 0 attrs = Some (OK, mb')"
    "bytes_left (mb'\<lparr>mb_pos := 0\<rparr>) = wire_msg hmac key fp (STUN_TYPE met 0) tid (given attrs)"
    using encode_wire [OF assms(1-3), of None attrs 0 512 met 0 key fp] assms(4) by auto
  then show ?thesis using assms(5-7)
    by (auto simp: stun_request_def STUN_CLASS_REQUEST_def stun_ctrans_request_def request_start_def Let_def split: option.splits)
qed

lemma reply_sent:
  assumes "mem_ok al" "\<forall>k x. length (hmac k x) = 20" "length (stun_msg_tid req) = 12" "args_ok (stun_msg_tid req) (given attrs)"
  shows "stun_reply al hmac OK P_udp (Some s) (Some d) 0 req key fp attrs =
      Some (OK, [A_send P_udp s (Some d) (wire_msg hmac key fp (STUN_TYPE (stun_msg_method req) 2) (stun_msg_tid req) (given attrs))])"
proof -
  obtain mb mb' where "mbuf_alloc al 256 = Some mb"
    "stun_msg_vencode al hmac (mb\<lparr>mb_pos := 0\<rparr>) (stun_msg_method req) 2 (stun_msg_tid req) None key fp 0 attrs = Some (OK, mb')"
    "bytes_left (mb'\<lparr>mb_pos := 0\<rparr>) = wire_msg hmac key fp (STUN_TYPE (stun_msg_method req) 2) (stun_msg_tid req) (given attrs)"
    using encode_wire [OF assms(1-3), of None attrs 0 256 "stun_msg_method req" 2 key fp] assms(4) by auto
  then show ?thesis by (simp add: stun_reply_def encode_and_send_def STUN_CLASS_SUCCESS_RESP_def stun_send_def)
qed

lemma reply_received:
  assumes "mem_ok al" "\<forall>k x. length (hmac k x) = 20" "length tid = 12" "args_ok tid as" "met < 16"
    and "mbuf_ok mb" "mb_end mb < 2 ^ 64" "mb_after mb = wire_msg hmac key fp (STUN_TYPE met 2) tid as"
    and ct: "find (\<lambda>c. ct_met c = met \<and> ct_tid c = tid) (st_ctl stun) = Some ct" "ct_key ct = key" "ct_resph ct"
  shows "\<exists>msg tail stun'. stun_recv al True (\<lambda>p. True) hmac stun mb = Some (OK, stun', [A_resp (ct_id ct) OK 0 (Some reason_ok) (Some msg)])
    \<and> list_all2 attr_same (as @ tail) (sm_attrl msg) \<and> find_ct (ct_id ct) stun' = None"
proof -
  obtain msg tail where d: "stun_msg_decode al True (\<lambda>p. True) mb (Some []) = (OK, Some msg, mb, Some [])" "stun_msg_type msg = STUN_TYPE met 2"
    "stun_msg_tid msg = tid" "list_all2 attr_same (as @ tail) (sm_attrl msg)" "\<forall>k. key = Some k \<longrightarrow> stun_msg_chk_mi al hmac msg k = Some (OK, msg)"
    using decode_wire [OF assms(1-4,6-8)] by blast
  have c: "unat (stun_msg_class msg) = 2" "stun_msg_method msg = met"
    using d(2) STUN_TYPE_parts [OF assms(5), of 2] by (simp_all add: stun_msg_class_def stun_msg_method_def)
  have f: "find (match_handler msg) (st_ctl stun) = Some ct" using ct(1) c(2) d(3) by (simp add: match_handler_def [abs_def])
  have k: "resp_check al hmac ct 0 msg = Some (OK, msg)" using d(5) ct(2) by (simp add: resp_check_def split: option.splits)
  have "stun_recv al True (\<lambda>p. True) hmac stun mb = Some (OK, fst (completed stun ct OK 0 (Some reason_ok) (Some msg)), snd (completed stun ct OK 0 (Some reason_ok) (Some msg)))"
    using d(1) c f k by (simp add: stun_recv_def stun_ctrans_recv_def resp_errcode_def STUN_CLASS_INDICATION_def STUN_CLASS_SUCCESS_RESP_def STUN_CLASS_ERROR_RESP_def Let_def split_def)
  then show ?thesis using completed_resp [OF ct(3)] completed_gone d(4) by auto
qed

text \<open>
  C4. A request over UDP and its reply: when the datagrams arrive, the server decodes the request with
  the attributes that were sent and finds its integrity and fingerprint right; the datagram it replies
  with completes the transaction of the request and no other, with success and with the attributes of
  the reply.
\<close>

theorem stun_exchange:
  assumes "mem_ok al" "\<forall>k x. length (hmac k x) = 20" "length tid = 12" "met < 16" "args_ok tid (given attrs)" "args_ok tid (given attrs')"
    and "en_zalloc en" "key = None \<or> en_key en" "en_send en = OK" "find (\<lambda>c. ct_met c = met \<and> ct_tid c = tid) (st_ctl stun) = None"
  shows "\<exists>stun1 pkt. stun_request al hmac en i ctp stun P_udp (Some s) (Some d) 0 met key fp True tid attrs = Some (OK, stun1, [A_helper s, A_send P_udp s (Some d) pkt])
    \<and> (\<forall>mb. mbuf_ok mb \<and> mb_end mb < 2 ^ 64 \<and> mb_after mb = pkt \<longrightarrow>
        (\<exists>req tail rpl. stun_msg_decode al True (\<lambda>p. True) mb (Some []) = (OK, Some req, mb, Some [])
           \<and> list_all2 attr_same (given attrs @ tail) (sm_attrl req)
           \<and> (\<forall>k. key = Some k \<longrightarrow> stun_msg_chk_mi al hmac req k = Some (OK, req)) \<and> (fp \<longrightarrow> stun_msg_chk_fingerprint req = Some (OK, req))
           \<and> stun_reply al hmac OK P_udp (Some s') (Some d') 0 req key fp' attrs' = Some (OK, [A_send P_udp s' (Some d') rpl])
           \<and> (\<forall>mb'. mbuf_ok mb' \<and> mb_end mb' < 2 ^ 64 \<and> mb_after mb' = rpl \<longrightarrow>
               (\<exists>msg tail' stun2. stun_recv al True (\<lambda>p. True) hmac stun1 mb' = Some (OK, stun2, [A_resp i OK 0 (Some reason_ok) (Some msg)])
                  \<and> list_all2 attr_same (given attrs' @ tail') (sm_attrl msg) \<and> find_ct i stun2 = None))))"
proof -
  obtain stun1 ct where q: "stun_request al hmac en i ctp stun P_udp (Some s) (Some d) 0 met key fp True tid attrs =
      Some (OK, stun1, [A_helper s, A_send P_udp s (Some d) (wire_msg hmac key fp (STUN_TYPE met 0) tid (given attrs))])"
    "st_ctl stun1 = st_ctl stun @ [ct]" "ct_id ct = i" "ct_tid ct = tid" "ct_met ct = met" "ct_key ct = key" "ct_resph ct"
    using request_sent [OF assms(1-3,5,7-9)] by blast
  have f: "find (\<lambda>c. ct_met c = met \<and> ct_tid c = tid) (st_ctl stun1) = Some ct" using assms(10) q by (simp add: find_append)
  note rr = reply_received [OF assms(1-3,6,4) _ _ _ f q(6,7), of _ fp', unfolded q(3)]
  have "\<exists>req tail rpl. stun_msg_decode al True (\<lambda>p. True) mb (Some []) = (OK, Some req, mb, Some [])
           \<and> list_all2 attr_same (given attrs @ tail) (sm_attrl req)
           \<and> (\<forall>k. key = Some k \<longrightarrow> stun_msg_chk_mi al hmac req k = Some (OK, req)) \<and> (fp \<longrightarrow> stun_msg_chk_fingerprint req = Some (OK, req))
           \<and> stun_reply al hmac OK P_udp (Some s') (Some d') 0 req key fp' attrs' = Some (OK, [A_send P_udp s' (Some d') rpl])
           \<and> rpl = wire_msg hmac key fp' (STUN_TYPE met 2) tid (given attrs')"
    if mb: "mbuf_ok mb" "mb_end mb < 2 ^ 64" "mb_after mb = wire_msg hmac key fp (STUN_TYPE met 0) tid (given attrs)" for mb
  proof -
    obtain req tail where r: "stun_msg_decode al True (\<lambda>p. True) mb (Some []) = (OK, Some req, mb, Some [])" "stun_msg_type req = STUN_TYPE met 0" "stun_msg_tid req = tid"
      "list_all2 attr_same (given attrs @ tail) (sm_attrl req)" "\<forall>k. key = Some k \<longrightarrow> stun_msg_chk_mi al hmac req k = Some (OK, req)" "fp \<longrightarrow> stun_msg_chk_fingerprint req = Some (OK, req)"
      using decode_wire [OF assms(1-3,5) mb] by blast
    have "stun_msg_method req = met" using r(2) STUN_TYPE_parts(1) [OF assms(4), of 0] by (simp add: stun_msg_method_def)
    then show ?thesis using r reply_sent [OF assms(1,2), of req attrs' s' d' key fp'] assms(3,6) by blast
  qed
  with q(1) rr show ?thesis by (intro exI [of _ stun1] exI conjI) blast+
qed

section \<open>Examples\<close>

definition al_ex :: allocator where "al_ex = (\<lambda>n. Some (\<lambda>i. 0))"
definition hmac_ex :: "byte list \<Rightarrow> byte list \<Rightarrow> byte list" where "hmac_ex k x = take 20 (k @ x @ replicate 20 0)"
definition tid_ex :: "byte list" where "tid_ex = replicate 12 7"
definition en_ex :: ct_env where "en_ex = \<lparr>en_zalloc = True, en_key = True, en_listen = (OK, 0), en_connect = (OK, 0), en_send = OK\<rparr>"
definition stun_ex :: stun where "stun_ex = \<lparr>st_ctl = [], st_conf = conf_default, st_indh = False, st_ptr = (\<lambda>p. None)\<rparr>"
definition attrs_ex :: "(u16 \<times> stun_val option) list" where "attrs_ex = [(STUN_ATTR_USERNAME, Some (V_str [97, 0]))]"
definition attrs_ex' :: "(u16 \<times> stun_val option) list" where
  "attrs_ex' = [(STUN_ATTR_XOR_MAPPED_ADDR, Some (V_sa (Sa_in 0x7f000001 3478))), (STUN_ATTR_SOFTWARE, None)]"

lemmas run_ex = al_ex_def hmac_ex_def tid_ex_def en_ex_def stun_ex_def attrs_ex_def attrs_ex'_def

lemma ex_facts:
  "mem_ok al_ex" "\<forall>k x. length (hmac_ex k x) = 20" "length tid_ex = 12" "args_ok tid_ex (given attrs_ex)" "args_ok tid_ex (given attrs_ex')"
  "en_zalloc en_ex" "en_key en_ex" "en_send en_ex = OK"
  by (simp_all add: run_ex mem_ok_def min_def args_ok_def attr_ok_def val_ok_def attr_kind_def stun_attr_types str_ok_def c_str_def attrs_bytes_def
      attr_bytes_def val_bytes_def addr_bytes_def pad4_def)

lemma wire_length:
  assumes "\<forall>k x. length (hmac k x) = 20" "length tid = 12"
  shows "length (wire_msg hmac key fp t tid as) = 20 + length (attrs_bytes tid 0 as) + (if key = None then 0 else 24) + (if fp then 8 else 0)"
proof -
  have "length (hmac k x) = 20" for k x using assms(1) by simp
  note tail_length [of hmac, OF this]
  then show ?thesis using assms(2) by (simp add: wire_msg_def msg_bytes_def msg_hdr_def hdr_bytes_def)
qed

definition mb_of :: "byte list \<Rightarrow> mbuf" where
  "mb_of bs = \<lparr>mb_buf = bs, mb_size = length bs, mb_pos = 0, mb_end = length bs\<rparr>"

lemma mb_of_ok: "mbuf_ok (mb_of bs)" "mb_after (mb_of bs) = bs" "mb_end (mb_of bs) = length bs"
  by (simp_all add: mb_of_def mbuf_ok_def mb_after_def mbuf_get_left_def mbuf_buf_def)

lemma args_length: "args_ok tid as \<Longrightarrow> length (attrs_bytes tid 0 as) < 2 ^ 16"
  by (simp add: args_ok_def)

theorem stun_exchange_witness:
  "\<exists>stun1 pkt req rpl. stun_request al_ex hmac_ex en_ex 1 (Some 0) stun_ex P_udp (Some 4) (Some (Sa_in 1 2)) 0 1 (Some [5]) True True tid_ex attrs_ex =
       Some (OK, stun1, [A_helper 4, A_send P_udp 4 (Some (Sa_in 1 2)) pkt])
     \<and> stun_msg_decode al_ex True (\<lambda>p. True) (mb_of pkt) (Some []) = (OK, Some req, mb_of pkt, Some [])
     \<and> stun_reply al_ex hmac_ex OK P_udp (Some 9) (Some (Sa_in 3 4)) 0 req (Some [5]) False attrs_ex' = Some (OK, [A_send P_udp 9 (Some (Sa_in 3 4)) rpl])"
proof -
  have no: "find (\<lambda>c. ct_met c = 1 \<and> ct_tid c = tid_ex) (st_ctl stun_ex) = None" by (simp add: stun_ex_def)
  let ?w = "wire_msg hmac_ex (Some [5]) True (STUN_TYPE 1 0) tid_ex (given attrs_ex)"
  have l: "length ?w < 2 ^ 64" using wire_length [OF ex_facts(2,3), of "Some [5]" True "STUN_TYPE 1 0" "given attrs_ex"] args_length [OF ex_facts(4)] by simp
  obtain stun0 where q: "stun_request al_ex hmac_ex en_ex 1 (Some 0) stun_ex P_udp (Some 4) (Some (Sa_in 1 2)) 0 1 (Some [5]) True True tid_ex attrs_ex =
      Some (OK, stun0, [A_helper 4, A_send P_udp 4 (Some (Sa_in 1 2)) ?w])"
    using request_sent [OF ex_facts(1-4) ex_facts(6) _ ex_facts(8), of "Some [5]" 1 "Some 0" stun_ex 4 "Sa_in 1 2" 1 True] ex_facts(7) by blast
  from stun_exchange [OF ex_facts(1-3) _ ex_facts(4-6) _ ex_facts(8) no, of "Some [5]" 1 "Some 0" 4 "Sa_in 1 2" True 9 "Sa_in 3 4" False] ex_facts(7)
  obtain stun1 pkt where e: "stun_request al_ex hmac_ex en_ex 1 (Some 0) stun_ex P_udp (Some 4) (Some (Sa_in 1 2)) 0 1 (Some [5]) True True tid_ex attrs_ex =
      Some (OK, stun1, [A_helper 4, A_send P_udp 4 (Some (Sa_in 1 2)) pkt])"
    "\<forall>mb. mbuf_ok mb \<and> mb_end mb < 2 ^ 64 \<and> mb_after mb = pkt \<longrightarrow>
        (\<exists>req rpl. stun_msg_decode al_ex True (\<lambda>p. True) mb (Some []) = (OK, Some req, mb, Some [])
           \<and> stun_reply al_ex hmac_ex OK P_udp (Some 9) (Some (Sa_in 3 4)) 0 req (Some [5]) False attrs_ex' = Some (OK, [A_send P_udp 9 (Some (Sa_in 3 4)) rpl]))"
    by (fastforce simp: word_less_nat_alt)
  with q have "pkt = ?w" by simp
  then have "mbuf_ok (mb_of pkt) \<and> mb_end (mb_of pkt) < 2 ^ 64 \<and> mb_after (mb_of pkt) = pkt" using mb_of_ok [of pkt] l by simp
  with e show ?thesis by blast
qed

definition ct_ex :: stun_ctrans where
  "ct_ex = \<lparr>ct_id = 1, ct_tmr = Some 500, ct_dst = Some (Sa_in 1 2), ct_tid = tid_ex, ct_ctp = Some 0, ct_key = Some [5], ct_sock = Some 4, ct_mb = mbuf_init,
     ct_pos = 0, ct_resph = True, ct_proto = P_udp, ct_txc = 1, ct_ival = 500, ct_met = 1\<rparr>"

theorem stun_trans_run_witness:
  "\<exists>r. reach trans_init (trans_step al_ex hmac_ex) r \<and> st_ctl (tr_stun r) = [ct_ex] \<and> st_ptr (tr_stun r) 0 = Some 1"
proof -
  let ?r = "\<lparr>tr_stun = stun_ex, tr_log = [], tr_used = {}\<rparr>"
  let ?s = "stun_ex\<lparr>st_ctl := [ct_ex], st_ptr := (st_ptr stun_ex)(0 := Some 1)\<rparr>"
  have "stun_alloc True None False = (OK, Some (tr_stun ?r))" by (simp add: stun_alloc_def stun_ex_def)
  then have "trans_init ?r" unfolding trans_init_def by auto
  then have "reach trans_init (trans_step al_ex hmac_ex) ?r" by (rule reach_init)
  moreover have q: "stun_ctrans_request en_ex 1 (Some 0) (tr_stun ?r) P_udp (Some 4) (Some (Sa_in 1 2)) mbuf_init tid_ex 1 (Some [5]) True =
      (OK, ?s, [A_helper 4, A_send P_udp 4 (Some (Sa_in 1 2)) (bytes_left mbuf_init)])"
    by (simp add: stun_ctrans_request_def request_start_def en_ex_def stun_ex_def conf_default_def ct_ex_def mbuf_init_def Let_def)
  have "trans_step al_ex hmac_ex ?r ((tr_next ?r (?s, [A_helper 4, A_send P_udp 4 (Some (Sa_in 1 2)) (bytes_left mbuf_init)]))\<lparr>tr_used := insert 1 (tr_used ?r)\<rparr>)"
    by (rule t_request [OF _ _ q]) (simp_all add: stun_ex_def)
  ultimately have r: "reach trans_init (trans_step al_ex hmac_ex) ((tr_next ?r (?s, [A_helper 4, A_send P_udp 4 (Some (Sa_in 1 2)) (bytes_left mbuf_init)]))\<lparr>tr_used := insert 1 (tr_used ?r)\<rparr>)"
    by (rule reach_step)
  from stun_trans_run [OF r, of 0 1] r show ?thesis by (intro exI conjI) (assumption | simp add: ct_ex_def)+
qed

theorem stun_response_trusted_witness:
  "\<exists>mb stun' msg a. stun_recv al_ex True (\<lambda>p. True) hmac_ex (stun_ex\<lparr>st_ctl := [ct_ex]\<rparr>) mb = Some (OK, stun', [A_resp 1 OK 0 (Some reason_ok) (Some msg)])
     \<and> stun_msg_attr msg STUN_ATTR_MSG_INTEGRITY = Some a
     \<and> sa_v a = V_msg_integrity (hmac_ex [5] (mi_text (sm_hdr msg) (take (unat (sh_len (sm_hdr msg))) (drop 20 (mb_after mb)))
         (if stun_msg_attr msg STUN_ATTR_FINGERPRINT = None then 0 else 8)))"
proof -
  let ?s = "stun_ex\<lparr>st_ctl := [ct_ex]\<rparr>" and ?w = "wire_msg hmac_ex (Some [5]) True (STUN_TYPE 1 2) tid_ex (given attrs_ex')"
  have l: "length ?w < 2 ^ 63" using wire_length [OF ex_facts(2,3), of "Some [5]" True "STUN_TYPE 1 2" "given attrs_ex'"] args_length [OF ex_facts(5)] by simp
  have f: "find (\<lambda>c. ct_met c = 1 \<and> ct_tid c = tid_ex) (st_ctl ?s) = Some ct_ex" "ct_key ct_ex = Some [5]" "ct_resph ct_ex" "ct_id ct_ex = 1" by (simp_all add: ct_ex_def)
  obtain msg stun' where r: "stun_recv al_ex True (\<lambda>p. True) hmac_ex ?s (mb_of ?w) = Some (OK, stun', [A_resp 1 OK 0 (Some reason_ok) (Some msg)])"
    using reply_received [OF ex_facts(1-3,5) _ mb_of_ok(1) _ mb_of_ok(2) f(1-3)] f(4) l by (force simp: mb_of_ok word_less_nat_alt)
  from stun_response_trusted [OF mb_of_ok(1) _ r, of 1 OK 0 "Some reason_ok" msg] l f
  obtain a where "stun_msg_attr msg STUN_ATTR_MSG_INTEGRITY = Some a"
    "sa_v a = V_msg_integrity (hmac_ex [5] (mi_text (sm_hdr msg) (take (unat (sh_len (sm_hdr msg))) (drop 20 (mb_after (mb_of ?w))))
       (if stun_msg_attr msg STUN_ATTR_FINGERPRINT = None then 0 else 8)))" by (auto simp: mb_of_ok(3))
  with r show ?thesis by blast
qed

section \<open>Defects\<close>

text \<open>For a method with bit 4 set the class is wrong: a request looks like a success response.\<close>

lemma stun_class_wrong: "STUN_CLASS (STUN_TYPE 0x10 0) = 2"
  by (simp add: STUN_CLASS_def STUN_TYPE_def)

text \<open>Without memory for the padding the encoder of attributes does not return.\<close>

lemma attr_padding_hangs:
  assumes "mbuf_write_u8 al mb padding = (ENOMEM, mb)" "(int (mb_pos mb) - int start) mod 4 \<noteq> 0"
  shows "attr_padding al padding start e mb = None"
proof -
  have "mbuf_write_u8 al' mb' padding' = (ENOMEM, mb') \<longrightarrow> (int (mb_pos mb') - int start') mod 4 = 0"
    if "attr_padding al' padding' start' e' mb' = Some y" for al' padding' start' e' mb' y
    by (rule attr_padding.raw_induct [OF _ that]) (auto split: if_splits)
  then show ?thesis using assms by (cases "attr_padding al padding start e mb") auto
qed

end
