(* ===== verification/Spec2Isabelle.thy ===== *)
theory Spec2Isabelle
  imports Srtp RtpSource Jbuf JsonSafe ClientRun StunRun
begin

text \<open>
  A verification library for \<^verbatim>\<open>barertc\<close>, a WebRTC client in C that publishes and receives media through
  a Janus media server, and for the parts of \<^verbatim>\<open>libre\<close> that carry its media and its signalling.

  \<^bold>\<open>The program.\<close> The client (\<^verbatim>\<open>barertc/src/brtc/baidu_rtc_signal_client.c\<close>) logs in over a WebSocket. The
  signalling connection (\<^verbatim>\<open>RTCConnection.c\<close>) prints requests as JSON text and takes replies and events apart
  with a JSON parser (\<^verbatim>\<open>core_json.c\<close>). For a published or subscribed feed the client keeps a session
  (\<^verbatim>\<open>baidu_rtc_client_session.c\<close>) with a peer connection (\<^verbatim>\<open>peerconn.c\<close>, \<^verbatim>\<open>mediatrack.c\<close>), which exchanges
  session descriptions, starts ICE and, when the encryption is up, the media. Below it, \<^verbatim>\<open>libre\<close> sends
  STUN requests (\<^verbatim>\<open>re/src/stun\<close>), packs media into RTP (\<^verbatim>\<open>re/src/rtp\<close>), protects it with SRTP
  (\<^verbatim>\<open>re/src/srtp\<close>) and orders what arrives in a jitter buffer (\<^verbatim>\<open>re/src/jbuf\<close>), all of it on memory buffers
  (\<^verbatim>\<open>re/src/mbuf\<close>).

  \<^bold>\<open>How the code is modelled.\<close> A structure is a record, an enumeration a datatype, and a function of the
  code a function of the same name. Machine integers are words of their width, sizes and positions in
  memory natural numbers, with the wrap-around of \<^verbatim>\<open>size_t\<close> written out where it can happen. An error
  code is a number (\<^verbatim>\<open>OK\<close> is 0). A function that changes an object takes it and returns it. The value
  \<^verbatim>\<open>None\<close> of an outer option stands for undefined behaviour (a null, freed or indeterminate pointer, an
  access outside an object) or for a loop that does not end. Code that is not in the sources (ciphers,
  hashes, the network, memory allocation) is an argument of the functions that use it; calls of handlers
  and of other modules are written to a log in the order in which they are made.

  \<^bold>\<open>The theories.\<close>

  \<^item> \<^verbatim>\<open>Prelude\<close>: error codes, machine types, byte order, reachability, the interface \<^verbatim>\<open>invariant_system\<close> of
    invariants of a step relation, and the combinators for sequences of writes whose errors are joined.
  \<^item> \<^verbatim>\<open>Mbuf\<close>: memory buffers (\<^verbatim>\<open>mbuf.c\<close>, \<^verbatim>\<open>re_mbuf.h\<close>). Wherever the position is set, no operation
    leaves the block, and what is written is read back. The interface \<^verbatim>\<open>byte_cursor\<close> gives these laws to the codecs.
  \<^item> \<^verbatim>\<open>Rtp\<close>: headers, encoding, decoding and sending (\<^verbatim>\<open>rtp.c\<close>). Round trip, bounds on any input, and what
    a packet that is sent looks like.
  \<^item> \<^verbatim>\<open>Replay\<close>, \<^verbatim>\<open>Srtp\<close>: the replay window (\<^verbatim>\<open>replay.c\<close>), the packet index (\<^verbatim>\<open>misc.c\<close>), sessions and streams,
    protection of RTP and RTCP (\<^verbatim>\<open>srtp.c\<close>, \<^verbatim>\<open>srtcp.c\<close>, \<^verbatim>\<open>stream.c\<close>). The window refines the set of all indices
    received, and in every run of a session no index is accepted twice.
  \<^item> \<^verbatim>\<open>RtpSource\<close>: statistics of a source (\<^verbatim>\<open>source.c\<close>): extended sequence numbers across wrap-around, the
    fraction of packets lost, with what becomes of it when all are lost.
  \<^item> \<^verbatim>\<open>Jbuf\<close>: the jitter buffer (\<^verbatim>\<open>jbuf.c\<close>). In every run its list is in sequence, its counter right and no
    reference to a payload lost or released twice; no null pointer is followed when it has at least one frame; insertion refines insertion into a set.
  \<^item> \<^verbatim>\<open>CoreJson\<close>, \<^verbatim>\<open>JsonGrammar\<close>, \<^verbatim>\<open>JsonValid\<close>, \<^verbatim>\<open>JsonSafe\<close>: the JSON parser (\<^verbatim>\<open>core_json.c\<close>); a grammar of
    JSON; on documents of the grammar the validator accepts and the search returns the first member;
    on every buffer nothing behind its end matters, and what is returned lies inside.
  \<^item> \<^verbatim>\<open>Unicode\<close>: escaping of text for JSON (\<^verbatim>\<open>re/src/fmt/unicode.c\<close>), with its round trip.
  \<^item> \<^verbatim>\<open>PeerConn\<close>: peer connections and media tracks. In every run the signalling state is that of offer and
    answer, the close handler is called at most once, tracks are started when secured, and the timer
    that retries ICE stops.
  \<^item> \<^verbatim>\<open>RtcConnection\<close>, \<^verbatim>\<open>RtcMessages\<close>, \<^verbatim>\<open>RtcRun\<close>: the signalling connection; its requests are JSON; a
    reply reaches the callback of the first transaction whose identifier starts with the one received,
    and the login runs to its end.
  \<^item> \<^verbatim>\<open>RtcClient\<close>, \<^verbatim>\<open>ClientRun\<close>: the client with its sessions. In every run with texts that need no
    escape, every request is JSON that the parser of the client itself accepts; publishing and subscribing are negotiated to the end.
  \<^item> \<^verbatim>\<open>Crc32\<close>, \<^verbatim>\<open>Stun\<close>, \<^verbatim>\<open>StunWire\<close>, \<^verbatim>\<open>StunSafe\<close>: the checksum and the codec of STUN (\<^verbatim>\<open>crc32.c\<close>, \<^verbatim>\<open>hdr.c\<close>,
    \<^verbatim>\<open>addr.c\<close>, \<^verbatim>\<open>attr.c\<close>, \<^verbatim>\<open>msg.c\<close>). The table is that of the polynomial; messages are read back as they were
    written; both checks are safe on every datagram and exact.
  \<^item> \<^verbatim>\<open>StunTrans\<close>, \<^verbatim>\<open>StunRun\<close>: transactions (\<^verbatim>\<open>ctrans.c\<close>, \<^verbatim>\<open>stun.c\<close>, \<^verbatim>\<open>req.c\<close>, \<^verbatim>\<open>rep.c\<close>, \<^verbatim>\<open>ind.c\<close>). Retransmission
    and timeout, at most one response per request in every run, trust in a response, and a request
    with its reply from end to end.

  \<^bold>\<open>Runs.\<close> A component with state has a step relation with one rule for each operation and for each event
  it handles, with the results of other modules arbitrary; an invariant is proved for each rule, and
  the interpretation of \<^verbatim>\<open>invariant_system\<close> on the relation gives it for every run.

  \<^bold>\<open>Bounds.\<close> Loops are recursive functions with a measure, so that they have no fuel; the one loop that may
  not end (padding of a STUN attribute without memory) is a partial function, and the theorems about the
  encoder prove that it returns. Nesting of JSON is bounded by the 32 levels of the code. Theorems about
  memory require positions below \<open>2 ^ 63\<close> or \<open>2 ^ 64\<close>, the limit of \<^verbatim>\<open>size_t\<close>.

  \<^bold>\<open>Defects.\<close> Some lemmas state what the code does wrong, among them \<^verbatim>\<open>srtp_get_index_overflow\<close>,
  \<^verbatim>\<open>srtp_decrypt_forged_roc\<close>, \<^verbatim>\<open>srtcp_gcm_replayed\<close>, \<^verbatim>\<open>mbuf_fill_overruns\<close>, \<^verbatim>\<open>jbuf_dup_evicts\<close>, \<^verbatim>\<open>JSON_Validate_too_lax\<close>,
  \<^verbatim>\<open>pc_bad_offer_sticks\<close>, \<^verbatim>\<open>rtc_reply_without_transaction\<close>, \<^verbatim>\<open>jsep_twice\<close>, \<^verbatim>\<open>failed_offer_crashes\<close>,
  \<^verbatim>\<open>unescaped_message_not_json\<close>,
  \<^verbatim>\<open>stun_class_wrong\<close> and \<^verbatim>\<open>attr_padding_hangs\<close>. They show why the theorems have the hypotheses they have.

  \<^bold>\<open>Not modelled.\<close> The event loop, sockets and timers, whose events are the steps of the models; Mongoose;
  DTLS and TLS, which wrap OpenSSL; ICE, TURN, SDP, RTCP reports and the media core of \<^verbatim>\<open>baresip\<close>, which the
  peer connection sees as results of calls; SIP and the other protocols of \<^verbatim>\<open>libre\<close> that this client does
  not call; signal processing of \<^verbatim>\<open>librem\<close>; the modules of \<^verbatim>\<open>baresip\<close>; the web server of the demo; and the
  programs \<^verbatim>\<open>baresip-webrtc\<close> and \<^verbatim>\<open>restund\<close>. Console output, locks and the reference counts of objects other
  than payloads of the jitter buffer are left out.
\<close>

end
